(* ===== verification/Opensync_Prelude.thy ===== *)
theory Opensync_Prelude
  imports Main "HOL-Library.Word"
begin

text \<open>
  Shared vocabulary of the development: the C integer types the sources use, the wrap-around
  of a signed 32-bit result, the C library comparisons (\<open>memcmp\<close>, \<open>strcmp\<close>) on lists of
  bytes and characters, and a few facts on sorted lists that the container theories share.
\<close>

section \<open>C integers\<close>

type_synonym u8 = "8 word"
type_synonym u16 = "16 word"
type_synonym u32 = "32 word"
type_synonym u64 = "64 word"

text \<open>
  The value a two's complement machine leaves in an \<open>int\<close> when the mathematical result is
  \<open>x\<close>. It is also what the conversion \<open>(int)x\<close> of a wider integer yields on the compilers the
  program is built with.
\<close>

definition wrap_s32 :: "int \<Rightarrow> int" where
  "wrap_s32 x = (x + 2 ^ 31) mod 2 ^ 32 - 2 ^ 31"

lemma wrap_s32_id: "- (2 ^ 31) \<le> x \<Longrightarrow> x < 2 ^ 31 \<Longrightarrow> wrap_s32 x = x"
  by (simp add: wrap_s32_def)

lemma wrap_s32_bounds: "- (2 ^ 31) \<le> wrap_s32 x \<and> wrap_s32 x < 2 ^ 31"
  by (simp add: wrap_s32_def)

text \<open>Integer division of C: the quotient is truncated towards zero.\<close>

definition c_div :: "int \<Rightarrow> int \<Rightarrow> int" where
  "c_div a b = sgn a * sgn b * (\<bar>a\<bar> div \<bar>b\<bar>)"

lemma c_div_nonneg [simp]: "0 \<le> a \<Longrightarrow> 0 < b \<Longrightarrow> c_div a b = a div b"
  by (cases "a = 0") (simp_all add: c_div_def)

section \<open>Lexicographic comparison, as \<open>memcmp\<close> and \<open>strcmp\<close> define it\<close>

text \<open>
  Both functions promise only the sign of their result; callers use nothing else. The model
  returns \<open>-1\<close>, \<open>0\<close> or \<open>1\<close>. A C string is the list of its characters without the
  terminating NUL, so the shorter of two strings, one a prefix of the other, is the smaller.
\<close>

fun lex_cmp :: "'a::linorder list \<Rightarrow> 'a list \<Rightarrow> int" where
  "lex_cmp [] [] = 0"
| "lex_cmp [] (_ # _) = - 1"
| "lex_cmp (_ # _) [] = 1"
| "lex_cmp (x # xs) (y # ys) = (if x < y then - 1 else if y < x then 1 else lex_cmp xs ys)"

lemma lex_cmp_eq_0 [simp]: "lex_cmp xs ys = 0 \<longleftrightarrow> xs = ys"
  by (induction xs ys rule: lex_cmp.induct) auto

lemma lex_cmp_swap: "lex_cmp ys xs = - lex_cmp xs ys"
  by (induction xs ys rule: lex_cmp.induct) auto

lemma lex_cmp_range: "lex_cmp xs ys = - 1 \<or> lex_cmp xs ys = 0 \<or> lex_cmp xs ys = 1"
  by (induction xs ys rule: lex_cmp.induct) auto

lemma lex_cmp_trans: "lex_cmp xs ys \<le> 0 \<Longrightarrow> lex_cmp ys zs \<le> 0 \<Longrightarrow> lex_cmp xs zs \<le> 0"
proof (induction xs arbitrary: ys zs)
  case Nil
  then show ?case by (cases zs) simp_all
next
  case (Cons x xs)
  then show ?case
    by (cases ys; cases zs) (auto split: if_splits)
qed

definition memcmp :: "u8 list \<Rightarrow> u8 list \<Rightarrow> int" where
  "memcmp a b = lex_cmp a b"

definition strcmp :: "u8 list \<Rightarrow> u8 list \<Rightarrow> int" where
  "strcmp a b = lex_cmp a b"

text \<open>A fixed-size character array up to its first NUL, and \<open>strncmp\<close> on such arrays.\<close>

definition cstr :: "u8 list \<Rightarrow> u8 list" where
  "cstr buf = takeWhile (\<lambda>c. c \<noteq> 0) buf"

definition strncmp :: "u8 list \<Rightarrow> u8 list \<Rightarrow> nat \<Rightarrow> int" where
  "strncmp a b n = lex_cmp (cstr (take n a)) (cstr (take n b))"

section \<open>Sorted lists and options\<close>

lemma sorted_wrt_split:
  "sorted_wrt P (xs @ y # ys) \<longleftrightarrow>
     sorted_wrt P xs \<and> sorted_wrt P ys \<and> (\<forall>x \<in> set xs. P x y) \<and> (\<forall>z \<in> set ys. P y z)
     \<and> (\<forall>x \<in> set xs. \<forall>z \<in> set ys. P x z)"
  by (auto simp: sorted_wrt_append)

lemma sorted_wrt_drop_mid:
  "sorted_wrt P (xs @ y # ys) \<Longrightarrow> sorted_wrt P (xs @ ys)"
  by (auto simp: sorted_wrt_append)

lemma snd_split_unique:
  "xs @ (k, d) # ys = xs' @ (k', d) # ys' \<Longrightarrow> distinct (map snd (xs @ (k, d) # ys)) \<Longrightarrow>
     xs = xs' \<and> k = k' \<and> ys = ys'"
proof (induction xs arbitrary: xs')
  case Nil
  then show ?case by (cases xs') auto
next
  case (Cons x xs)
  then show ?case by (cases xs') auto
qed

lemma filter_snd_neq:
  assumes "distinct (map snd (L @ (k, d) # R))"
  shows "filter (\<lambda>e. snd e \<noteq> d) (L @ (k, d) # R) = L @ R"
proof -
  have "\<forall>e \<in> set L. snd e \<noteq> d" "\<forall>e \<in> set R. snd e \<noteq> d" using assms by force+
  then show ?thesis by (simp add: filter_True)
qed

section \<open>Counting\<close>

lemma sum_list_bools_full:
  "(\<Sum>i\<leftarrow>xs. if P i then 1 else 0 :: nat) = length xs \<longleftrightarrow> (\<forall>i\<in>set xs. P i)"
proof (induction xs)
  case (Cons a xs)
  have "(\<Sum>i\<leftarrow>xs. if P i then 1 else 0 :: nat) \<le> length xs" by (induction xs) auto
  then show ?case using Cons by auto
qed simp

lemma distinct_same_length_subset:
  assumes "distinct a" "distinct b"
  shows "length a = length b \<and> set a \<subseteq> set b \<longleftrightarrow> set a = set b"
  using distinct_card [OF assms(1)] distinct_card [OF assms(2)] card_subset_eq [of "set b" "set a"]
  by auto

section \<open>Iteration\<close>

text \<open>What the iterators of \<open>ds_tree\<close> and \<open>ds_dlist\<close> return: \<open>DS_ITER_ERROR\<close> or a container or NULL.\<close>

datatype 'd iter_ret = DS_ITER_ERROR | Ret "'d option"

end
