(* ===== verification/Ds_Cmp.thy ===== *)
theory Ds_Cmp
  imports Opensync_Prelude
begin

text \<open>
  The key comparators of \<open>src/src/lib/ds/src/ds_tree.c\<close> and the contract every user of a
  \<open>ds_tree_t\<close> relies on (\<open>ds_key_cmp_t\<close> in \<open>ds.h\<close>: negative, zero or positive as the
  first key is below, equal to or above the second). The contract is the locale \<open>key_cmp\<close>;
  the tree theory proves its results inside it, and the comparators that meet it interpret
  it here.
\<close>

section \<open>The comparator contract\<close>

locale key_cmp =
  fixes cmp :: "'k \<Rightarrow> 'k \<Rightarrow> int"
  assumes cmp_swap: "cmp a b < 0 \<longleftrightarrow> 0 < cmp b a"
    and cmp_trans: "cmp a b \<le> 0 \<Longrightarrow> cmp b c \<le> 0 \<Longrightarrow> cmp a c \<le> 0"
begin

lemma cmp_refl [simp]: "cmp a a = 0"
  using cmp_swap [of a a] by linarith

lemma cmp_zero_sym: "cmp a b = 0 \<longleftrightarrow> cmp b a = 0"
  using cmp_swap [of a b] cmp_swap [of b a] by linarith

lemma cmp_total: "cmp a b \<le> 0 \<or> cmp b a \<le> 0"
  using cmp_swap [of b a] by linarith

lemma cmp_le_not_less: "cmp a b \<le> 0 \<longleftrightarrow> \<not> cmp b a < 0"
  using cmp_swap [of b a] by linarith

lemma cmp_less_trans1: "cmp a b < 0 \<Longrightarrow> cmp b c \<le> 0 \<Longrightarrow> cmp a c < 0"
  using cmp_trans [of b c a] cmp_le_not_less [of b a] cmp_le_not_less [of c a] by linarith

lemma cmp_less_trans2: "cmp a b \<le> 0 \<Longrightarrow> cmp b c < 0 \<Longrightarrow> cmp a c < 0"
  using cmp_trans [of c a b] cmp_le_not_less [of c a] cmp_le_not_less [of c b] by linarith

end

section \<open>The stock comparators\<close>

text \<open>\<open>ds_int_cmp\<close> subtracts two \<open>int\<close>s; the difference is an \<open>int\<close> again.\<close>

definition ds_int_cmp :: "int \<Rightarrow> int \<Rightarrow> int" where
  "ds_int_cmp a b = wrap_s32 (a - b)"

text \<open>
  \<open>ds_void_cmp\<close> subtracts two pointers as \<open>intptr_t\<close> (64 bits, wrapping) and converts the
  difference to \<open>int\<close>. Pointers are given by their 64-bit address.
\<close>

definition ds_void_cmp :: "u64 \<Rightarrow> u64 \<Rightarrow> int" where
  "ds_void_cmp a b = wrap_s32 (sint (a - b))"

definition ds_str_cmp :: "u8 list \<Rightarrow> u8 list \<Rightarrow> int" where
  "ds_str_cmp a b = strcmp a b"

definition ds_u8_cmp :: "u8 \<Rightarrow> u8 \<Rightarrow> int" where
  "ds_u8_cmp a b = (if a < b then - 1 else if b < a then 1 else 0)"

definition ds_u32_cmp :: "u32 \<Rightarrow> u32 \<Rightarrow> int" where
  "ds_u32_cmp a b = (if a < b then - 1 else if b < a then 1 else 0)"

interpretation str_cmp: key_cmp ds_str_cmp
proof
  show "ds_str_cmp a b < 0 \<longleftrightarrow> 0 < ds_str_cmp b a" for a b
    using lex_cmp_swap [of a b] by (simp add: ds_str_cmp_def strcmp_def)
  show "ds_str_cmp a b \<le> 0 \<Longrightarrow> ds_str_cmp b c \<le> 0 \<Longrightarrow> ds_str_cmp a c \<le> 0" for a b c
    unfolding ds_str_cmp_def strcmp_def by (rule lex_cmp_trans)
qed

interpretation u8_cmp: key_cmp ds_u8_cmp
  by unfold_locales (auto simp: ds_u8_cmp_def split: if_splits)

interpretation u32_cmp: key_cmp ds_u32_cmp
  by unfold_locales (auto simp: ds_u32_cmp_def split: if_splits)


text \<open>Comparators of compound keys: of a component of the key, and one after another.\<close>

lemma key_cmp_lex: "key_cmp lex_cmp"
proof
  show "lex_cmp a b < 0 \<longleftrightarrow> 0 < lex_cmp b a" for a b :: "'a::linorder list"
    using lex_cmp_swap [of a b] by simp
  show "lex_cmp a b \<le> 0 \<Longrightarrow> lex_cmp b c \<le> 0 \<Longrightarrow> lex_cmp a c \<le> 0" for a b c :: "'a::linorder list"
    by (rule lex_cmp_trans)
qed

lemma key_cmp_on: "key_cmp f \<Longrightarrow> key_cmp (\<lambda>a b. f (h a) (h b))"
  unfolding key_cmp_def by blast

lemma key_cmp_then:
  assumes "key_cmp f" "key_cmp g"
  shows "key_cmp (\<lambda>a b. if f a b \<noteq> 0 then f a b else g a b)"
proof
  note f = key_cmp.cmp_swap [OF assms(1)] key_cmp.cmp_zero_sym [OF assms(1)]
  show "(if f a b \<noteq> 0 then f a b else g a b) < 0 \<longleftrightarrow> 0 < (if f b a \<noteq> 0 then f b a else g b a)" for a b
    using f [of a b] f [of b a] key_cmp.cmp_swap [OF assms(2), of a b] by auto
  show "(if f a b \<noteq> 0 then f a b else g a b) \<le> 0 \<Longrightarrow> (if f b c \<noteq> 0 then f b c else g b c) \<le> 0 \<Longrightarrow>
      (if f a c \<noteq> 0 then f a c else g a c) \<le> 0" for a b c
    using key_cmp.cmp_trans [OF assms(1), of a b c] key_cmp.cmp_trans [OF assms(2), of a b c]
      key_cmp.cmp_less_trans1 [OF assms(1), of a b c] key_cmp.cmp_less_trans2 [OF assms(1), of a b c]
    by (auto split: if_splits)
qed

section \<open>Properties\<close>

lemma wrap_s32_eq_0: "wrap_s32 x = 0 \<longleftrightarrow> x mod 2 ^ 32 = 0"
proof -
  have "wrap_s32 x = 0 \<longleftrightarrow> (x + 2 ^ 31) mod 2 ^ 32 = 2 ^ 31 mod 2 ^ 32"
    by (simp add: wrap_s32_def)
  also have "\<dots> \<longleftrightarrow> x mod 2 ^ 32 = 0"
    by (simp only: mod_eq_dvd_iff add_diff_cancel_right' mod_0_imp_dvd dvd_eq_mod_eq_0)
  finally show ?thesis .
qed

lemma wrap_s32_high:
  assumes "2 ^ 31 \<le> x" "x < 2 ^ 31 + 2 ^ 32"
  shows "wrap_s32 x = x - 2 ^ 32"
proof -
  have "(x + 2 ^ 31) mod 2 ^ 32 = (x + 2 ^ 31 - 2 ^ 32) mod 2 ^ 32" by (simp only: minus_mod_self2)
  also have "\<dots> = x + 2 ^ 31 - 2 ^ 32" using assms by (intro mod_pos_pos_trivial) auto
  finally show ?thesis by (simp add: wrap_s32_def)
qed

lemma wrap_s32_low:
  assumes "- (2 ^ 31) - 2 ^ 32 \<le> x" "x < - (2 ^ 31)"
  shows "wrap_s32 x = x + 2 ^ 32"
proof -
  have "(x + 2 ^ 31) mod 2 ^ 32 = (x + 2 ^ 31 + 2 ^ 32) mod 2 ^ 32" by (simp only: mod_add_self2)
  also have "\<dots> = x + 2 ^ 31 + 2 ^ 32" using assms by (intro mod_pos_pos_trivial) auto
  finally show ?thesis by (simp add: wrap_s32_def)
qed



text \<open>
  \<open>ds_void_cmp\<close> takes two pointers for the same key exactly when the low 32 bits of their
  addresses agree, whatever the high ones are.
\<close>

lemma ds_void_cmp_low_bits:
  "ds_void_cmp a b = 0 \<longleftrightarrow> (ucast a :: u32) = ucast b"
proof -
  have "ds_void_cmp a b = 0 \<longleftrightarrow> sint (a - b) mod 2 ^ 32 = 0"
    by (simp only: ds_void_cmp_def wrap_s32_eq_0)
  also have "\<dots> \<longleftrightarrow> take_bit 32 (sint (a - b)) = 0" by (simp add: take_bit_eq_mod)
  also have "\<dots> \<longleftrightarrow> (ucast (a - b) :: u32) = 0"
    by transfer (simp add: take_bit_signed_take_bit)
  also have "(ucast (a - b) :: u32) = ucast a - ucast b"
    by transfer (simp add: take_bit_diff flip: take_bit_diff [of 32 "take_bit 64 _"])
  finally show ?thesis by simp
qed

end
