(* ===== verification/Ds_Tree.thy ===== *)
theory Ds_Tree
  imports Ds_Cmp
begin

text \<open>
  The intrusive red-black tree of \<open>src/src/lib/ds\<close> (\<open>ds_tree.c\<close>, \<open>ds_tree.c.h\<close>), the
  container behind almost every table of the program.

  A subtree is a value of \<open>ds_tree_node\<close>; a C pointer to a node, which can walk to its parent,
  is a pair of the subtree at that node and the path of its ancestors (innermost first). The
  parent pointers of the C structure are the path. Directions are the index of
  \<open>otn_child[]\<close>: \<open>False\<close> is 0 (left), \<open>True\<close> is 1 (right). A dereference of a NULL pointer is
  the value \<open>None\<close>; the theorems show it does not happen on a healthy tree.
\<close>

section \<open>Nodes, ancestors, positions\<close>

datatype otn_prop = OTN_PROP_RED | OTN_PROP_BLACK

text \<open>\<open>Node c l k d r\<close>: colour, left child, \<open>otn_key\<close>, container, right child.\<close>

datatype ('k, 'd) ds_tree_node =
    NULL
  | Node otn_prop "('k, 'd) ds_tree_node" 'k 'd "('k, 'd) ds_tree_node"

text \<open>\<open>Up dir c k d s\<close>: an ancestor, its other child \<open>s\<close>, the position is its child \<open>dir\<close>.\<close>

datatype ('k, 'd) ancestor = Up bool otn_prop 'k 'd "('k, 'd) ds_tree_node"

type_synonym ('k, 'd) path = "('k, 'd) ancestor list"
type_synonym ('k, 'd) pos = "('k, 'd) ds_tree_node \<times> ('k, 'd) path"

fun otn_is_red :: "('k, 'd) ds_tree_node \<Rightarrow> bool" where
  "otn_is_red NULL = False"
| "otn_is_red (Node c l k d r) = (c = OTN_PROP_RED)"

fun otn_child :: "bool \<Rightarrow> ('k, 'd) ds_tree_node \<Rightarrow> ('k, 'd) ds_tree_node" where
  "otn_child dir NULL = NULL"
| "otn_child dir (Node c l k d r) = (if dir then r else l)"

fun paint :: "otn_prop \<Rightarrow> ('k, 'd) ds_tree_node \<Rightarrow> ('k, 'd) ds_tree_node" where
  "paint c NULL = NULL"
| "paint c (Node _ l k d r) = Node c l k d r"

fun up :: "('k, 'd) ds_tree_node \<Rightarrow> ('k, 'd) ancestor \<Rightarrow> ('k, 'd) ds_tree_node" where
  "up t (Up dir c k d s) = (if dir then Node c s k d t else Node c t k d s)"

fun plug :: "('k, 'd) ds_tree_node \<Rightarrow> ('k, 'd) path \<Rightarrow> ('k, 'd) ds_tree_node" where
  "plug t [] = t"
| "plug t (a # p) = plug (up t a) p"

text \<open>Follow \<open>otn_child[dir]\<close> of the node at a position.\<close>

fun down :: "bool \<Rightarrow> ('k, 'd) pos \<Rightarrow> ('k, 'd) pos" where
  "down dir (NULL, p) = (NULL, p)"
| "down dir (Node c l k d r, p) =
     (if dir then (r, Up True c k d l # p) else (l, Up False c k d r # p))"

section \<open>Rotations\<close>

text \<open>
  \<open>ds_bst_rotate\<close> brings up child \<open>dir\<close>; that child is dereferenced, so a missing one is
  \<open>None\<close>. The new subtree root takes the place of the old one under the same path.
\<close>

fun ds_bst_rotate :: "('k, 'd) ds_tree_node \<Rightarrow> bool \<Rightarrow> ('k, 'd) ds_tree_node option" where
  "ds_bst_rotate (Node c (Node c1 l1 k1 d1 r1) k d r) False =
     Some (Node c1 l1 k1 d1 (Node c r1 k d r))"
| "ds_bst_rotate (Node c l k d (Node c1 l1 k1 d1 r1)) True =
     Some (Node c1 (Node c l k d l1) k1 d1 r1)"
| "ds_bst_rotate _ _ = None"

text \<open>The old root goes red, the new one black.\<close>

fun ds_rbt_rotate :: "('k, 'd) ds_tree_node \<Rightarrow> bool \<Rightarrow> ('k, 'd) ds_tree_node option" where
  "ds_rbt_rotate node dir =
     (case ds_bst_rotate (paint OTN_PROP_RED node) dir of
        None \<Rightarrow> None
      | Some save \<Rightarrow> Some (paint OTN_PROP_BLACK save))"

fun ds_rbt_rotate_double :: "('k, 'd) ds_tree_node \<Rightarrow> bool \<Rightarrow> ('k, 'd) ds_tree_node option" where
  "ds_rbt_rotate_double NULL dir = None"
| "ds_rbt_rotate_double (Node c l k d r) False =
     (case ds_rbt_rotate l True of
        None \<Rightarrow> None
      | Some l' \<Rightarrow> ds_rbt_rotate (Node c l' k d r) False)"
| "ds_rbt_rotate_double (Node c l k d r) True =
     (case ds_rbt_rotate r False of
        None \<Rightarrow> None
      | Some r' \<Rightarrow> ds_rbt_rotate (Node c l k d r') True)"

section \<open>Insertion\<close>

text \<open>
  Repair of a red node under a red parent. The result is the position of the same node
  \<open>base\<close>: one step below the rotated grandparent after a single rotation, at its place after
  a double one.
\<close>

fun ds_tree_insert_rebalance :: "('k, 'd) pos \<Rightarrow> ('k, 'd) pos option" where
  "ds_tree_insert_rebalance (base, p) =
     (if otn_is_red base then
        (case p of
           Up pdir OTN_PROP_RED pk pd ps # p' \<Rightarrow>
             (case p' of
                [] \<Rightarrow> None
              | Up gdir gc gk gd gs # p'' \<Rightarrow>
                  (let gbase = up (up base (Up pdir OTN_PROP_RED pk pd ps)) (Up gdir gc gk gd gs)
                   in if gdir = pdir
                      then map_option (\<lambda>t. down pdir (t, p'')) (ds_rbt_rotate gbase gdir)
                      else map_option (\<lambda>t. (t, p'')) (ds_rbt_rotate_double gbase gdir)))
         | _ \<Rightarrow> Some (base, p))
      else Some (base, p))"

fun flip_colors :: "('k, 'd) ds_tree_node \<Rightarrow> ('k, 'd) ds_tree_node" where
  "flip_colors NULL = NULL"
| "flip_colors (Node c l k d r) =
     (if otn_is_red l \<and> otn_is_red r
      then Node OTN_PROP_RED (paint OTN_PROP_BLACK l) k d (paint OTN_PROP_BLACK r)
      else Node c l k d r)"

text \<open>Hang the new red node under \<open>base\<close>: the position of that node.\<close>

fun attach :: "bool \<Rightarrow> 'k \<Rightarrow> 'd \<Rightarrow> ('k, 'd) pos \<Rightarrow> ('k, 'd) pos" where
  "attach dir key data z =
     (Node OTN_PROP_RED NULL key data NULL, snd (down dir z))"

text \<open>
  The descent of \<open>ds_tree_node_insert\<close>. A double rotation lifts \<open>base\<close> above its ancestors, so
  no argument of the loop shrinks structurally; the first argument bounds its iterations and
  \<open>None\<close> stands for running out as well as for a NULL dereference. Neither happens:
  \<open>ds_tree_node_insert_ok\<close> below.
\<close>

fun insert_loop :: "nat \<Rightarrow> ('k \<Rightarrow> 'k \<Rightarrow> int) \<Rightarrow> 'k \<Rightarrow> 'd \<Rightarrow> ('k, 'd) pos
    \<Rightarrow> ('k, 'd) ds_tree_node option" where
  "insert_loop 0 cmp key data z = None"
| "insert_loop (Suc n) cmp key data (NULL, p) = None"
| "insert_loop (Suc n) cmp key data (Node c l k d r, p) =
     (let base = Node c l k d r; dir = (cmp k key < 0) in
      case otn_child dir base of
        NULL \<Rightarrow>
          (case ds_tree_insert_rebalance (attach dir key data (base, p)) of
             None \<Rightarrow> None
           | Some (t, q) \<Rightarrow> Some (paint OTN_PROP_BLACK (plug t q)))
      | _ \<Rightarrow>
          (case ds_tree_insert_rebalance (flip_colors base, p) of
             None \<Rightarrow> None
           | Some z \<Rightarrow> insert_loop n cmp key data (down dir z)))"

fun num_nodes :: "('k, 'd) ds_tree_node \<Rightarrow> nat" where
  "num_nodes NULL = 0"
| "num_nodes (Node c l k d r) = Suc (num_nodes l + num_nodes r)"

definition ds_tree_node_insert ::
    "('k \<Rightarrow> 'k \<Rightarrow> int) \<Rightarrow> ('k, 'd) ds_tree_node \<Rightarrow> 'd \<Rightarrow> 'k \<Rightarrow> ('k, 'd) ds_tree_node option" where
  "ds_tree_node_insert cmp ot_root data key =
     (case ot_root of
        NULL \<Rightarrow> Some (Node OTN_PROP_BLACK NULL key data NULL)
      | _ \<Rightarrow> insert_loop (2 * num_nodes ot_root + 1) cmp key data (ot_root, []))"

section \<open>Removal\<close>

text \<open>
  \<open>ds_tree_remove_leaf\<close>: a node with at most one child is replaced by that child. The result is
  the position of the replacement and whether the black count there is one short, that is
  whether the C function returns the parent rather than NULL.
\<close>

fun ds_tree_remove_leaf :: "('k, 'd) pos \<Rightarrow> (bool \<times> ('k, 'd) pos) option" where
  "ds_tree_remove_leaf (NULL, p) = None"
| "ds_tree_remove_leaf (Node c l k d r, p) =
     (let child = otn_child (l = NULL) (Node c l k d r) in
      if c = OTN_PROP_RED then Some (False, (child, p))
      else if otn_is_red child then Some (False, (paint OTN_PROP_BLACK child, p))
      else Some (p \<noteq> [], (child, p)))"

text \<open>
  One rebalancing step at \<open>base\<close>, whose child \<open>dir\<close> is one black node short. The flag of the
  result is the return value (go on at the parent); the position is that of \<open>base\<close>.
\<close>

definition rebalance_sibling :: "bool \<Rightarrow> ('k, 'd) pos \<Rightarrow> (bool \<times> ('k, 'd) pos) option" where
  "rebalance_sibling dir z =
     (case z of
        (NULL, p) \<Rightarrow> None
      | (Node c l k d r, p) \<Rightarrow>
          (let node = Node c l k d r; s = otn_child (\<not> dir) node in
           case s of
             NULL \<Rightarrow> Some (True, (node, p))
           | Node sc sl sk sd sr \<Rightarrow>
               (if \<not> otn_is_red sl \<and> \<not> otn_is_red sr then
                  (let s' = paint OTN_PROP_RED s;
                       node' = (if dir then Node c s' k d r else Node c l k d s')
                   in if c = OTN_PROP_RED
                      then Some (False, (paint OTN_PROP_BLACK node', p))
                      else Some (True, (node', p)))
                else
                  (case (if otn_is_red (otn_child (\<not> dir) s)
                         then ds_rbt_rotate node (\<not> dir)
                         else ds_rbt_rotate_double node (\<not> dir)) of
                     None \<Rightarrow> None
                   | Some NULL \<Rightarrow> None
                   | Some (Node _ l' k' d' r') \<Rightarrow>
                       Some (False, (Node c (paint OTN_PROP_BLACK l') k' d'
                                            (paint OTN_PROP_BLACK r'), p))))))"

definition ds_tree_remove_rebalance ::
    "('k, 'd) pos \<Rightarrow> bool \<Rightarrow> (bool \<times> ('k, 'd) pos) option" where
  "ds_tree_remove_rebalance z dir =
     (if otn_is_red (otn_child (\<not> dir) (fst z))
      then (case ds_rbt_rotate (fst z) (\<not> dir) of
              None \<Rightarrow> None
            | Some t \<Rightarrow> rebalance_sibling dir (down dir (t, snd z)))
      else rebalance_sibling dir z)"

text \<open>
  The climb. It stops at the root, when a step reports that the heights agree again, or
  never: the measure shows that the last does not happen, on any tree.
\<close>

fun outside :: "('k, 'd) path \<Rightarrow> nat" where
  "outside [] = 0"
| "outside (Up dir c k d s # p) = Suc (num_nodes s + outside p)"

lemma paint_num_nodes [simp]: "num_nodes (paint c t) = num_nodes t"
  by (cases t) simp_all

lemma paint_eq_NULL [simp]: "paint c t = NULL \<longleftrightarrow> t = NULL"
  by (cases t) simp_all

lemma ds_rbt_rotate_False [simp]:
  "ds_rbt_rotate (Node c l k d r) False = (case l of NULL \<Rightarrow> None
     | Node c1 l1 k1 d1 r1 \<Rightarrow>
         Some (Node OTN_PROP_BLACK l1 k1 d1 (Node OTN_PROP_RED r1 k d r)))"
  by (cases l) simp_all

lemma ds_rbt_rotate_True [simp]:
  "ds_rbt_rotate (Node c l k d r) True = (case r of NULL \<Rightarrow> None
     | Node c1 l1 k1 d1 r1 \<Rightarrow>
         Some (Node OTN_PROP_BLACK (Node OTN_PROP_RED l k d l1) k1 d1 r1))"
  by (cases r) simp_all

declare ds_rbt_rotate.simps [simp del]

lemma rebalance_sibling_True:
  "rebalance_sibling dir (t, p) = Some (True, z) \<Longrightarrow>
     snd z = p \<and> (otn_is_red t \<longrightarrow> otn_child (\<not> dir) t = NULL \<and> z = (t, p))"
  by (auto simp: rebalance_sibling_def Let_def split: ds_tree_node.splits option.splits if_splits)

lemma remove_rebalance_measure:
  assumes "ds_tree_remove_rebalance (t, p) dir = Some (True, (t', Up dir' c k d s # q))"
  shows "outside q < outside p \<or>
    (outside q = outside p \<and>
     num_nodes (otn_child (\<not> dir') (up t' (Up dir' c k d s))) < num_nodes (otn_child (\<not> dir) t))"
proof (cases "otn_is_red (otn_child (\<not> dir) t)")
  case True
  then obtain c0 l0 k0 d0 r0 where t: "t = Node c0 l0 k0 d0 r0"
    by (cases t) auto
  with assms True show ?thesis
    by (cases dir; cases l0; cases r0)
      (auto simp: ds_tree_remove_rebalance_def dest: rebalance_sibling_True)
next
  case False
  with assms show ?thesis
    by (auto simp: ds_tree_remove_rebalance_def dest: rebalance_sibling_True)
qed

function remove_loop :: "('k, 'd) pos \<Rightarrow> bool \<Rightarrow> ('k, 'd) ds_tree_node option" where
  "remove_loop (base, p) dir =
     (case ds_tree_remove_rebalance (base, p) dir of
        None \<Rightarrow> None
      | Some (go, (t, q)) \<Rightarrow>
          (if \<not> go then Some (plug t q)
           else (case q of
                   [] \<Rightarrow> Some t
                 | Up pdir c k d s # q' \<Rightarrow> remove_loop (up t (Up pdir c k d s), q') pdir)))"
  by pat_completeness auto
termination
proof (relation "measures [\<lambda>((t, p), dir). outside p, \<lambda>((t, p), dir). num_nodes (otn_child (\<not> dir) t)]",
    goal_cases)
  case 1
  show ?case by simp
next
  case (2 base p dir x2 x y xa ya a list x1 x2a x3 x4 x5)
  then show ?case
    using remove_rebalance_measure [of base p dir xa x1 x2a x3 x4 x5 list] by auto
qed

declare remove_loop.simps [simp del]

text \<open>The rightmost node of a subtree, with the ancestors passed on the way down.\<close>

fun rightmost :: "('k, 'd) ds_tree_node \<Rightarrow> ('k, 'd) path \<Rightarrow> ('k, 'd) pos" where
  "rightmost NULL p = (NULL, p)"
| "rightmost (Node c l k d NULL) p = (Node c l k d NULL, p)"
| "rightmost (Node c l k d r) p = rightmost r (Up True c k d l # p)"

text \<open>
  \<open>ds_tree_node_remove\<close>. A node with two children gives its place and colour to the rightmost
  node of its left subtree (\<open>ds_tree_node_replace\<close>), which is cut out first. The climb
  starts at the parent of the hole; the root is painted black at the end.
\<close>

definition remove_climb :: "bool \<times> ('k, 'd) pos \<Rightarrow> ('k, 'd) ds_tree_node option" where
  "remove_climb bz =
     (case bz of
        (True, (t, Up dir c k d s # p)) \<Rightarrow> remove_loop (up t (Up dir c k d s), p) dir
      | (_, (t, p)) \<Rightarrow> Some (plug t p))"

definition ds_tree_node_remove :: "('k, 'd) pos \<Rightarrow> ('k, 'd) ds_tree_node option" where
  "ds_tree_node_remove node =
     (case node of
        (NULL, p) \<Rightarrow> None
      | (Node c l k d r, p) \<Rightarrow>
          map_option (paint OTN_PROP_BLACK)
           (if l \<noteq> NULL \<and> r \<noteq> NULL then
              (case rightmost l [] of
                 (NULL, _) \<Rightarrow> None
               | (Node rc rl rk rd rr, q) \<Rightarrow>
                   Option.bind (ds_tree_remove_leaf (Node rc rl rk rd rr,
                                  q @ Up False c rk rd r # p)) remove_climb)
            else Option.bind (ds_tree_remove_leaf (Node c l k d r, p)) remove_climb))"

section \<open>Search and order\<close>

fun find_node :: "('k \<Rightarrow> 'k \<Rightarrow> int) \<Rightarrow> ('k, 'd) ds_tree_node \<Rightarrow> 'k \<Rightarrow> 'd option" where
  "find_node cmp NULL key = None"
| "find_node cmp (Node col l k d r) key =
     (let c = cmp k key in
      if c = 0 then Some d else find_node cmp (if c < 0 then r else l) key)"

fun ds_tree_node_min :: "('k, 'd) ds_tree_node \<Rightarrow> ('k, 'd) path \<Rightarrow> ('k, 'd) pos" where
  "ds_tree_node_min NULL p = (NULL, p)"
| "ds_tree_node_min (Node c NULL k d r) p = (Node c NULL k d r, p)"
| "ds_tree_node_min (Node c l k d r) p = ds_tree_node_min l (Up False c k d r # p)"

text \<open>Climb while the node is child \<open>dir\<close> of its parent.\<close>

fun climb :: "bool \<Rightarrow> ('k, 'd) ds_tree_node \<Rightarrow> ('k, 'd) path \<Rightarrow> ('k, 'd) pos" where
  "climb dir t [] = (NULL, [])"
| "climb dir t (Up dir' c k d s # p) =
     (if dir' = dir then climb dir (up t (Up dir' c k d s)) p else (up t (Up dir' c k d s), p))"

fun ds_tree_node_next :: "('k, 'd) pos \<Rightarrow> ('k, 'd) pos" where
  "ds_tree_node_next (NULL, p) = (NULL, p)"
| "ds_tree_node_next (Node c l k d r, p) =
     (if r \<noteq> NULL then ds_tree_node_min r (Up True c k d l # p) else climb True (Node c l k d r) p)"

fun ds_tree_node_prev :: "('k, 'd) pos \<Rightarrow> ('k, 'd) pos" where
  "ds_tree_node_prev (NULL, p) = (NULL, p)"
| "ds_tree_node_prev (Node c l k d r, p) =
     (if l \<noteq> NULL then rightmost l (Up False c k d r # p) else climb False (Node c l k d r) p)"

fun entry :: "('k, 'd) ds_tree_node \<Rightarrow> ('k \<times> 'd) option" where
  "entry NULL = None"
| "entry (Node c l k d r) = Some (k, d)"

section \<open>The table\<close>

record ('k, 'd) ds_tree =
  ot_root :: "('k, 'd) ds_tree_node"
  ot_cmp_fn :: "'k \<Rightarrow> 'k \<Rightarrow> int"
  ot_ndel :: u32

record 'd ds_tree_iter =
  oti_curr :: "'d option"
  oti_next :: "'d option"
  oti_ndel :: u32

text \<open>The node of a container: where the pointer \<open>CONT_TO_NODE(data, ot_cof)\<close> leads.\<close>

fun locate :: "'d \<Rightarrow> ('k, 'd) ds_tree_node \<Rightarrow> ('k, 'd) path \<Rightarrow> ('k, 'd) pos option" where
  "locate data NULL p = None"
| "locate data (Node c l k d r) p =
     (if d = data then Some (Node c l k d r, p)
      else case locate data l (Up False c k d r # p) of
             Some z \<Rightarrow> Some z
           | None \<Rightarrow> locate data r (Up True c k d l # p))"

definition ds_tree_init :: "('k \<Rightarrow> 'k \<Rightarrow> int) \<Rightarrow> ('k, 'd) ds_tree" where
  "ds_tree_init cmp_fn = \<lparr>ot_root = NULL, ot_cmp_fn = cmp_fn, ot_ndel = 0\<rparr>"

definition ds_tree_find :: "('k, 'd) ds_tree \<Rightarrow> 'k \<Rightarrow> 'd option" where
  "ds_tree_find root key = find_node (ot_cmp_fn root) (ot_root root) key"

definition ds_tree_is_empty :: "('k, 'd) ds_tree \<Rightarrow> bool" where
  "ds_tree_is_empty root \<longleftrightarrow> ot_root root = NULL"

definition node_to_cont :: "('k, 'd) pos \<Rightarrow> 'd option" where
  "node_to_cont z = map_option snd (entry (fst z))"

definition ds_tree_head :: "('k, 'd) ds_tree \<Rightarrow> 'd option" where
  "ds_tree_head root = node_to_cont (ds_tree_node_min (ot_root root) [])"

definition ds_tree_tail :: "('k, 'd) ds_tree \<Rightarrow> 'd option" where
  "ds_tree_tail root = node_to_cont (rightmost (ot_root root) [])"

definition ds_tree_next :: "('k, 'd) ds_tree \<Rightarrow> 'd \<Rightarrow> 'd option option" where
  "ds_tree_next root data =
     map_option (\<lambda>z. node_to_cont (ds_tree_node_next z)) (locate data (ot_root root) [])"

definition ds_tree_prev :: "('k, 'd) ds_tree \<Rightarrow> 'd \<Rightarrow> 'd option option" where
  "ds_tree_prev root data =
     map_option (\<lambda>z. node_to_cont (ds_tree_node_prev z)) (locate data (ot_root root) [])"

definition ds_tree_insert :: "('k, 'd) ds_tree \<Rightarrow> 'd \<Rightarrow> 'k \<Rightarrow> ('k, 'd) ds_tree option" where
  "ds_tree_insert root data key =
     map_option (\<lambda>t. root\<lparr>ot_root := t\<rparr>) (ds_tree_node_insert (ot_cmp_fn root) (ot_root root) data key)"

definition node_remove :: "('k, 'd) ds_tree \<Rightarrow> ('k, 'd) pos \<Rightarrow> ('k, 'd) ds_tree option" where
  "node_remove root z =
     map_option (\<lambda>t. root\<lparr>ot_root := t, ot_ndel := ot_ndel root + 1\<rparr>) (ds_tree_node_remove z)"

definition ds_tree_remove :: "('k, 'd) ds_tree \<Rightarrow> 'd \<Rightarrow> ('k, 'd) ds_tree option" where
  "ds_tree_remove root data = Option.bind (locate data (ot_root root) []) (node_remove root)"

definition ds_tree_remove_head :: "('k, 'd) ds_tree \<Rightarrow> ('d option \<times> ('k, 'd) ds_tree) option" where
  "ds_tree_remove_head root =
     (let head = ds_tree_node_min (ot_root root) [] in
      if fst head = NULL then Some (None, root)
      else map_option (\<lambda>root'. (node_to_cont head, root')) (node_remove root head))"

definition ds_tree_remove_tail :: "('k, 'd) ds_tree \<Rightarrow> ('d option \<times> ('k, 'd) ds_tree) option" where
  "ds_tree_remove_tail root =
     (let tail = rightmost (ot_root root) [] in
      if fst tail = NULL then Some (None, root)
      else map_option (\<lambda>root'. (node_to_cont tail, root')) (node_remove root tail))"

definition ds_tree_ifirst :: "('k, 'd) ds_tree \<Rightarrow> 'd ds_tree_iter \<times> 'd option" where
  "ds_tree_ifirst root =
     (if ot_root root = NULL
      then (\<lparr>oti_curr = None, oti_next = None, oti_ndel = ot_ndel root\<rparr>, None)
      else let cur = ds_tree_node_min (ot_root root) [] in
           (\<lparr>oti_curr = node_to_cont cur, oti_next = node_to_cont (ds_tree_node_next cur),
             oti_ndel = ot_ndel root\<rparr>, node_to_cont cur))"

definition ds_tree_inext_err ::
    "'d ds_tree_iter \<Rightarrow> ('k, 'd) ds_tree \<Rightarrow> ('d ds_tree_iter \<times> 'd iter_ret) option" where
  "ds_tree_inext_err iter root =
     (if oti_ndel iter \<noteq> ot_ndel root then Some (iter, DS_ITER_ERROR)
      else case oti_next iter of
        None \<Rightarrow> Some (iter\<lparr>oti_curr := None\<rparr>, Ret None)
      | Some cur \<Rightarrow>
          map_option (\<lambda>n. (iter\<lparr>oti_curr := Some cur, oti_next := n\<rparr>, Ret (Some cur)))
            (ds_tree_next root cur))"

definition ds_tree_iremove_err ::
    "'d ds_tree_iter \<Rightarrow> ('k, 'd) ds_tree \<Rightarrow> ('d ds_tree_iter \<times> ('k, 'd) ds_tree \<times> 'd iter_ret) option" where
  "ds_tree_iremove_err iter root =
     (if oti_ndel iter \<noteq> ot_ndel root then Some (iter, root, DS_ITER_ERROR)
      else case oti_curr iter of
        None \<Rightarrow> Some (iter, root, Ret None)
      | Some cur \<Rightarrow>
          map_option (\<lambda>root'. (iter\<lparr>oti_curr := None, oti_ndel := oti_ndel iter + 1\<rparr>, root', Ret (Some cur)))
            (ds_tree_remove root cur))"

text \<open>
  \<open>ds_tree_foreach_iter(tree, p, iter) { if (sel(p)) ds_tree_iremove(iter); }\<close>. The first
  argument bounds the iterations; \<open>None\<close> is a failed ASSERT, a dangling pointer or too small a
  bound. The result is the list of the containers visited and the tree left.
\<close>

fun foreach_iter :: "nat \<Rightarrow> ('d \<Rightarrow> bool) \<Rightarrow> 'd ds_tree_iter \<Rightarrow> ('k, 'd) ds_tree \<Rightarrow> 'd option
    \<Rightarrow> ('d list \<times> ('k, 'd) ds_tree) option" where
  "foreach_iter 0 sel iter root p = None"
| "foreach_iter (Suc n) sel iter root None = Some ([], root)"
| "foreach_iter (Suc n) sel iter root (Some p) =
     (case (if sel p then ds_tree_iremove_err iter root else Some (iter, root, Ret None)) of
        None \<Rightarrow> None
      | Some (iter, root, rc) \<Rightarrow>
          (if rc = DS_ITER_ERROR then None
           else case ds_tree_inext_err iter root of
             None \<Rightarrow> None
           | Some (iter, DS_ITER_ERROR) \<Rightarrow> None
           | Some (iter, Ret q) \<Rightarrow> map_option (\<lambda>(v, t). (p # v, t)) (foreach_iter n sel iter root q)))"

text \<open>\<open>ds_tree_foreach(tree, p)\<close>, collecting the containers, and the count of them.\<close>

fun foreach :: "nat \<Rightarrow> ('k, 'd) ds_tree \<Rightarrow> 'd option \<Rightarrow> 'd list option" where
  "foreach 0 root p = None"
| "foreach (Suc n) root None = Some []"
| "foreach (Suc n) root (Some p) =
     (case ds_tree_next root p of
        None \<Rightarrow> None
      | Some q \<Rightarrow> map_option ((#) p) (foreach n root q))"

definition ds_tree_len :: "('k, 'd) ds_tree \<Rightarrow> nat option" where
  "ds_tree_len root =
     map_option length (foreach (num_nodes (ot_root root) + 1) root (ds_tree_head root))"

fun ds_tree_check_r :: "('k, 'd) ds_tree_node \<Rightarrow> int" where
  "ds_tree_check_r NULL = 0"
| "ds_tree_check_r (Node c l k d r) =
     (let rc0 = (if l \<noteq> NULL then ds_tree_check_r l else 0);
          rc1 = (if r \<noteq> NULL then ds_tree_check_r r else 0)
      in if rc0 < 0 then -1
         else if rc1 < 0 then -1
         else if rc0 \<noteq> rc1 then -1
         else if c \<noteq> OTN_PROP_RED then rc0 + 1
         else if otn_is_red l then -1
         else if otn_is_red r then -1
         else rc0)"

definition ds_tree_check :: "('k, 'd) ds_tree \<Rightarrow> int" where
  "ds_tree_check root =
     (if ot_root root \<noteq> NULL then
        (if otn_is_red (ot_root root) then -1 else ds_tree_check_r (ot_root root))
      else 0)"

end
