(* ===== verification/Ds_Tree_Insert.thy ===== *)
theory Ds_Tree_Insert
  imports Ds_Tree
begin

text \<open>
  Insertion into the red-black tree. \<open>inorder\<close> is the abstract content of a tree; \<open>invc\<close> (no red
  node has a red child) and \<open>invh\<close> (equal black heights) are its health, with their versions
  \<open>pinvc\<close> and \<open>pinvh\<close> for a path of ancestors. The top-down descent keeps \<open>shape_ok\<close> and
  \<open>order_ok\<close> and decreases \<open>descent_measure\<close>, so the loop ends within its bound, never
  dereferences a missing grandparent, and puts the new entry at its place in the order.
\<close>

section \<open>Content and health\<close>

fun inorder :: "('k, 'd) ds_tree_node \<Rightarrow> ('k \<times> 'd) list" where
  "inorder NULL = []"
| "inorder (Node c l k d r) = inorder l @ (k, d) # inorder r"

fun lefts :: "('k, 'd) path \<Rightarrow> ('k \<times> 'd) list" where
  "lefts [] = []"
| "lefts (Up dir c k d s # p) = (if dir then lefts p @ inorder s @ [(k, d)] else lefts p)"

fun rights :: "('k, 'd) path \<Rightarrow> ('k \<times> 'd) list" where
  "rights [] = []"
| "rights (Up dir c k d s # p) = (if dir then rights p else (k, d) # inorder s @ rights p)"

lemma inorder_plug: "inorder (plug t p) = lefts p @ inorder t @ rights p"
proof (induction p arbitrary: t)
  case (Cons a p)
  then show ?case by (cases a) simp
qed simp

lemma inorder_paint [simp]: "inorder (paint c t) = inorder t"
  by (cases t) simp_all

lemma inorder_flip [simp]: "inorder (flip_colors t) = inorder t"
  by (cases t) simp_all

lemma length_inorder [simp]: "length (inorder t) = num_nodes t"
  by (induction t) simp_all

lemma inorder_rotate: "ds_rbt_rotate t dir = Some t' \<Longrightarrow> inorder t' = inorder t"
  by (cases t; cases dir) (auto simp: ds_rbt_rotate.simps [of NULL] split: ds_tree_node.splits)

lemma inorder_rotate_double: "ds_rbt_rotate_double t dir = Some t' \<Longrightarrow> inorder t' = inorder t"
  by (cases t; cases dir)
    (simp_all del: ds_rbt_rotate_True ds_rbt_rotate_False split: option.splits, (fastforce dest: inorder_rotate)+)

lemma down_sides: "t \<noteq> NULL \<Longrightarrow> down dir (t, p) = (t', p') \<Longrightarrow>
   lefts p' @ inorder t' @ rights p' = lefts p @ inorder t @ rights p"
  by (cases t) (auto split: if_splits)

text \<open>Red-black health.\<close>

fun bheight :: "('k, 'd) ds_tree_node \<Rightarrow> nat" where
  "bheight NULL = 0"
| "bheight (Node c l k d r) = (if c = OTN_PROP_BLACK then Suc (bheight l) else bheight l)"

fun invc :: "('k, 'd) ds_tree_node \<Rightarrow> bool" where
  "invc NULL = True"
| "invc (Node c l k d r) =
     ((c = OTN_PROP_RED \<longrightarrow> \<not> otn_is_red l \<and> \<not> otn_is_red r) \<and> invc l \<and> invc r)"

fun invh :: "('k, 'd) ds_tree_node \<Rightarrow> bool" where
  "invh NULL = True"
| "invh (Node c l k d r) = (bheight l = bheight r \<and> invh l \<and> invh r)"

fun pinvc :: "bool \<Rightarrow> ('k, 'd) path \<Rightarrow> bool" where
  "pinvc red [] = True"
| "pinvc red (Up dir c k d s # p) =
     ((c = OTN_PROP_RED \<longrightarrow> \<not> red \<and> \<not> otn_is_red s) \<and> invc s \<and> pinvc (c = OTN_PROP_RED) p)"

fun pinvh :: "nat \<Rightarrow> ('k, 'd) path \<Rightarrow> bool" where
  "pinvh h [] = True"
| "pinvh h (Up dir c k d s # p) =
     (bheight s = h \<and> invh s \<and> pinvh (if c = OTN_PROP_BLACK then Suc h else h) p)"

lemma invc_plug: "invc (plug t p) \<longleftrightarrow> invc t \<and> pinvc (otn_is_red t) p"
proof (induction p arbitrary: t)
  case (Cons a p)
  then show ?case by (cases a) auto
qed simp

lemma invh_plug: "invh (plug t p) \<longleftrightarrow> invh t \<and> pinvh (bheight t) p"
proof (induction p arbitrary: t)
  case (Cons a p)
  obtain dir c k d s where "a = Up dir c k d s" by (cases a)
  then show ?case using Cons by (cases "bheight s = bheight t") (simp_all, blast)
qed simp

lemma red_simps [simp]:
  "otn_is_red (paint c t) \<longleftrightarrow> t \<noteq> NULL \<and> c = OTN_PROP_RED"
  "c \<noteq> OTN_PROP_RED \<longleftrightarrow> c = OTN_PROP_BLACK"
  "c \<noteq> OTN_PROP_BLACK \<longleftrightarrow> c = OTN_PROP_RED"
  by (cases t; cases c; simp)+

lemma invc_paint_black [simp]: "invc t \<Longrightarrow> invc (paint OTN_PROP_BLACK t)"
  by (cases t) auto

lemma invh_paint [simp]: "invh (paint c t) = invh t"
  by (cases t) auto

lemma bheight_paint_black [simp]: "otn_is_red t \<Longrightarrow> bheight (paint OTN_PROP_BLACK t) = Suc (bheight t)"
  by (cases t) auto

text \<open>descent\<close>

fun toward :: "('k \<Rightarrow> 'k \<Rightarrow> int) \<Rightarrow> 'k \<Rightarrow> ('k, 'd) ds_tree_node \<Rightarrow> bool" where
  "toward cmp key NULL = False"
| "toward cmp key (Node c l k d r) = (cmp k key < 0)"

definition quiet :: "('k, 'd) ds_tree_node \<Rightarrow> bool" where
  "quiet t \<longleftrightarrow> t \<noteq> NULL \<and> \<not> otn_is_red t \<and>
     \<not> otn_is_red (otn_child False t) \<and> \<not> otn_is_red (otn_child True t)"

fun flippable :: "('k, 'd) ds_tree_node \<Rightarrow> bool" where
  "flippable t \<longleftrightarrow> otn_is_red (otn_child False t) \<and> otn_is_red (otn_child True t)"

fun sibling_black :: "('k, 'd) path \<Rightarrow> bool" where
  "sibling_black [] = False"
| "sibling_black (Up dir c k d s # p) = (\<not> otn_is_red s)"

fun parent_red :: "('k, 'd) path \<Rightarrow> bool" where
  "parent_red [] = False"
| "parent_red (Up dir c k d s # p) = (c = OTN_PROP_RED)"

definition order_ok :: "('k \<Rightarrow> 'k \<Rightarrow> int) \<Rightarrow> 'k \<Rightarrow> ('k, 'd) path \<Rightarrow> bool" where
  "order_ok cmp key p \<longleftrightarrow>
     (\<forall>e \<in> set (lefts p). cmp (fst e) key < 0) \<and> (\<forall>e \<in> set (rights p). \<not> cmp (fst e) key < 0)"

definition shape_ok :: "('k \<Rightarrow> 'k \<Rightarrow> int) \<Rightarrow> 'k \<Rightarrow> ('k, 'd) pos \<Rightarrow> bool" where
  "shape_ok cmp key z \<longleftrightarrow> (case z of (t, p) \<Rightarrow>
     t \<noteq> NULL \<and> invc t \<and> invh t \<and> pinvc (otn_is_red t) p \<and> pinvh (bheight t) p \<and>
     (otn_is_red t \<longrightarrow> p \<noteq> [] \<and> (sibling_black p \<or> quiet (otn_child (toward cmp key t) t))) \<and>
     (parent_red p \<and> flippable t \<longrightarrow> sibling_black (tl p)))"

fun depth_to :: "('k \<Rightarrow> 'k \<Rightarrow> int) \<Rightarrow> 'k \<Rightarrow> ('k, 'd) ds_tree_node \<Rightarrow> nat" where
  "depth_to cmp key NULL = 0"
| "depth_to cmp key (Node c l k d r) = Suc (depth_to cmp key (if cmp k key < 0 then r else l))"

fun descent_measure :: "('k \<Rightarrow> 'k \<Rightarrow> int) \<Rightarrow> 'k \<Rightarrow> ('k, 'd) pos \<Rightarrow> nat" where
  "descent_measure cmp key (t, p) = 2 * depth_to cmp key t + (if parent_red p then 1 else 0)"

lemma depth_to_le: "depth_to cmp key t \<le> num_nodes t"
  by (induction t) auto

lemma depth_to_paint [simp]: "depth_to cmp key (paint c t) = depth_to cmp key t"
  by (cases t) auto

lemma quiet_paint_black: "otn_is_red t \<Longrightarrow> invc t \<Longrightarrow> quiet (paint OTN_PROP_BLACK t)"
  by (cases t) (auto simp: quiet_def)

lemma quiet_simps:
  "quiet t \<Longrightarrow> t \<noteq> NULL" "quiet t \<Longrightarrow> \<not> otn_is_red t" "quiet t \<Longrightarrow> \<not> flippable t"
  by (auto simp: quiet_def)

text \<open>No flip: the loop only descends.\<close>

lemma step_plain:
  assumes ok: "shape_ok cmp key (Node c l k d r, p)" and nf: "\<not> (otn_is_red l \<and> otn_is_red r)"
    and "otn_child (cmp k key < 0) (Node c l k d r) \<noteq> NULL"
  shows "ds_tree_insert_rebalance (flip_colors (Node c l k d r), p) = Some (Node c l k d r, p)"
    and "shape_ok cmp key (down (cmp k key < 0) (Node c l k d r, p))"
    and "descent_measure cmp key (down (cmp k key < 0) (Node c l k d r, p))
         < descent_measure cmp key (Node c l k d r, p)"
proof -
  show "ds_tree_insert_rebalance (flip_colors (Node c l k d r), p) = Some (Node c l k d r, p)"
    using ok nf by (auto simp: shape_ok_def split: list.split ancestor.split otn_prop.split)
  show "shape_ok cmp key (down (cmp k key < 0) (Node c l k d r, p))"
    using assms by (auto simp: shape_ok_def dest: quiet_simps)
  show "descent_measure cmp key (down (cmp k key < 0) (Node c l k d r, p))
         < descent_measure cmp key (Node c l k d r, p)" by auto
qed

text \<open>A flip under a black parent.\<close>

lemma step_flip:
  assumes ok: "shape_ok cmp key (Node c l k d r, p)" and fl: "otn_is_red l" "otn_is_red r"
    and pb: "\<not> parent_red p"
    and t': "t' = Node OTN_PROP_RED (paint OTN_PROP_BLACK l) k d (paint OTN_PROP_BLACK r)"
  shows "ds_tree_insert_rebalance (t', p) = Some (t', p)"
    and "shape_ok cmp key (down (cmp k key < 0) (t', p))"
    and "descent_measure cmp key (down (cmp k key < 0) (t', p))
         < descent_measure cmp key (Node c l k d r, p)"
proof -
  have q: "quiet (paint OTN_PROP_BLACK l)" "quiet (paint OTN_PROP_BLACK r)"
    using ok fl by (auto simp: shape_ok_def intro!: quiet_paint_black)
  have c: "c = OTN_PROP_BLACK" using ok fl by (cases c) (auto simp: shape_ok_def)
  show "ds_tree_insert_rebalance (t', p) = Some (t', p)"
    using pb t' by (auto split: list.split ancestor.split otn_prop.split)
  have "pinvc True p" using pb ok by (cases p rule: parent_red.cases) (auto simp: shape_ok_def)
  with ok fl c t' q show "shape_ok cmp key (down (cmp k key < 0) (t', p))"
    by (auto simp: shape_ok_def dest: quiet_simps)
  show "descent_measure cmp key (down (cmp k key < 0) (t', p))
         < descent_measure cmp key (Node c l k d r, p)" using t' by auto
qed

text \<open>A flip under a red parent: the grandparent is there, is black, and is rotated.\<close>

lemma step_rotate:
  assumes ok: "shape_ok cmp key (Node c l k d r, p)" and ord: "order_ok cmp key p"
    and fl: "otn_is_red l" "otn_is_red r" and pr: "parent_red p"
    and t': "t' = Node OTN_PROP_RED (paint OTN_PROP_BLACK l) k d (paint OTN_PROP_BLACK r)"
  shows "\<exists>t q. ds_tree_insert_rebalance (t', p) = Some (t, q)
     \<and> lefts q @ inorder t @ rights q = lefts p @ inorder t' @ rights p
     \<and> order_ok cmp key q \<and> t \<noteq> NULL \<and> toward cmp key t = (cmp k key < 0)
     \<and> shape_ok cmp key (down (cmp k key < 0) (t, q))
     \<and> descent_measure cmp key (down (cmp k key < 0) (t, q))
         < descent_measure cmp key (Node c l k d r, p)"
proof -
  have q: "quiet (paint OTN_PROP_BLACK l)" "quiet (paint OTN_PROP_BLACK r)"
    using ok fl by (auto simp: shape_ok_def intro!: quiet_paint_black)
  have c: "c = OTN_PROP_BLACK" using ok fl by (cases c) (auto simp: shape_ok_def)
  obtain pdir pk pd ps p' where p: "p = Up pdir OTN_PROP_RED pk pd ps # p'"
    using pr by (cases p rule: parent_red.cases) auto
  have "sibling_black p'" using ok p fl by (auto simp: shape_ok_def)
  then obtain gdir gk gd gs p'' where p': "p' = Up gdir OTN_PROP_BLACK gk gd gs # p''"
    and gs: "\<not> otn_is_red gs"
    using ok p by (cases p' rule: sibling_black.cases) (auto simp: shape_ok_def)
  show ?thesis
    using ok ord fl t' q c p p' gs
    by (cases pdir; cases gdir; cases "cmp k key < 0")
      (auto simp: shape_ok_def order_ok_def dest: quiet_simps)
qed

text \<open>The new leaf.\<close>

lemma step_attach:
  assumes ok: "shape_ok cmp key (Node c l k d r, p)" and dir: "dir = (cmp k key < 0)"
    and nl: "otn_child dir (Node c l k d r) = NULL"
  shows "\<exists>t q. ds_tree_insert_rebalance (attach dir key data (Node c l k d r, p)) = Some (t, q)
     \<and> invc (plug t q) \<and> invh (plug t q)
     \<and> inorder (plug t q) = (let p' = snd (down dir (Node c l k d r, p))
                             in lefts p' @ (key, data) # rights p')"
proof (cases c)
  case OTN_PROP_BLACK
  with ok nl show ?thesis
    by (cases dir) (auto simp: shape_ok_def inorder_plug invc_plug invh_plug Let_def)
next
  case OTN_PROP_RED
  with ok nl dir have "sibling_black p" "\<not> parent_red p"
    by (cases p rule: parent_red.cases; auto simp: shape_ok_def quiet_def)+
  then obtain gdir gk gd gs p'' where p: "p = Up gdir OTN_PROP_BLACK gk gd gs # p''"
    and gs: "\<not> otn_is_red gs"
    by (cases p rule: sibling_black.cases) auto
  show ?thesis
    using ok nl OTN_PROP_RED p gs
    by (cases gdir; cases dir)
      (auto simp: shape_ok_def inorder_plug invc_plug invh_plug Let_def)
qed

definition sorted_keys :: "('k \<Rightarrow> 'k \<Rightarrow> int) \<Rightarrow> ('k \<times> 'd) list \<Rightarrow> bool" where
  "sorted_keys cmp = sorted_wrt (\<lambda>a b. cmp (fst a) (fst b) \<le> 0)"

definition unique_keys :: "('k \<Rightarrow> 'k \<Rightarrow> int) \<Rightarrow> ('k \<times> 'd) list \<Rightarrow> bool" where
  "unique_keys cmp = sorted_wrt (\<lambda>a b. cmp (fst a) (fst b) < 0)"

context key_cmp
begin

lemma order_down:
  assumes "sorted_keys cmp (lefts p @ inorder t @ rights p)" "order_ok cmp key p" "t \<noteq> NULL"
  shows "order_ok cmp key (snd (down (toward cmp key t) (t, p)))"
proof (cases t)
  case (Node c l k d r)
  have s: "\<forall>e\<in>set (inorder l). cmp (fst e) k \<le> 0" "\<forall>e\<in>set (inorder r). cmp k (fst e) \<le> 0"
    using assms(1) Node by (auto simp: sorted_keys_def sorted_wrt_append)
  show ?thesis
  proof (cases "cmp k key < 0")
    case True
    with s have "\<forall>e\<in>set (inorder l). cmp (fst e) key < 0" using cmp_less_trans2 by blast
    with True Node assms(2) show ?thesis by (auto simp: order_ok_def)
  next
    case False
    with s have "\<forall>e\<in>set (inorder r). \<not> cmp (fst e) key < 0" using cmp_less_trans2 by blast
    with False Node assms(2) show ?thesis by (auto simp: order_ok_def)
  qed
qed (use assms in simp)

lemma insert_loop_ok:
  assumes "shape_ok cmp key (t, p)" "order_ok cmp key p"
    "sorted_keys cmp (lefts p @ inorder t @ rights p)" "descent_measure cmp key (t, p) < n"
  shows "\<exists>t' L R. insert_loop n cmp key data (t, p) = Some t' \<and> invc t' \<and> invh t' \<and> \<not> otn_is_red t'
    \<and> L @ R = lefts p @ inorder t @ rights p \<and> inorder t' = L @ (key, data) # R
    \<and> (\<forall>e \<in> set L. cmp (fst e) key < 0) \<and> (\<forall>e \<in> set R. \<not> cmp (fst e) key < 0)"
  using assms
proof (induction n arbitrary: t p)
  case (Suc n)
  obtain c l k d r where t: "t = Node c l k d r"
    using Suc.prems(1) by (cases t) (auto simp: shape_ok_def)
  define dir where "dir = (cmp k key < 0)"
  have tw: "toward cmp key t = dir" by (simp add: t dir_def)
  show ?case
  proof (cases "otn_child dir t = NULL")
    case True
    obtain t1 q where r: "ds_tree_insert_rebalance (attach dir key data (t, p)) = Some (t1, q)"
      and inv: "invc (plug t1 q)" "invh (plug t1 q)"
      and io: "inorder (plug t1 q) = (let p' = snd (down dir (t, p)) in lefts p' @ (key, data) # rights p')"
      using step_attach [of cmp key c l k d r p dir data] Suc.prems(1) True t dir_def by auto
    let ?p' = "snd (down dir (t, p))"
    have "lefts ?p' @ rights ?p' = lefts p @ inorder t @ rights p" using True t by auto
    moreover have "order_ok cmp key ?p'" using order_down [OF Suc.prems(3,2)] t tw by simp
    moreover have "insert_loop (Suc n) cmp key data (t, p) = Some (paint OTN_PROP_BLACK (plug t1 q))"
      using r True t dir_def by (auto simp: Let_def simp del: ds_tree_insert_rebalance.simps)
    ultimately show ?thesis using inv io by (auto simp: order_ok_def Let_def)
  next
    case False
    obtain z where r: "ds_tree_insert_rebalance (flip_colors t, p) = Some z"
      and io: "lefts (snd z) @ inorder (fst z) @ rights (snd z) = lefts p @ inorder t @ rights p"
      and z: "order_ok cmp key (snd z)" "fst z \<noteq> NULL" "toward cmp key (fst z) = dir"
      and sh: "shape_ok cmp key (down dir z)"
      and me: "descent_measure cmp key (down dir z) < descent_measure cmp key (t, p)"
    proof (cases "otn_is_red l \<and> otn_is_red r")
      case False
      show ?thesis
        by (rule that [of "(t, p)"])
          (use step_plain [OF _ False] Suc.prems \<open>otn_child dir t \<noteq> NULL\<close> t tw dir_def in simp_all)
    next
      case True
      show ?thesis
      proof (cases "parent_red p")
        case False
        show ?thesis
          by (rule that [of "(flip_colors t, p)"])
            (use step_flip [OF _ _ _ False refl, of cmp key c l k d r] True Suc.prems t dir_def in simp_all)
      next
        case pr: True
        show ?thesis
          using step_rotate [OF _ _ _ _ pr refl, of cmp key c l k d r] True Suc.prems t dir_def that
          by fastforce
      qed
    qed
    have dz: "snd (down dir z) = snd (down dir (fst z, snd z))" by simp
    have "order_ok cmp key (snd (down dir z))"
      using order_down [of "snd z" "fst z" key] Suc.prems(3) io z by simp
    moreover have eq: "lefts (snd (down dir z)) @ inorder (fst (down dir z)) @ rights (snd (down dir z))
        = lefts p @ inorder t @ rights p"
      using down_sides [of "fst z" dir "snd z" "fst (down dir z)" "snd (down dir z)"] io z by simp
    moreover have "insert_loop (Suc n) cmp key data (t, p) = insert_loop n cmp key data (down dir z)"
      using r False t dir_def
      by (auto simp: Let_def simp del: ds_tree_insert_rebalance.simps flip_colors.simps
          split: ds_tree_node.split)
    ultimately show ?thesis
      using Suc.IH [of "fst (down dir z)" "snd (down dir z)"] sh me Suc.prems by simp
  qed
qed simp

lemma node_insert_ok:
  assumes "invc t" "invh t" "\<not> otn_is_red t" "sorted_keys cmp (inorder t)"
  shows "\<exists>t' L R. ds_tree_node_insert cmp t data key = Some t'
    \<and> invc t' \<and> invh t' \<and> \<not> otn_is_red t' \<and> L @ R = inorder t \<and> inorder t' = L @ (key, data) # R
    \<and> (\<forall>e \<in> set L. cmp (fst e) key < 0) \<and> (\<forall>e \<in> set R. \<not> cmp (fst e) key < 0)"
proof (cases t)
  case (Node c l k d r)
  then have "shape_ok cmp key (t, [])" "descent_measure cmp key (t, []) < 2 * num_nodes t + 1"
    using assms depth_to_le [of cmp key t] by (auto simp: shape_ok_def)
  then show ?thesis
    using insert_loop_ok [of key t "[]" "2 * num_nodes t + 1" data] assms(4) Node
    by (simp add: ds_tree_node_insert_def order_ok_def)
qed (simp add: ds_tree_node_insert_def)

lemma sorted_keys_insert:
  assumes "sorted_keys cmp (L @ R)" "\<forall>e \<in> set L. cmp (fst e) key < 0" "\<forall>e \<in> set R. \<not> cmp (fst e) key < 0"
  shows "sorted_keys cmp (L @ (key, data) # R)"
  using assms cmp_le_not_less by (fastforce simp: sorted_keys_def sorted_wrt_append)

end

end
