(* ===== verification/Ds_Tree_Remove.thy ===== *)
theory Ds_Tree_Remove
  imports Ds_Tree_Insert
begin

text \<open>
  Removal from the red-black tree. A step of the climb starts from a hole (\<open>hole_ok\<close>: one child
  is black and one black node short) and ends either whole (\<open>whole_ok\<close>) or with the whole
  subtree one short (\<open>short_ok\<close>), which is a hole one level up.
\<close>

section \<open>Holes\<close>

definition hole_ok :: "('k, 'd) pos \<Rightarrow> bool \<Rightarrow> bool" where
  "hole_ok z dir \<longleftrightarrow> (case z of
       (NULL, p) \<Rightarrow> False
     | (Node c l k d r, p) \<Rightarrow>
         (let x = (if dir then r else l); s = (if dir then l else r) in
          \<not> otn_is_red x \<and> invc x \<and> invc s \<and> invh x \<and> invh s \<and> bheight s = Suc (bheight x) \<and>
          (c = OTN_PROP_RED \<longrightarrow> \<not> otn_is_red s) \<and> pinvc (c = OTN_PROP_RED) p \<and>
          pinvh (if c = OTN_PROP_BLACK then Suc (Suc (bheight x)) else Suc (bheight x)) p))"

lemma hole_okE:
  assumes "hole_ok (t, p) dir"
  obtains c k d x s where "t = (if dir then Node c s k d x else Node c x k d s)"
    "\<not> otn_is_red x" "invc x" "invc s" "invh x" "invh s" "bheight s = Suc (bheight x)"
    "c = OTN_PROP_RED \<Longrightarrow> \<not> otn_is_red s" "pinvc (c = OTN_PROP_RED) p"
    "pinvh (if c = OTN_PROP_BLACK then Suc (Suc (bheight x)) else Suc (bheight x)) p"
proof (cases t)
  case (Node c l k d r)
  show ?thesis
    by (rule that [of c "if dir then l else r" k d "if dir then r else l"])
      (use assms Node in \<open>simp_all add: hole_ok_def Let_def\<close>)
qed (use assms in \<open>simp add: hole_ok_def\<close>)

text \<open>The subtree at the position is black and one black node short of its surroundings.\<close>

definition short_ok :: "('k, 'd) pos \<Rightarrow> bool" where
  "short_ok z \<longleftrightarrow> (case z of (t, p) \<Rightarrow>
     \<not> otn_is_red t \<and> invc t \<and> invh t \<and> pinvc False p \<and> pinvh (Suc (bheight t)) p)"

definition whole_ok :: "('k, 'd) pos \<Rightarrow> bool" where
  "whole_ok z \<longleftrightarrow> (case z of (t, p) \<Rightarrow>
     invc t \<and> invh t \<and> pinvc (otn_is_red t) p \<and> pinvh (bheight t) p)"

abbreviation entries :: "('k, 'd) pos \<Rightarrow> ('k \<times> 'd) list" where
  "entries z \<equiv> lefts (snd z) @ inorder (fst z) @ rights (snd z)"

lemma whole_ok_plug: "whole_ok (t, p) \<longleftrightarrow> invc (plug t p) \<and> invh (plug t p)"
  by (auto simp: whole_ok_def invc_plug invh_plug)

lemma bheight_Suc: "bheight t = Suc n \<Longrightarrow> t \<noteq> NULL"
  by auto

lemma pinvc_mono: "pinvc True p \<Longrightarrow> pinvc b p"
  by (cases p rule: parent_red.cases) auto

lemma rebalance_sibling_ok:
  assumes "hole_ok (t, p) dir" "\<not> otn_is_red (otn_child (\<not> dir) t)"
  shows "\<exists>go z. rebalance_sibling dir (t, p) = Some (go, z) \<and> entries z = entries (t, p)
    \<and> (if go then short_ok z else whole_ok z) \<and> (otn_is_red t \<longrightarrow> \<not> go)"
  using assms(1)
proof (cases rule: hole_okE)
  case h: (1 c k d x s)
  with assms(2) obtain sl sk sd sr where s: "s = Node OTN_PROP_BLACK sl sk sd sr"
    by (cases s; cases dir) auto
  have sb: "bheight sl = bheight x" "bheight sr = bheight x" using h s by simp_all
  have hs: "invc sl" "invc sr" "invh sl" "invh sr" using h s by simp_all
  note h' = h(1-3,5,9,10) hs sb
  show ?thesis
  proof (cases "\<not> otn_is_red sl \<and> \<not> otn_is_red sr")
    case True
    with h' s show ?thesis
      by (cases dir; cases c; auto simp: rebalance_sibling_def short_ok_def whole_ok_def Let_def
          intro: pinvc_mono)
  next
    case False
    show ?thesis
    proof (cases "otn_is_red (if dir then sl else sr)")
      case True
      with False h' s show ?thesis
        by (cases dir; cases c; cases sl; cases sr)
          (simp_all add: rebalance_sibling_def short_ok_def whole_ok_def Let_def ex_bool_eq)
    next
      case dbl: False
      with False h' s show ?thesis
        by (cases dir; cases c; cases sl; cases sr)
          (simp_all add: rebalance_sibling_def short_ok_def whole_ok_def Let_def ex_bool_eq)
    qed
  qed
qed

lemma remove_rebalance_ok:
  assumes "hole_ok (t, p) dir"
  shows "\<exists>go z. ds_tree_remove_rebalance (t, p) dir = Some (go, z) \<and> entries z = entries (t, p)
    \<and> (if go then short_ok z else whole_ok z)"
proof (cases "otn_is_red (otn_child (\<not> dir) t)")
  case False
  then have "ds_tree_remove_rebalance (t, p) dir = rebalance_sibling dir (t, p)"
    by (simp add: ds_tree_remove_rebalance_def)
  then show ?thesis using rebalance_sibling_ok [OF assms False] by metis
next
  case True
  obtain t' where r: "ds_rbt_rotate t (\<not> dir) = Some t'"
    and h: "hole_ok (down dir (t', p)) dir" "otn_is_red (fst (down dir (t', p)))"
      "\<not> otn_is_red (otn_child (\<not> dir) (fst (down dir (t', p))))" "t' \<noteq> NULL"
    using assms
  proof (cases rule: hole_okE)
    case h: (1 c k d x s)
    with True obtain sl sk sd sr where s: "s = Node OTN_PROP_RED sl sk sd sr"
      by (cases s; cases dir) auto
    have sb: "bheight sl = Suc (bheight x)" "bheight sr = Suc (bheight x)" using h s by simp_all
    have c: "c = OTN_PROP_BLACK" using h s by (cases c) simp_all
    have hs: "invc sl" "invc sr" "invh sl" "invh sr" "\<not> otn_is_red sl" "\<not> otn_is_red sr"
      using h s by simp_all
    show ?thesis
      by (rule that [of "if dir then Node OTN_PROP_BLACK sl sk sd (Node OTN_PROP_RED sr k d x)
                         else Node OTN_PROP_BLACK (Node OTN_PROP_RED x k d sl) sk sd sr"])
        (use h(1-3,5,9,10) s sb c hs in \<open>cases dir; simp add: hole_ok_def Let_def\<close>)+
  qed
  have "entries (down dir (t', p)) = entries (t, p)"
    using down_sides [of t' dir p "fst (down dir (t', p))" "snd (down dir (t', p))"] h(4)
      inorder_rotate [OF r] by simp
  moreover have "ds_tree_remove_rebalance (t, p) dir = rebalance_sibling dir (down dir (t', p))"
    using r True by (simp add: ds_tree_remove_rebalance_def)
  ultimately show ?thesis
    using rebalance_sibling_ok [of "fst (down dir (t', p))" "snd (down dir (t', p))" dir] h
    by (metis prod.collapse)
qed

lemma short_ok_up: "short_ok (t, Up dir c k d s # q) \<Longrightarrow> hole_ok (up t (Up dir c k d s), q) dir"
  by (auto simp: short_ok_def hole_ok_def Let_def)

lemma remove_loop_ok:
  "hole_ok (t, p) dir \<Longrightarrow> \<exists>t'. remove_loop (t, p) dir = Some t' \<and> invc t' \<and> invh t'
     \<and> inorder t' = entries (t, p)"
proof (induction "(t, p)" dir arbitrary: t p rule: remove_loop.induct)
  case (1 t p dir)
  obtain go t1 q where r: "ds_tree_remove_rebalance (t, p) dir = Some (go, (t1, q))"
    and e: "entries (t1, q) = entries (t, p)" and ok: "if go then short_ok (t1, q) else whole_ok (t1, q)"
    using remove_rebalance_ok [OF 1(2)] by (metis surj_pair)
  show ?case
  proof (cases "\<not> go \<or> q = []")
    case True
    with r e ok show ?thesis
      by (auto simp: remove_loop.simps whole_ok_plug inorder_plug short_ok_def)
  next
    case False
    then obtain pdir c k d s q' where q: "q = Up pdir c k d s # q'" by (metis ancestor.exhaust list.exhaust)
    have "hole_ok (up t1 (Up pdir c k d s), q') pdir" using ok False q by (simp add: short_ok_up del: up.simps)
    from 1(1) [OF r refl refl _ q refl this] False
    obtain t' where "remove_loop (up t1 (Up pdir c k d s), q') pdir = Some t' \<and> invc t' \<and> invh t'
     \<and> inorder t' = entries (up t1 (Up pdir c k d s), q')" by auto
    then show ?thesis using r e False q by (auto simp: remove_loop.simps)
  qed
qed

lemma remove_climb_ok:
  assumes "if go then p \<noteq> [] \<and> short_ok (t, p) else whole_ok (t, p)"
  shows "\<exists>t'. remove_climb (go, (t, p)) = Some t' \<and> invc t' \<and> invh t' \<and> inorder t' = entries (t, p)"
proof (cases go)
  case True
  then obtain dir c k d s q where p: "p = Up dir c k d s # q"
    using assms by (metis ancestor.exhaust list.exhaust)
  have "hole_ok (up t (Up dir c k d s), q) dir" using assms True p by (simp add: short_ok_up del: up.simps)
  from remove_loop_ok [OF this] True p show ?thesis by (auto simp: remove_climb_def)
qed (use assms in \<open>auto simp: remove_climb_def whole_ok_plug inorder_plug\<close>)

lemma remove_leaf_ok:
  assumes "whole_ok (Node c l k d r, p)" "l = NULL \<or> r = NULL"
  shows "\<exists>t'. Option.bind (ds_tree_remove_leaf (Node c l k d r, p)) remove_climb = Some t'
    \<and> invc t' \<and> invh t' \<and> inorder t' = lefts p @ inorder l @ inorder r @ rights p"
proof -
  obtain go t where r: "ds_tree_remove_leaf (Node c l k d r, p) = Some (go, (t, p))"
    by (cases "c = OTN_PROP_RED"; cases "otn_is_red (otn_child (l = NULL) (Node c l k d r))")
       (auto simp: Let_def)
  have "if go then p \<noteq> [] \<and> short_ok (t, p) else whole_ok (t, p)"
    using assms r by (auto simp: Let_def short_ok_def whole_ok_def intro: pinvc_mono split: if_splits)
  moreover have "inorder t = inorder l @ inorder r"
    using assms(2) r by (auto simp: Let_def split: if_splits)
  ultimately show ?thesis using remove_climb_ok [of go p t] r by simp
qed

lemma rightmost_path: "rightmost t (p @ p0) = (fst (rightmost t p), snd (rightmost t p) @ p0)"
proof (induction t p rule: rightmost.induct)
  case (3 c l k d v va vb vc vd p)
  then show ?case by simp
qed simp_all

lemma rightmost_ok:
  "t \<noteq> NULL \<Longrightarrow> \<exists>c l k d q. rightmost t p = (Node c l k d NULL, q)
     \<and> plug (Node c l k d NULL) q = plug t p \<and> rights q = rights p"
  by (induction t p rule: rightmost.induct) auto

lemma plug_append: "plug t (q @ p) = plug (plug t q) p"
  by (induction q arbitrary: t) simp_all

lemma lefts_append: "lefts (q @ p) = lefts p @ lefts q"
  by (induction q rule: lefts.induct) simp_all

lemma rights_append: "rights (q @ p) = rights q @ rights p"
  by (induction q rule: rights.induct) simp_all

lemma node_remove_ok:
  assumes "invc (plug (Node c l k d r) p)" "invh (plug (Node c l k d r) p)"
  shows "\<exists>t'. ds_tree_node_remove (Node c l k d r, p) = Some t' \<and> invc t' \<and> invh t' \<and> \<not> otn_is_red t'
    \<and> inorder t' = lefts p @ inorder l @ inorder r @ rights p"
proof (cases "l \<noteq> NULL \<and> r \<noteq> NULL")
  case False
  then show ?thesis using remove_leaf_ok [of c l k d r p] assms
    by (auto simp: ds_tree_node_remove_def whole_ok_plug)
next
  case True
  then obtain rc rl rk rd q where rm: "rightmost l [] = (Node rc rl rk rd NULL, q)"
    and pl: "plug (Node rc rl rk rd NULL) q = l" and rq: "rights q = []"
    using rightmost_ok [of l "[]"] by auto
  let ?p = "q @ Up False c rk rd r # p"
  have "plug (Node rc rl rk rd NULL) ?p = plug (Node c l rk rd r) p"
    by (simp add: plug_append pl)
  moreover have "invc (plug (Node c l rk rd r) p)" "invh (plug (Node c l rk rd r) p)"
    using assms unfolding invc_plug invh_plug by simp_all
  ultimately have "whole_ok (Node rc rl rk rd NULL, ?p)" by (simp add: whole_ok_plug)
  from remove_leaf_ok [OF this disjI2 [OF refl]]
  obtain t' where "Option.bind (ds_tree_remove_leaf (Node rc rl rk rd NULL, ?p)) remove_climb = Some t'
    \<and> invc t' \<and> invh t' \<and> inorder t' = lefts ?p @ inorder rl @ inorder NULL @ rights ?p"
    by blast
  moreover have "inorder l = lefts q @ inorder rl @ [(rk, rd)]"
    using inorder_plug [of "Node rc rl rk rd NULL" q] pl rq by simp
  ultimately show ?thesis using rm True rq
    by (auto simp: ds_tree_node_remove_def lefts_append rights_append simp del: ds_tree_remove_leaf.simps)
qed


end
