(* ===== verification/Ds_Tree_Api.thy ===== *)
theory Ds_Tree_Api
  imports Ds_Tree_Remove
begin

text \<open>
  The public operations of a tree (\<open>ds_tree.c.h\<close>): search, order, iteration with removal and the
  health check. \<open>ds_tree_entries\<close> is the abstract value of a table, the list of its entries in key
  order, and \<open>ds_tree_wf\<close> its invariant. The contract the users of a tree rely on is the locale
  \<open>ordered_table\<close>, met by every tree whose comparator is a \<open>key_cmp\<close>.
\<close>

section \<open>Abstract value and invariant\<close>

definition ds_tree_entries :: "('k, 'd) ds_tree \<Rightarrow> ('k \<times> 'd) list" where
  "ds_tree_entries root = inorder (ot_root root)"

definition ds_tree_wf :: "('k, 'd) ds_tree \<Rightarrow> bool" where
  "ds_tree_wf root \<longleftrightarrow> invc (ot_root root) \<and> invh (ot_root root) \<and> \<not> otn_is_red (ot_root root)
     \<and> sorted_keys (ot_cmp_fn root) (ds_tree_entries root)
     \<and> distinct (map snd (ds_tree_entries root))"

section \<open>Neighbours\<close>

fun before :: "('k, 'd) pos \<Rightarrow> ('k \<times> 'd) list" where
  "before (t, p) = lefts p @ inorder (otn_child False t)"

fun after :: "('k, 'd) pos \<Rightarrow> ('k \<times> 'd) list" where
  "after (t, p) = inorder (otn_child True t) @ rights p"

lemma min_ok:
  "t \<noteq> NULL \<Longrightarrow> \<exists>c k d r q. ds_tree_node_min t p = (Node c NULL k d r, q)
     \<and> plug (Node c NULL k d r) q = plug t p \<and> lefts q = lefts p"
  by (induction t p rule: ds_tree_node_min.induct) auto

lemma climb_next:
  "climb True t p = (t', p') \<Longrightarrow>
    (if t' = NULL then rights p = []
     else plug t' p' = plug t p \<and> lefts p' @ inorder (otn_child False t') = lefts p @ inorder t)"
  by (induction True t p arbitrary: t' p' rule: climb.induct) (auto split: if_splits)

lemma climb_prev:
  "climb False t p = (t', p') \<Longrightarrow>
    (if t' = NULL then lefts p = []
     else plug t' p' = plug t p \<and> inorder (otn_child True t') @ rights p' = inorder t @ rights p)"
  by (induction False t p arbitrary: t' p' rule: climb.induct) (auto split: if_splits)

lemma node_next_ok:
  assumes "ds_tree_node_next (Node c l k d r, p) = (t', p')"
  shows "if t' = NULL then after (Node c l k d r, p) = []
     else plug t' p' = plug (Node c l k d r) p \<and> before (t', p') = before (Node c l k d r, p) @ [(k, d)]"
proof (cases "r = NULL")
  case True
  then show ?thesis using climb_next [of "Node c l k d r" p t' p'] assms by simp
next
  case False
  then show ?thesis using min_ok [of r "Up True c k d l # p"] assms by auto
qed

lemma node_prev_ok:
  assumes "ds_tree_node_prev (Node c l k d r, p) = (t', p')"
  shows "if t' = NULL then before (Node c l k d r, p) = []
     else plug t' p' = plug (Node c l k d r) p \<and> after (t', p') = (k, d) # after (Node c l k d r, p)"
proof (cases "l = NULL")
  case True
  then show ?thesis using climb_prev [of "Node c l k d r" p t' p'] assms by simp
next
  case False
  obtain rc rl rk rd q where "rightmost l (Up False c k d r # p) = (Node rc rl rk rd NULL, q)"
    "plug (Node rc rl rk rd NULL) q = plug l (Up False c k d r # p)"
    "rights q = rights (Up False c k d r # p)"
    using rightmost_ok [OF False] by blast
  then show ?thesis using False assms by auto
qed

lemma init_wf [simp]: "ds_tree_wf (ds_tree_init cmp)"
  by (simp add: ds_tree_wf_def ds_tree_init_def ds_tree_entries_def sorted_keys_def)

lemma locate_ok:
  "(case locate data t p of
      None \<Rightarrow> data \<notin> snd ` set (inorder t)
    | Some z \<Rightarrow> \<exists>c l k r q. z = (Node c l k data r, q) \<and> plug (Node c l k data r) q = plug t p)"
proof (induction t arbitrary: p)
  case (Node c l k d r)
  show ?case
    using Node.IH(1) [of "Up False c k d r # p"] Node.IH(2) [of "Up True c k d l # p"]
    by (auto split: option.splits)
qed simp

lemma locate_split:
  assumes "distinct (map snd (inorder t))" "inorder t = B @ (k, d) # A"
  obtains c l r p where "locate d t [] = Some (Node c l k d r, p)" "plug (Node c l k d r) p = t"
    "before (Node c l k d r, p) = B" "after (Node c l k d r, p) = A"
proof -
  obtain c l k' r p where z: "locate d t [] = Some (Node c l k' d r, p)" "plug (Node c l k' d r) p = t"
    using locate_ok [of d t "[]"] assms(2) by (auto split: option.splits)
  have "B @ (k, d) # A = (lefts p @ inorder l) @ (k', d) # (inorder r @ rights p)"
    using assms(2) z(2) inorder_plug [of "Node c l k' d r" p] by simp
  from snd_split_unique [OF this] assms
  have "B = lefts p @ inorder l \<and> k = k' \<and> A = inorder r @ rights p" by simp
  with that z show ?thesis by simp
qed

lemma before_after: "t \<noteq> NULL \<Longrightarrow> inorder (plug t p) = before (t, p) @ the (entry t) # after (t, p)"
  by (cases t) (simp_all add: inorder_plug)

text \<open>Neighbours in the order of the entries.\<close>

definition first_cont :: "('k \<times> 'd) list \<Rightarrow> 'd option" where
  "first_cont xs = (case xs of [] \<Rightarrow> None | e # _ \<Rightarrow> Some (snd e))"

lemma first_cont_simps [simp]: "first_cont [] = None" "first_cont (e # xs) = Some (snd e)"
  by (simp_all add: first_cont_def)

lemma next_cont:
  "node_to_cont (ds_tree_node_next (Node c l k d r, p)) = first_cont (after (Node c l k d r, p))"
proof -
  obtain t' p' where n: "ds_tree_node_next (Node c l k d r, p) = (t', p')" by fastforce
  show ?thesis
  proof (cases t')
    case NULL
    with node_next_ok [OF n] n show ?thesis by (simp add: node_to_cont_def)
  next
    case (Node c' l' k' d' r')
    with node_next_ok [OF n] before_after [of t' p'] before_after [of "Node c l k d r" p]
    have "after (Node c l k d r, p) = (k', d') # after (t', p')" by simp
    with n Node show ?thesis by (simp add: node_to_cont_def)
  qed
qed

lemma prev_cont:
  "node_to_cont (ds_tree_node_prev (Node c l k d r, p)) = first_cont (rev (before (Node c l k d r, p)))"
proof -
  obtain t' p' where n: "ds_tree_node_prev (Node c l k d r, p) = (t', p')" by fastforce
  show ?thesis
  proof (cases t')
    case NULL
    with node_prev_ok [OF n] n show ?thesis by (simp add: node_to_cont_def)
  next
    case (Node c' l' k' d' r')
    with node_prev_ok [OF n] before_after [of t' p'] before_after [of "Node c l k d r" p]
    have "before (Node c l k d r, p) = before (t', p') @ [(k', d')]" by simp
    with n Node show ?thesis by (simp add: node_to_cont_def del: before.simps)
  qed
qed

lemma head_cont: "node_to_cont (ds_tree_node_min t []) = first_cont (inorder t)"
proof (cases "t = NULL")
  case False
  then obtain c k d r q where "ds_tree_node_min t [] = (Node c NULL k d r, q)"
     "plug (Node c NULL k d r) q = t" "lefts q = []" using min_ok [of t "[]"] by auto
  then show ?thesis using inorder_plug [of "Node c NULL k d r" q] by (simp add: node_to_cont_def)
qed (simp add: node_to_cont_def)

lemma tail_cont: "node_to_cont (rightmost t []) = first_cont (rev (inorder t))"
proof (cases "t = NULL")
  case False
  then obtain c l k d q where "rightmost t [] = (Node c l k d NULL, q)"
     "plug (Node c l k d NULL) q = t" "rights q = []" using rightmost_ok [of t "[]"] by auto
  then show ?thesis using inorder_plug [of "Node c l k d NULL" q] by (simp add: node_to_cont_def)
qed (simp add: node_to_cont_def)

lemma wf_split:
  assumes "ds_tree_wf root" "ds_tree_entries root = B @ (k, d) # A"
  shows "distinct (map snd (inorder (ot_root root)))" "inorder (ot_root root) = B @ (k, d) # A"
  using assms by (simp_all add: ds_tree_wf_def ds_tree_entries_def)

lemma tree_next:
  assumes "ds_tree_wf root" "ds_tree_entries root = B @ (k, d) # A"
  shows "ds_tree_next root d = Some (first_cont A)" "ds_tree_prev root d = Some (first_cont (rev B))"
proof -
  obtain c l r p where z: "locate d (ot_root root) [] = Some (Node c l k d r, p)"
    "plug (Node c l k d r) p = ot_root root"
    "before (Node c l k d r, p) = B" "after (Node c l k d r, p) = A"
    by (rule locate_split [OF wf_split [OF assms]])
  show "ds_tree_next root d = Some (first_cont A)"
    using z next_cont [of c l k d r p] by (simp add: ds_tree_next_def)
  show "ds_tree_prev root d = Some (first_cont (rev B))"
    using z prev_cont [of c l k d r p] by (simp add: ds_tree_prev_def)
qed

lemma tree_remove:
  assumes "ds_tree_wf root" "ds_tree_entries root = B @ (k, d) # A"
  shows "\<exists>t. ds_tree_remove root d = Some (root\<lparr>ot_root := t, ot_ndel := ot_ndel root + 1\<rparr>)
    \<and> inorder t = B @ A \<and> ds_tree_wf (root\<lparr>ot_root := t, ot_ndel := ot_ndel root + 1\<rparr>)"
proof -
  obtain c l r p where z: "locate d (ot_root root) [] = Some (Node c l k d r, p)"
    "plug (Node c l k d r) p = ot_root root"
    "before (Node c l k d r, p) = B" "after (Node c l k d r, p) = A"
    by (rule locate_split [OF wf_split [OF assms]])
  have "invc (plug (Node c l k d r) p)" "invh (plug (Node c l k d r) p)"
    using assms z by (simp_all add: ds_tree_wf_def)
  from node_remove_ok [OF this] z obtain t where
    t: "ds_tree_node_remove (Node c l k d r, p) = Some t" "invc t" "invh t" "\<not> otn_is_red t" "inorder t = B @ A"
    by auto
  have "sorted_keys (ot_cmp_fn root) (B @ A)" "distinct (map snd (B @ A))"
    using assms by (auto simp: ds_tree_wf_def sorted_keys_def sorted_wrt_append)
  with t z show ?thesis
    by (intro exI [of _ t])
      (simp add: ds_tree_remove_def node_remove_def ds_tree_wf_def ds_tree_entries_def)
qed


lemma entries_upd [simp]:
  "ds_tree_entries (root\<lparr>ot_root := t, ot_ndel := n\<rparr>) = inorder t"
  "ds_tree_entries (root\<lparr>ot_root := t\<rparr>) = inorder t"
  by (simp_all add: ds_tree_entries_def)

definition iter_ok :: "'d ds_tree_iter \<Rightarrow> ('k, 'd) ds_tree \<Rightarrow> ('k \<times> 'd) list \<Rightarrow> bool" where
  "iter_ok iter root A \<longleftrightarrow> ds_tree_wf root \<and> oti_ndel iter = ot_ndel root \<and> oti_next iter = first_cont A"

lemma inext_ok:
  assumes "iter_ok iter root A" "ds_tree_entries root = B @ A"
  obtains iter' where "ds_tree_inext_err iter root = Some (iter', Ret (first_cont A))"
    "iter_ok iter' root (tl A)" "oti_curr iter' = first_cont A"
proof (cases A)
  case Nil
  with assms that [of "iter\<lparr>oti_curr := None\<rparr>"] show ?thesis
    by (simp add: ds_tree_inext_err_def iter_ok_def)
next
  case (Cons e A')
  with tree_next(1) [of root B "fst e" "snd e" A'] assms
    that [of "iter\<lparr>oti_curr := first_cont A, oti_next := first_cont A'\<rparr>"] show ?thesis
    by (simp add: ds_tree_inext_err_def iter_ok_def)
qed

lemma iremove_ok:
  assumes "iter_ok iter root A" "ds_tree_entries root = B @ (k, d) # A" "oti_curr iter = Some d"
  obtains iter' root' where "ds_tree_iremove_err iter root = Some (iter', root', Ret (Some d))"
    "iter_ok iter' root' A" "ds_tree_entries root' = B @ A"
proof -
  obtain t where "ds_tree_remove root d = Some (root\<lparr>ot_root := t, ot_ndel := ot_ndel root + 1\<rparr>)"
    "inorder t = B @ A" "ds_tree_wf (root\<lparr>ot_root := t, ot_ndel := ot_ndel root + 1\<rparr>)"
    using assms(1) tree_remove [OF _ assms(2)] unfolding iter_ok_def by blast
  with assms show ?thesis
    by (intro that [of "iter\<lparr>oti_curr := None, oti_ndel := oti_ndel iter + 1\<rparr>"
          "root\<lparr>ot_root := t, ot_ndel := ot_ndel root + 1\<rparr>"])
      (simp_all add: ds_tree_iremove_err_def iter_ok_def)
qed

lemma foreach_iter_ok:
  assumes "iter_ok iter root (tl A)" "ds_tree_entries root = B @ A" "oti_curr iter = first_cont A"
    "length A < n"
  shows "\<exists>root'. foreach_iter n sel iter root (first_cont A) = Some (map snd A, root')
    \<and> ds_tree_wf root' \<and> ds_tree_entries root' = B @ filter (\<lambda>e. \<not> sel (snd e)) A"
  using assms
proof (induction n arbitrary: iter root A B)
  case (Suc n)
  show ?case
  proof (cases A)
    case Nil
    with Suc.prems show ?thesis by (simp add: iter_ok_def)
  next
    case (Cons e A')
    obtain iter1 root1 rc B1 where rm: "(if sel (snd e) then ds_tree_iremove_err iter root
          else Some (iter, root, Ret None)) = Some (iter1, root1, rc)" "rc \<noteq> DS_ITER_ERROR"
      and ok: "iter_ok iter1 root1 A'" and e1: "ds_tree_entries root1 = B1 @ A'"
      and B1: "B1 = B @ filter (\<lambda>e. \<not> sel (snd e)) [e]"
    proof (cases "sel (snd e)")
      case True
      obtain iter' root' where "ds_tree_iremove_err iter root = Some (iter', root', Ret (Some (snd e)))"
        "iter_ok iter' root' A'" "ds_tree_entries root' = B @ A'"
        by (rule iremove_ok [of iter root A' B "fst e" "snd e"]) (use Suc.prems Cons in auto)
      with True show ?thesis by (intro that [of iter' root' "Ret (Some (snd e))" B]) simp_all
    next
      case False
      with Suc.prems(1,2) Cons show ?thesis by (intro that [of iter root "Ret None" "B @ [e]"]) simp_all
    qed
    obtain iter2 where nx: "ds_tree_inext_err iter1 root1 = Some (iter2, Ret (first_cont A'))"
        "iter_ok iter2 root1 (tl A')" "oti_curr iter2 = first_cont A'"
      by (rule inext_ok [OF ok e1])
    have "length A' < n" using Suc.prems Cons by simp
    from Suc.IH [OF nx(2) e1 nx(3) this] obtain root' where
      "foreach_iter n sel iter2 root1 (first_cont A') = Some (map snd A', root')"
      "ds_tree_wf root'" "ds_tree_entries root' = B1 @ filter (\<lambda>e. \<not> sel (snd e)) A'" by blast
    with rm nx(1) B1 Cons show ?thesis by (simp split: if_splits)
  qed
qed simp

lemma ifirst_ok:
  assumes "ds_tree_wf root"
  obtains iter where "ds_tree_ifirst root = (iter, first_cont (ds_tree_entries root))"
    "iter_ok iter root (tl (ds_tree_entries root))" "oti_curr iter = first_cont (ds_tree_entries root)"
proof (cases "ot_root root = NULL")
  case True
  with assms that [of "\<lparr>oti_curr = None, oti_next = None, oti_ndel = ot_ndel root\<rparr>"] show ?thesis
    by (simp add: ds_tree_ifirst_def iter_ok_def ds_tree_entries_def)
next
  case False
  then obtain c k d r q where m: "ds_tree_node_min (ot_root root) [] = (Node c NULL k d r, q)"
     "plug (Node c NULL k d r) q = ot_root root" "lefts q = []" using min_ok [of "ot_root root" "[]"] by auto
  then have "ds_tree_entries root = (k, d) # after (Node c NULL k d r, q)"
    using inorder_plug [of "Node c NULL k d r" q] by (simp add: ds_tree_entries_def)
  with m assms False next_cont [of c NULL k d r q] show ?thesis
    by (intro that [of "\<lparr>oti_curr = Some d, oti_next = first_cont (after (Node c NULL k d r, q)), oti_ndel = ot_ndel root\<rparr>"])
      (simp_all add: ds_tree_ifirst_def iter_ok_def node_to_cont_def Let_def del: after.simps)
qed


section \<open>Search\<close>

context key_cmp
begin

lemma find_node_ok:
  assumes "sorted_keys cmp (inorder t)"
  shows "case find_node cmp t key of
      Some d \<Rightarrow> \<exists>k. (k, d) \<in> set (inorder t) \<and> cmp k key = 0
    | None \<Rightarrow> \<forall>e \<in> set (inorder t). cmp (fst e) key \<noteq> 0"
  using assms
proof (induction t)
  case (Node c l k d r)
  have s: "sorted_keys cmp (inorder l)" "sorted_keys cmp (inorder r)"
    "\<forall>e\<in>set (inorder l). cmp (fst e) k \<le> 0" "\<forall>e\<in>set (inorder r). cmp k (fst e) \<le> 0"
    using Node.prems by (auto simp: sorted_keys_def sorted_wrt_append)
  consider "cmp k key = 0" | "cmp k key < 0" | "0 < cmp k key" by linarith
  then show ?case
  proof cases
    case 2
    then have "\<forall>e\<in>set (inorder l). cmp (fst e) key \<noteq> 0" using s(3) cmp_less_trans2 by fastforce
    with 2 Node.IH(2) [OF s(2)] show ?thesis by (auto split: option.splits)
  next
    case 3
    then have "cmp key k < 0" using cmp_swap by blast
    then have "\<forall>e\<in>set (inorder r). cmp key (fst e) < 0" using s(4) cmp_less_trans1 by blast
    then have "\<forall>e\<in>set (inorder r). cmp (fst e) key \<noteq> 0" using cmp_swap by fastforce
    with 3 Node.IH(1) [OF s(1)] show ?thesis by (auto split: option.splits)
  qed auto
qed simp

end

section \<open>Health\<close>

lemma check_r_ok:
  "ds_tree_check_r t = (if invc t \<and> invh t then int (bheight t) else - 1)"
proof (induction t)
  case (Node c l k d r)
  then show ?case by (cases l; cases r; cases c) (auto simp: Let_def)
qed simp

fun height :: "('k, 'd) ds_tree_node \<Rightarrow> nat" where
  "height NULL = 0"
| "height (Node c l k d r) = Suc (max (height l) (height r))"

lemma height_bheight:
  "invc t \<Longrightarrow> invh t \<Longrightarrow> height t \<le> 2 * bheight t + (if otn_is_red t then 1 else 0)"
proof (induction t)
  case (Node c l k d r)
  then show ?case by (cases c) (auto split: if_splits)
qed simp

lemma bheight_size: "invh t \<Longrightarrow> 2 ^ bheight t \<le> num_nodes t + 1"
proof (induction t)
  case (Node c l k d r)
  then show ?case by (cases c) auto
qed simp

lemma depth_height: "depth_to cmp key t \<le> height t"
  by (induction t) auto

section \<open>The table contract\<close>

text \<open>
  What the users of a tree rely on: a table whose entries are in key order, with insertion,
  removal by container and search. Inside, the laws of a finite map for tables in which no
  two keys compare equal.
\<close>

locale ordered_table = key_cmp cmp for cmp :: "'k \<Rightarrow> 'k \<Rightarrow> int" +
  fixes ok :: "'t \<Rightarrow> bool" and ents :: "'t \<Rightarrow> ('k \<times> 'd) list"
    and ins :: "'t \<Rightarrow> 'd \<Rightarrow> 'k \<Rightarrow> 't option" and rem :: "'t \<Rightarrow> 'd \<Rightarrow> 't option"
    and fnd :: "'t \<Rightarrow> 'k \<Rightarrow> 'd option"
  assumes ents_sorted: "ok t \<Longrightarrow> sorted_keys cmp (ents t)"
    and ents_distinct: "ok t \<Longrightarrow> distinct (map snd (ents t))"
    and ins_law: "ok t \<Longrightarrow> d \<notin> snd ` set (ents t) \<Longrightarrow>
      \<exists>t' L R. ins t d k = Some t' \<and> ok t' \<and> L @ R = ents t \<and> ents t' = L @ (k, d) # R
        \<and> (\<forall>e \<in> set L. cmp (fst e) k < 0) \<and> (\<forall>e \<in> set R. \<not> cmp (fst e) k < 0)"
    and rem_law: "ok t \<Longrightarrow> ents t = L @ (k, d) # R \<Longrightarrow>
      \<exists>t'. rem t d = Some t' \<and> ok t' \<and> ents t' = L @ R"
    and fnd_law: "ok t \<Longrightarrow> (case fnd t k of
        Some d \<Rightarrow> \<exists>k'. (k', d) \<in> set (ents t) \<and> cmp k' k = 0
      | None \<Rightarrow> \<forall>e \<in> set (ents t). cmp (fst e) k \<noteq> 0)"
begin

lemma fnd_None: "ok t \<Longrightarrow> fnd t k = None \<longleftrightarrow> (\<forall>e \<in> set (ents t). cmp (fst e) k \<noteq> 0)"
  using fnd_law [of t k] by (fastforce split: option.splits)

lemma cmp_eq_trans: "cmp a b = 0 \<Longrightarrow> cmp c b = 0 \<Longrightarrow> cmp a c = 0"
  using cmp_trans [of a b c] cmp_trans [of c b a] cmp_zero_sym [of c b] cmp_zero_sym [of a b]
    cmp_swap [of a c] cmp_swap [of c a] by linarith

lemma cmp_above: "\<not> cmp a b < 0 \<Longrightarrow> cmp a b \<noteq> 0 \<Longrightarrow> cmp b a < 0"
  using cmp_swap [of b a] by linarith

lemma cmp_below: "cmp a b < 0 \<Longrightarrow> cmp b a \<noteq> 0"
  using cmp_swap [of a b] by linarith

lemma uniq_unique:
  assumes "unique_keys cmp (ents t)" "(k, d) \<in> set (ents t)" "(k', d') \<in> set (ents t)" "cmp k k' = 0"
  shows "k = k' \<and> d = d'"
proof -
  have "sorted_wrt (\<lambda>a b. cmp (fst a) (fst b) < 0) xs \<Longrightarrow> (k, d) \<in> set xs \<Longrightarrow> (k', d') \<in> set xs \<Longrightarrow>
      k = k' \<and> d = d'" for xs :: "('k \<times> 'd) list"
    using assms(4) cmp_zero_sym [of k k'] by (induction xs) fastforce+
  with assms show ?thesis by (simp add: unique_keys_def)
qed

lemma fnd_Some:
  assumes "ok t" "unique_keys cmp (ents t)"
  shows "fnd t k = Some d \<longleftrightarrow> (\<exists>k'. (k', d) \<in> set (ents t) \<and> cmp k' k = 0)"
proof
  assume "\<exists>k'. (k', d) \<in> set (ents t) \<and> cmp k' k = 0"
  then obtain k' where k': "(k', d) \<in> set (ents t)" "cmp k' k = 0" by blast
  then obtain d' k'' where d': "fnd t k = Some d'" "(k'', d') \<in> set (ents t)" "cmp k'' k = 0"
    using fnd_law [OF assms(1), of k] by (cases "fnd t k") auto
  then have "cmp k' k'' = 0" using k' cmp_eq_trans by blast
  with uniq_unique [OF assms(2) k'(1) d'(2)] d' show "fnd t k = Some d" by simp
qed (use fnd_law [OF assms(1), of k] in auto)

lemma fnd_insert:
  assumes "ok t" "unique_keys cmp (ents t)" "d \<notin> snd ` set (ents t)" "fnd t k = None"
  shows "\<exists>t'. ins t d k = Some t' \<and> ok t' \<and> unique_keys cmp (ents t')
    \<and> (\<forall>k'. fnd t' k' = (if cmp k k' = 0 then Some d else fnd t k'))"
proof -
  obtain t' L R where t': "ins t d k = Some t'" "ok t'" "L @ R = ents t" "ents t' = L @ (k, d) # R"
    and L: "\<forall>e \<in> set L. cmp (fst e) k < 0" and R: "\<forall>e \<in> set R. \<not> cmp (fst e) k < 0"
    using ins_law [OF assms(1,3)] by blast
  have "\<forall>e \<in> set (L @ R). cmp (fst e) k \<noteq> 0" using assms(1,4) t'(3) fnd_None by simp
  then have R': "\<forall>e \<in> set R. cmp k (fst e) < 0" using R cmp_above by auto
  have LR: "sorted_wrt (\<lambda>a b. cmp (fst a) (fst b) < 0) (L @ R)" using assms(2) t'(3) by (simp add: unique_keys_def)
  have u: "unique_keys cmp (ents t')" unfolding unique_keys_def t'(4) using LR L R' by (auto simp: sorted_wrt_append)
  have "fnd t' k' = (if cmp k k' = 0 then Some d else fnd t k')" for k'
  proof (cases "cmp k k' = 0")
    case True
    then show ?thesis using fnd_Some [OF t'(2) u] t'(4) by auto
  next
    case False
    have "fnd t' k' = Some x \<longleftrightarrow> fnd t k' = Some x" for x
      using fnd_Some [OF t'(2) u] fnd_Some [OF assms(1,2)] t'(3) [symmetric] t'(4) False by auto
    with False show ?thesis by (metis option.exhaust)
  qed
  with t' u show ?thesis by blast
qed

lemma fnd_remove:
  assumes "ok t" "unique_keys cmp (ents t)" "fnd t k = Some d"
  shows "\<exists>t'. rem t d = Some t' \<and> ok t' \<and> unique_keys cmp (ents t')
    \<and> (\<forall>k'. fnd t' k' = (if cmp k k' = 0 then None else fnd t k'))"
proof -
  obtain k0 where k0: "(k0, d) \<in> set (ents t)" "cmp k0 k = 0" 
    using fnd_Some [OF assms(1,2)] assms(3) by auto
  then obtain L R where LR: "ents t = L @ (k0, d) # R" using split_list by fastforce
  obtain t' where t': "rem t d = Some t'" "ok t'" "ents t' = L @ R" using rem_law [OF assms(1) LR] by blast
  have u: "unique_keys cmp (ents t')" using assms(2) LR t'(3) by (auto simp: unique_keys_def sorted_wrt_append)
  have nd: "\<forall>e \<in> set (L @ R). cmp (fst e) k0 \<noteq> 0"
    using assms(2) LR by (auto simp: unique_keys_def sorted_wrt_append dest: cmp_below)
  have "fnd t' k' = (if cmp k k' = 0 then None else fnd t k')" for k'
  proof (cases "cmp k k' = 0")
    case True
    then have "cmp k0 k' = 0" using cmp_eq_trans [OF k0(2)] cmp_zero_sym by blast
    then have "\<forall>e \<in> set (ents t'). cmp (fst e) k' \<noteq> 0" using nd t'(3) cmp_eq_trans by auto
    then show ?thesis using True fnd_None [OF t'(2)] by simp
  next
    case False
    then have "cmp k0 k' \<noteq> 0" using k0(2) cmp_eq_trans cmp_zero_sym by blast
    then have "fnd t' k' = Some x \<longleftrightarrow> fnd t k' = Some x" for x
      using fnd_Some [OF t'(2) u] fnd_Some [OF assms(1,2)] LR t'(3) by auto
    with False show ?thesis by (metis option.exhaust)
  qed
  with t' u show ?thesis by blast
qed

end

lemma insert_table:
  assumes "key_cmp (ot_cmp_fn root)" "ds_tree_wf root" "data \<notin> snd ` set (ds_tree_entries root)"
  shows "\<exists>root' L R. ds_tree_insert root data key = Some root' \<and> ot_cmp_fn root' = ot_cmp_fn root
    \<and> ds_tree_wf root' \<and> L @ R = ds_tree_entries root \<and> ds_tree_entries root' = L @ (key, data) # R
    \<and> (\<forall>e \<in> set L. ot_cmp_fn root (fst e) key < 0) \<and> (\<forall>e \<in> set R. \<not> ot_cmp_fn root (fst e) key < 0)"
proof -
  have i: "invc (ot_root root)" "invh (ot_root root)" "\<not> otn_is_red (ot_root root)"
    "sorted_keys (ot_cmp_fn root) (inorder (ot_root root))"
    using assms(2) by (simp_all add: ds_tree_wf_def ds_tree_entries_def)
  obtain t' L R where t: "ds_tree_node_insert (ot_cmp_fn root) (ot_root root) data key = Some t'"
    "invc t'" "invh t'" "\<not> otn_is_red t'" "L @ R = inorder (ot_root root)" "inorder t' = L @ (key, data) # R"
    "\<forall>e \<in> set L. ot_cmp_fn root (fst e) key < 0" "\<forall>e \<in> set R. \<not> ot_cmp_fn root (fst e) key < 0"
    using key_cmp.node_insert_ok [OF assms(1) i] by blast
  have LR: "sorted_keys (ot_cmp_fn root) (L @ R)" "distinct (map snd (L @ R))" "data \<notin> snd ` set (L @ R)"
    using assms(2,3) unfolding t(5) by (simp_all add: ds_tree_wf_def ds_tree_entries_def)
  have "sorted_keys (ot_cmp_fn root) (inorder t')" "distinct (map snd (inorder t'))"
    unfolding t(6) using key_cmp.sorted_keys_insert [OF assms(1) LR(1) t(7,8)] LR(2,3) by auto
  with t show ?thesis
    by (intro exI [of _ "root\<lparr>ot_root := t'\<rparr>"] exI [of _ L] exI [of _ R])
      (simp add: ds_tree_insert_def ds_tree_wf_def ds_tree_entries_def)
qed

lemma ds_tree_table:
  assumes "key_cmp cmp"
  shows "ordered_table cmp (\<lambda>t. ds_tree_wf t \<and> ot_cmp_fn t = cmp) ds_tree_entries
    ds_tree_insert ds_tree_remove ds_tree_find"
proof (intro ordered_table.intro assms ordered_table_axioms.intro, goal_cases)
  case (3 t d k)
  then show ?case using insert_table [of t d k] assms by auto
next
  case (4 t L k d R)
  then show ?case using tree_remove [of t L k d R] by auto
next
  case (5 t k)
  then show ?case using key_cmp.find_node_ok [OF assms, of "ot_root t" k]
    by (fastforce simp: ds_tree_find_def ds_tree_wf_def ds_tree_entries_def split: option.splits)
qed (auto simp: ds_tree_wf_def)

interpretation str_tree: ordered_table ds_str_cmp "\<lambda>t. ds_tree_wf t \<and> ot_cmp_fn t = ds_str_cmp"
    ds_tree_entries ds_tree_insert ds_tree_remove ds_tree_find
  by (rule ds_tree_table) (rule str_cmp.key_cmp_axioms)

interpretation u32_tree: ordered_table ds_u32_cmp "\<lambda>t. ds_tree_wf t \<and> ot_cmp_fn t = ds_u32_cmp"
    ds_tree_entries ds_tree_insert ds_tree_remove ds_tree_find
  by (rule ds_tree_table) (rule u32_cmp.key_cmp_axioms)


lemma foreach_ok:
  "ds_tree_wf root \<Longrightarrow> ds_tree_entries root = B @ A \<Longrightarrow> length A < n \<Longrightarrow>
     foreach n root (first_cont A) = Some (map snd A)"
proof (induction n arbitrary: A B)
  case (Suc n)
  show ?case
  proof (cases A)
    case (Cons e A')
    with tree_next(1) [of root B "fst e" "snd e" A'] Suc.IH [of "B @ [e]" A'] Suc.prems
    show ?thesis by simp
  qed simp
qed simp

section \<open>Properties\<close>

text \<open>A table of four entries, at which the witnesses evaluate.\<close>

definition sample_tree :: "(u32, nat) ds_tree" where
  "sample_tree =
     \<lparr>ot_root = Node OTN_PROP_BLACK
        (Node OTN_PROP_BLACK NULL 3 0 NULL) 5 1
        (Node OTN_PROP_BLACK NULL 7 2 (Node OTN_PROP_RED NULL 9 3 NULL)),
      ot_cmp_fn = ds_u32_cmp, ot_ndel = 0\<rparr>"

lemma sample_tree_wf: "ds_tree_wf sample_tree"
    "ds_tree_entries sample_tree = [(3, 0), (5, 1), (7, 2), (9, 3)]"
  by (simp_all add: sample_tree_def ds_tree_wf_def ds_tree_entries_def sorted_keys_def ds_u32_cmp_def)

lemma sample_tree_cmp: "key_cmp (ot_cmp_fn sample_tree)"
  by (simp add: sample_tree_def u32_cmp.key_cmp_axioms)

text \<open>
  C1. \<open>ds_tree_insert\<close> on a well-formed table with a comparator that meets its contract never
  dereferences NULL and ends; the result is well-formed (red-black health, key order,
  containers pairwise distinct) and has exactly one entry more, placed after every smaller key
  and before every key that is not smaller.
\<close>

theorem ds_tree_insert_correct:
  assumes "key_cmp (ot_cmp_fn root)" "ds_tree_wf root" "data \<notin> snd ` set (ds_tree_entries root)"
  shows "\<exists>root' L R. ds_tree_insert root data key = Some root' \<and> ds_tree_wf root'
    \<and> ot_cmp_fn root' = ot_cmp_fn root \<and> ot_ndel root' = ot_ndel root
    \<and> L @ R = ds_tree_entries root \<and> ds_tree_entries root' = L @ (key, data) # R
    \<and> (\<forall>e \<in> set L. ot_cmp_fn root (fst e) key < 0) \<and> (\<forall>e \<in> set R. \<not> ot_cmp_fn root (fst e) key < 0)"
proof -
  have "ds_tree_insert root data key = Some root' \<Longrightarrow> ot_ndel root' = ot_ndel root" for root'
    by (auto simp: ds_tree_insert_def)
  with insert_table [OF assms, of key] show ?thesis by blast
qed

theorem ds_tree_insert_correct_witness:
  "\<exists>root' L R. ds_tree_insert sample_tree 4 6 = Some root' \<and> ds_tree_wf root'
    \<and> ot_cmp_fn root' = ot_cmp_fn sample_tree \<and> ot_ndel root' = ot_ndel sample_tree
    \<and> L @ R = ds_tree_entries sample_tree \<and> ds_tree_entries root' = L @ (6, 4) # R
    \<and> (\<forall>e \<in> set L. ot_cmp_fn sample_tree (fst e) 6 < 0)
    \<and> (\<forall>e \<in> set R. \<not> ot_cmp_fn sample_tree (fst e) 6 < 0)"
  by (rule ds_tree_insert_correct) (simp_all add: sample_tree_wf sample_tree_cmp)

text \<open>
  C2. \<open>ds_tree_remove\<close> of a container that is in the table ends without a NULL dereference,
  takes exactly that entry out, keeps the table well-formed and counts the deletion in
  \<open>ot_ndel\<close>.
\<close>

theorem ds_tree_remove_correct:
  assumes "ds_tree_wf root" "data \<in> snd ` set (ds_tree_entries root)"
  shows "\<exists>root'. ds_tree_remove root data = Some root' \<and> ds_tree_wf root'
    \<and> ot_cmp_fn root' = ot_cmp_fn root \<and> ot_ndel root' = ot_ndel root + 1
    \<and> ds_tree_entries root' = filter (\<lambda>e. snd e \<noteq> data) (ds_tree_entries root)"
proof -
  obtain L k R where e: "ds_tree_entries root = L @ (k, data) # R"
    using assms(2) by (auto dest: split_list)
  then have "filter (\<lambda>e. snd e \<noteq> data) (ds_tree_entries root) = L @ R"
    using assms(1) filter_snd_neq [of L k data R] by (simp add: ds_tree_wf_def)
  then show ?thesis using tree_remove [OF assms(1) e] by auto
qed

theorem ds_tree_remove_correct_witness:
  "\<exists>root'. ds_tree_remove sample_tree 1 = Some root' \<and> ds_tree_wf root'
    \<and> ot_cmp_fn root' = ot_cmp_fn sample_tree \<and> ot_ndel root' = ot_ndel sample_tree + 1
    \<and> ds_tree_entries root' = filter (\<lambda>e. snd e \<noteq> 1) (ds_tree_entries sample_tree)"
  by (rule ds_tree_remove_correct) (simp_all add: sample_tree_wf)


text \<open>
  C3. In a well-formed table without equal keys, inserting a new key and removing the
  container a search returned act on \<open>ds_tree_find\<close> as updates of a finite map: every other key
  is found as before.
\<close>

theorem ds_tree_find_update:
  assumes "key_cmp (ot_cmp_fn root)" "ds_tree_wf root"
    and "unique_keys (ot_cmp_fn root) (ds_tree_entries root)"
  shows "(ds_tree_find root key = None \<and> data \<notin> snd ` set (ds_tree_entries root) \<longrightarrow>
      (\<exists>root'. ds_tree_insert root data key = Some root' \<and>
        (\<forall>k. ds_tree_find root' k = (if ot_cmp_fn root key k = 0 then Some data else ds_tree_find root k))))
    \<and> (ds_tree_find root key = Some data \<longrightarrow>
      (\<exists>root'. ds_tree_remove root data = Some root' \<and>
        (\<forall>k. ds_tree_find root' k = (if ot_cmp_fn root key k = 0 then None else ds_tree_find root k))))"
  using ordered_table.fnd_insert [OF ds_tree_table [OF assms(1)], of root data key]
    ordered_table.fnd_remove [OF ds_tree_table [OF assms(1)], of root key data] assms(2,3)
  by blast

theorem ds_tree_find_update_witness:
  "(\<exists>root'. ds_tree_insert sample_tree 4 6 = Some root' \<and>
     (\<forall>k. ds_tree_find root' k = (if ot_cmp_fn sample_tree 6 k = 0 then Some 4 else ds_tree_find sample_tree k)))
   \<and> (\<exists>root'. ds_tree_remove sample_tree 2 = Some root' \<and>
     (\<forall>k. ds_tree_find root' k = (if ot_cmp_fn sample_tree 7 k = 0 then None else ds_tree_find sample_tree k)))"
proof -
  have u: "unique_keys (ot_cmp_fn sample_tree) (ds_tree_entries sample_tree)"
    by (simp add: unique_keys_def sample_tree_wf) (simp add: sample_tree_def ds_u32_cmp_def)
  have "ds_tree_find sample_tree 6 = None" "ds_tree_find sample_tree 7 = Some 2"
    by (simp_all add: ds_tree_find_def sample_tree_def ds_u32_cmp_def)
  with ds_tree_find_update [OF sample_tree_cmp sample_tree_wf(1) u, of 6 4]
    ds_tree_find_update [OF sample_tree_cmp sample_tree_wf(1) u, of 7 2]
  show ?thesis by (simp add: sample_tree_wf)
qed

text \<open>
  C4. A \<open>ds_tree_foreach_iter\<close> loop whose body removes the current element with
  \<open>ds_tree_iremove\<close> whenever \<open>sel\<close> says so visits every element that was in the table, in key
  order and once, never trips the iteration check, and leaves a well-formed table of
  the elements that were not selected.
\<close>

theorem ds_tree_foreach_iter_removal:
  assumes "ds_tree_wf root"
  shows "\<exists>root'. foreach_iter (num_nodes (ot_root root) + 1) sel (fst (ds_tree_ifirst root)) root
      (snd (ds_tree_ifirst root)) = Some (map snd (ds_tree_entries root), root')
    \<and> ds_tree_wf root' \<and> ds_tree_entries root' = filter (\<lambda>e. \<not> sel (snd e)) (ds_tree_entries root)"
proof -
  obtain iter where i: "ds_tree_ifirst root = (iter, first_cont (ds_tree_entries root))"
    "iter_ok iter root (tl (ds_tree_entries root))" "oti_curr iter = first_cont (ds_tree_entries root)"
    by (rule ifirst_ok [OF assms])
  have "length (ds_tree_entries root) < num_nodes (ot_root root) + 1" by (simp add: ds_tree_entries_def)
  with foreach_iter_ok [OF i(2) _ i(3), of "[]"] i(1) show ?thesis by simp
qed

theorem ds_tree_foreach_iter_removal_witness:
  "\<exists>root'. foreach_iter 5 even (fst (ds_tree_ifirst sample_tree)) sample_tree
      (snd (ds_tree_ifirst sample_tree)) = Some ([0, 1, 2, 3], root')
    \<and> ds_tree_wf root' \<and> ds_tree_entries root' = [(5, 1), (9, 3)]"
proof -
  have "num_nodes (ot_root sample_tree) + 1 = 5" by (simp add: sample_tree_def)
  with ds_tree_foreach_iter_removal [OF sample_tree_wf(1), of even] show ?thesis
    by (simp add: sample_tree_wf)
qed



text \<open>
  C6. On a well-formed table of n entries no path is longer than twice the binary logarithm of
  n + 1, and \<open>ds_tree_len\<close>, which walks with \<open>ds_tree_head\<close> and \<open>ds_tree_next\<close>, ends and returns n.
\<close>

theorem ds_tree_depth_len:
  assumes "ds_tree_wf root" "n = length (ds_tree_entries root)"
  shows "2 ^ height (ot_root root) \<le> (n + 1) ^ 2 \<and> ds_tree_len root = Some n"
proof -
  have h: "invc (ot_root root)" "invh (ot_root root)" "\<not> otn_is_red (ot_root root)"
    and n: "n = num_nodes (ot_root root)"
    using assms by (auto simp: ds_tree_wf_def ds_tree_entries_def)
  have "(2::nat) ^ height (ot_root root) \<le> 2 ^ (2 * bheight (ot_root root))"
    using height_bheight [OF h(1,2)] h(3) by (intro power_increasing) auto
  also have "\<dots> = (2 ^ bheight (ot_root root)) ^ 2" by (metis mult.commute power_mult)
  also have "\<dots> \<le> (n + 1) ^ 2" using bheight_size [OF h(2)] n by (intro power_mono) auto
  finally show ?thesis
    using foreach_ok [OF assms(1), of "[]" "ds_tree_entries root" "n + 1"] assms(2) n
    by (simp add: ds_tree_len_def ds_tree_head_def head_cont ds_tree_entries_def)
qed

theorem ds_tree_depth_len_witness:
  "2 ^ height (ot_root sample_tree) \<le> (4 + 1 :: nat) ^ 2 \<and> ds_tree_len sample_tree = Some 4"
  by (rule ds_tree_depth_len [OF sample_tree_wf(1)]) (simp add: sample_tree_wf)

end
