(* ===== verification/Ds_Dlist.thy ===== *)
theory Ds_Dlist
  imports Opensync_Prelude
begin

text \<open>
  The intrusive doubly linked list of \<open>src/src/lib/ds\<close> (\<open>ds_dlist.c.h\<close>), at the level of its
  pointers. A container and the node inside it have one address, of any type \<open>'a\<close>; NULL is
  \<open>None\<close>. The record holds the list head and the \<open>odn_prev\<close>/\<open>odn_next\<close> fields of every node as
  functions of the address. \<open>dlist_ok st xs\<close> says that the structure represents the list \<open>xs\<close>; the
  operations refine the operations of lists, so the other theories use lists for the
  \<open>ds_dlist_t\<close>s of the program. The queue contract is the locale \<open>fifo\<close>.
\<close>

section \<open>Structure and operations\<close>

record 'a ds_dlist =
  od_head :: "'a option"
  od_tail :: "'a option"
  od_ndel :: u32
  odn_prev :: "'a \<Rightarrow> 'a option"
  odn_next :: "'a \<Rightarrow> 'a option"

record 'a ds_dlist_iter =
  odi_curr :: "'a option"
  odi_next :: "'a option"
  odi_ndel :: u32

text \<open>A \<open>ds_dlist_node_t **\<close>: the head field or the \<open>odn_next\<close> field of a node.\<close>

datatype 'a into = HeadField | NextField 'a

definition ds_dlist_init :: "'a ds_dlist \<Rightarrow> 'a ds_dlist" where
  "ds_dlist_init list = list\<lparr>od_head := None, od_tail := None, od_ndel := 0\<rparr>"

definition ds_dlist_is_empty :: "'a ds_dlist \<Rightarrow> bool" where
  "ds_dlist_is_empty list \<longleftrightarrow> od_head list = None"

definition ds_dlist_next :: "'a ds_dlist \<Rightarrow> 'a \<Rightarrow> 'a option" where
  "ds_dlist_next list data = odn_next list data"

definition ds_dlist_prev :: "'a ds_dlist \<Rightarrow> 'a \<Rightarrow> 'a option" where
  "ds_dlist_prev list data = odn_prev list data"

definition ds_dlist_head :: "'a ds_dlist \<Rightarrow> 'a option" where
  "ds_dlist_head list = od_head list"

definition ds_dlist_tail :: "'a ds_dlist \<Rightarrow> 'a option" where
  "ds_dlist_tail list = od_tail list"

fun load :: "'a into \<Rightarrow> 'a ds_dlist \<Rightarrow> 'a option" where
  "load HeadField list = od_head list"
| "load (NextField a) list = odn_next list a"

fun store :: "'a into \<Rightarrow> 'a option \<Rightarrow> 'a ds_dlist \<Rightarrow> 'a ds_dlist" where
  "store HeadField v list = list\<lparr>od_head := v\<rparr>"
| "store (NextField a) v list = list\<lparr>odn_next := (odn_next list)(a := v)\<rparr>"

definition ds_dlist_insert_into :: "'a ds_dlist \<Rightarrow> 'a into \<Rightarrow> 'a \<Rightarrow> 'a ds_dlist" where
  "ds_dlist_insert_into list into node =
     (let list = list\<lparr>odn_next := (odn_next list)(node := load into list)\<rparr>;
          list = store into (Some node) list
      in case odn_next list node of
           None \<Rightarrow> list\<lparr>odn_prev := (odn_prev list)(node := od_tail list), od_tail := Some node\<rparr>
         | Some nx \<Rightarrow>
             (let list = list\<lparr>odn_prev := (odn_prev list)(node := odn_prev list nx)\<rparr>
              in list\<lparr>odn_prev := (odn_prev list)(nx := Some node)\<rparr>))"

definition ds_dlist_node_remove :: "'a ds_dlist \<Rightarrow> 'a \<Rightarrow> 'a ds_dlist" where
  "ds_dlist_node_remove list node =
     (let list = (case odn_prev list node of
                    None \<Rightarrow> list\<lparr>od_head := odn_next list node\<rparr>
                  | Some p \<Rightarrow> list\<lparr>odn_next := (odn_next list)(p := odn_next list node)\<rparr>);
          list = (case odn_next list node of
                    None \<Rightarrow> list\<lparr>od_tail := odn_prev list node\<rparr>
                  | Some n \<Rightarrow> list\<lparr>odn_prev := (odn_prev list)(n := odn_prev list node)\<rparr>)
      in list\<lparr>odn_next := (odn_next list)(node := None), odn_prev := (odn_prev list)(node := None),
              od_ndel := od_ndel list + 1\<rparr>)"

definition ds_dlist_insert_head :: "'a ds_dlist \<Rightarrow> 'a \<Rightarrow> 'a ds_dlist" where
  "ds_dlist_insert_head list data = ds_dlist_insert_into list HeadField data"

definition ds_dlist_insert_after :: "'a ds_dlist \<Rightarrow> 'a \<Rightarrow> 'a \<Rightarrow> 'a ds_dlist" where
  "ds_dlist_insert_after list after data = ds_dlist_insert_into list (NextField after) data"

definition ds_dlist_insert_before :: "'a ds_dlist \<Rightarrow> 'a \<Rightarrow> 'a \<Rightarrow> 'a ds_dlist" where
  "ds_dlist_insert_before list before data =
     (case odn_prev list before of
        None \<Rightarrow> ds_dlist_insert_head list data
      | Some p \<Rightarrow> ds_dlist_insert_into list (NextField p) data)"

definition ds_dlist_insert_tail :: "'a ds_dlist \<Rightarrow> 'a \<Rightarrow> 'a ds_dlist" where
  "ds_dlist_insert_tail list data =
     (case od_tail list of
        None \<Rightarrow> ds_dlist_insert_head list data
      | Some t \<Rightarrow> ds_dlist_insert_into list (NextField t) data)"

definition ds_dlist_remove :: "'a ds_dlist \<Rightarrow> 'a \<Rightarrow> 'a ds_dlist" where
  "ds_dlist_remove list data = ds_dlist_node_remove list data"

definition remove_opt :: "'a ds_dlist \<Rightarrow> 'a option \<Rightarrow> 'a option \<times> 'a ds_dlist" where
  "remove_opt list rm =
     (case rm of None \<Rightarrow> (None, list) | Some node \<Rightarrow> (Some node, ds_dlist_node_remove list node))"

definition ds_dlist_remove_head :: "'a ds_dlist \<Rightarrow> 'a option \<times> 'a ds_dlist" where
  "ds_dlist_remove_head list = remove_opt list (od_head list)"

definition ds_dlist_remove_tail :: "'a ds_dlist \<Rightarrow> 'a option \<times> 'a ds_dlist" where
  "ds_dlist_remove_tail list = remove_opt list (od_tail list)"

definition ds_dlist_remove_after :: "'a ds_dlist \<Rightarrow> 'a \<Rightarrow> 'a option \<times> 'a ds_dlist" where
  "ds_dlist_remove_after list after = remove_opt list (odn_next list after)"

definition ds_dlist_remove_before :: "'a ds_dlist \<Rightarrow> 'a \<Rightarrow> 'a option \<times> 'a ds_dlist" where
  "ds_dlist_remove_before list before = remove_opt list (odn_prev list before)"

text \<open>\<open>ds_dlist_foreach\<close>, with a bound on the iterations: a damaged list may be cyclic.\<close>

fun dlist_foreach :: "nat \<Rightarrow> 'a ds_dlist \<Rightarrow> 'a option \<Rightarrow> 'a list option" where
  "dlist_foreach 0 list p = None"
| "dlist_foreach (Suc n) list None = Some []"
| "dlist_foreach (Suc n) list (Some p) =
     map_option ((#) p) (dlist_foreach n list (ds_dlist_next list p))"

definition ds_dlist_len :: "nat \<Rightarrow> 'a ds_dlist \<Rightarrow> nat option" where
  "ds_dlist_len n list = map_option length (dlist_foreach n list (ds_dlist_head list))"

definition ds_dlist_ifirst :: "'a ds_dlist \<Rightarrow> 'a ds_dlist_iter \<times> 'a option" where
  "ds_dlist_ifirst list =
     (\<lparr>odi_curr = od_head list,
       odi_next = (case od_head list of None \<Rightarrow> None | Some c \<Rightarrow> odn_next list c),
       odi_ndel = od_ndel list\<rparr>, od_head list)"

definition ds_dlist_inext_err ::
    "'a ds_dlist_iter \<Rightarrow> 'a ds_dlist \<Rightarrow> 'a ds_dlist_iter \<times> 'a iter_ret" where
  "ds_dlist_inext_err iter list =
     (if od_ndel list \<noteq> odi_ndel iter then (iter, DS_ITER_ERROR)
      else case odi_next iter of
        None \<Rightarrow> (iter\<lparr>odi_curr := None\<rparr>, Ret None)
      | Some c \<Rightarrow> (iter\<lparr>odi_curr := Some c, odi_next := odn_next list c\<rparr>, Ret (Some c)))"

definition ds_dlist_iinsert_err ::
    "'a ds_dlist_iter \<Rightarrow> 'a ds_dlist \<Rightarrow> 'a \<Rightarrow> 'a ds_dlist \<times> 'a iter_ret" where
  "ds_dlist_iinsert_err iter list data =
     (if od_ndel list \<noteq> odi_ndel iter then (list, DS_ITER_ERROR)
      else case odi_curr iter of
        None \<Rightarrow> (list, Ret None)
      | Some c \<Rightarrow> (ds_dlist_insert_before list c data, Ret (Some data)))"

definition ds_dlist_iremove_err ::
    "'a ds_dlist_iter \<Rightarrow> 'a ds_dlist \<Rightarrow> 'a ds_dlist_iter \<times> 'a ds_dlist \<times> 'a iter_ret" where
  "ds_dlist_iremove_err iter list =
     (if od_ndel list \<noteq> odi_ndel iter then (iter, list, DS_ITER_ERROR)
      else case odi_curr iter of
        None \<Rightarrow> (iter, list, Ret None)
      | Some node \<Rightarrow>
          (iter\<lparr>odi_curr := None, odi_ndel := odi_ndel iter + 1\<rparr>,
           ds_dlist_node_remove list node, Ret (Some node)))"

section \<open>Representation\<close>

fun first_or :: "'a option \<Rightarrow> 'a list \<Rightarrow> 'a option" where
  "first_or n [] = n"
| "first_or n (x # xs) = Some x"

fun last_or :: "'a option \<Rightarrow> 'a list \<Rightarrow> 'a option" where
  "last_or p [] = p"
| "last_or p (x # xs) = last_or (Some x) xs"

fun links :: "('a \<Rightarrow> 'a option) \<Rightarrow> ('a \<Rightarrow> 'a option) \<Rightarrow> 'a option \<Rightarrow> 'a list \<Rightarrow> 'a option \<Rightarrow> bool" where
  "links prv nxt p [] n = True"
| "links prv nxt p (x # xs) n =
     (prv x = p \<and> nxt x = first_or n xs \<and> links prv nxt (Some x) xs n)"

definition dlist_ok :: "'a ds_dlist \<Rightarrow> 'a list \<Rightarrow> bool" where
  "dlist_ok list xs \<longleftrightarrow> distinct xs \<and> od_head list = first_or None xs \<and> od_tail list = last_or None xs
     \<and> links (odn_prev list) (odn_next list) None xs None"

lemma first_or_append [simp]: "first_or n (xs @ ys) = first_or (first_or n ys) xs"
  by (cases xs) simp_all

lemma last_or_append [simp]: "last_or p (xs @ ys) = last_or (last_or p xs) ys"
  by (induction xs arbitrary: p) simp_all

lemma links_append [simp]:
  "links prv nxt p (xs @ ys) n \<longleftrightarrow> links prv nxt p xs (first_or n ys) \<and> links prv nxt (last_or p xs) ys n"
  by (induction xs arbitrary: p) simp_all

lemma links_upd [simp]:
  "x \<notin> set xs \<Longrightarrow> links (prv(x := v)) nxt p xs n = links prv nxt p xs n"
  "x \<notin> set xs \<Longrightarrow> links prv (nxt(x := v)) p xs n = links prv nxt p xs n"
  by (induction xs arbitrary: p) auto

lemma dlist_insert_into:
  assumes "dlist_ok list (A @ B)" "node \<notin> set (A @ B)"
    and into: "into = (case last_or None A of None \<Rightarrow> HeadField | Some a \<Rightarrow> NextField a)"
  shows "dlist_ok (ds_dlist_insert_into list into node) (A @ node # B)"
proof (cases A rule: rev_cases)
  case Nil
  with assms show ?thesis
    by (cases B) (auto simp: dlist_ok_def ds_dlist_insert_into_def Let_def)
next
  case (snoc A' a)
  with assms show ?thesis
    by (cases B) (auto simp: dlist_ok_def ds_dlist_insert_into_def Let_def)
qed

lemma dlist_node_remove:
  assumes "dlist_ok list (A @ x # B)"
  shows "dlist_ok (ds_dlist_node_remove list x) (A @ B)"
proof (cases A rule: rev_cases)
  case Nil
  with assms show ?thesis
    by (cases B) (auto simp: dlist_ok_def ds_dlist_node_remove_def Let_def)
next
  case (snoc A' a)
  with assms show ?thesis
    by (cases B) (auto simp: dlist_ok_def ds_dlist_node_remove_def Let_def)
qed

lemma last_or_None [simp]: "last_or p xs = None \<longleftrightarrow> p = None \<and> xs = []"
  by (induction xs arbitrary: p) auto

lemma last_or_snoc: "xs \<noteq> [] \<Longrightarrow> last_or p xs = Some (last xs)"
  by (induction xs arbitrary: p) auto

lemma dlist_ends:
  assumes "dlist_ok list xs"
  shows "od_head list = first_or None xs" "od_tail list = last_or None xs"
  using assms by (simp_all add: dlist_ok_def)

lemma dlist_neighbours:
  assumes "dlist_ok list (A @ x # B)"
  shows "odn_prev list x = last_or None A" "odn_next list x = first_or None B"
  using assms by (auto simp: dlist_ok_def)

lemma dlist_insert_head:
  "dlist_ok list xs \<Longrightarrow> d \<notin> set xs \<Longrightarrow> dlist_ok (ds_dlist_insert_head list d) (d # xs)"
  using dlist_insert_into [of list "[]" xs d] by (simp add: ds_dlist_insert_head_def)

lemma dlist_insert_tail:
  assumes "dlist_ok list xs" "d \<notin> set xs"
  shows "dlist_ok (ds_dlist_insert_tail list d) (xs @ [d])"
proof (cases xs rule: rev_cases)
  case Nil
  with assms dlist_insert_head [of list "[]" d] show ?thesis
    by (simp add: ds_dlist_insert_tail_def dlist_ends)
next
  case (snoc ys y)
  with assms dlist_insert_into [of list xs "[]" d] show ?thesis
    by (simp add: ds_dlist_insert_tail_def dlist_ends)
qed

lemma dlist_insert_after:
  assumes "dlist_ok list (A @ x # B)" "d \<notin> set (A @ x # B)"
  shows "dlist_ok (ds_dlist_insert_after list x d) (A @ x # d # B)"
  using dlist_insert_into [of list "A @ [x]" B d] assms by (simp add: ds_dlist_insert_after_def)

lemma dlist_insert_before:
  assumes "dlist_ok list (A @ x # B)" "d \<notin> set (A @ x # B)"
  shows "dlist_ok (ds_dlist_insert_before list x d) (A @ d # x # B)"
proof (cases A rule: rev_cases)
  case Nil
  with assms dlist_neighbours(1) [OF assms(1)] dlist_insert_head [of list "x # B" d] show ?thesis
    by (simp add: ds_dlist_insert_before_def)
next
  case (snoc A' a)
  with assms dlist_neighbours(1) [OF assms(1)] dlist_insert_into [of list A "x # B" d] show ?thesis
    by (simp add: ds_dlist_insert_before_def)
qed

lemma dlist_foreach_ok:
  "dlist_ok list (B @ A) \<Longrightarrow> length A < n \<Longrightarrow> dlist_foreach n list (first_or None A) = Some A"
proof (induction n arbitrary: A B)
  case (Suc n)
  show ?case
  proof (cases A)
    case (Cons a A')
    with Suc.prems Suc.IH [of "B @ [a]" A'] dlist_neighbours(2) [of list B a A'] show ?thesis
      by (simp add: ds_dlist_next_def)
  qed simp
qed simp

section \<open>The queue contract\<close>

text \<open>
  A first-in first-out queue over a representation relation. \<open>drain\<close> takes elements until the
  queue is empty or the count is used up.
\<close>

locale fifo =
  fixes repr :: "'q \<Rightarrow> 'a list \<Rightarrow> bool"
    and enq :: "'q \<Rightarrow> 'a \<Rightarrow> 'q" and deq :: "'q \<Rightarrow> 'a option \<times> 'q"
  assumes repr_distinct: "repr q xs \<Longrightarrow> distinct xs"
    and enq_law: "repr q xs \<Longrightarrow> x \<notin> set xs \<Longrightarrow> repr (enq q x) (xs @ [x])"
    and deq_empty: "repr q [] \<Longrightarrow> deq q = (None, q)"
    and deq_law: "repr q (x # xs) \<Longrightarrow> fst (deq q) = Some x \<and> repr (snd (deq q)) xs"
begin

primrec drain :: "nat \<Rightarrow> 'q \<Rightarrow> 'a list \<times> 'q" where
  "drain 0 q = ([], q)"
| "drain (Suc n) q = (case deq q of
     (None, q') \<Rightarrow> ([], q')
   | (Some x, q') \<Rightarrow> (let (ys, q'') = drain n q' in (x # ys, q'')))"

lemma repr_fold_enq:
  "repr q xs \<Longrightarrow> distinct (xs @ ys) \<Longrightarrow> repr (fold (\<lambda>x q. enq q x) ys q) (xs @ ys)"
proof (induction ys arbitrary: q xs)
  case (Cons y ys)
  then show ?case using enq_law [of q xs y] Cons.IH [of "enq q y" "xs @ [y]"] by simp
qed simp

lemma drain_ok: "repr q xs \<Longrightarrow> fst (drain n q) = take n xs \<and> repr (snd (drain n q)) (drop n xs)"
proof (induction n arbitrary: q xs)
  case (Suc n)
  show ?case
  proof (cases xs)
    case (Cons x xs')
    with Suc.prems deq_law [of q x xs'] Suc.IH [of "snd (deq q)" xs'] show ?thesis
      by (auto split: prod.splits option.splits)
  qed (use Suc.prems deq_empty in simp)
qed simp

text \<open>Enqueueing some elements and taking as many as there are returns all of them in order.\<close>

lemma enq_drain:
  assumes "repr q xs" "distinct (xs @ ys)" "n = length xs + length ys"
  shows "fst (drain n (fold (\<lambda>x q. enq q x) ys q)) = xs @ ys"
  using drain_ok [OF repr_fold_enq [OF assms(1,2)], of n] assms(3) by simp

end

interpretation dlist_fifo: fifo dlist_ok ds_dlist_insert_tail ds_dlist_remove_head
proof
  fix list :: "'a ds_dlist" and xs x
  show "dlist_ok list xs \<Longrightarrow> distinct xs" by (simp add: dlist_ok_def)
  show "dlist_ok list xs \<Longrightarrow> x \<notin> set xs \<Longrightarrow> dlist_ok (ds_dlist_insert_tail list x) (xs @ [x])"
    by (rule dlist_insert_tail)
  show "dlist_ok list [] \<Longrightarrow> ds_dlist_remove_head list = (None, list)"
    by (simp add: ds_dlist_remove_head_def remove_opt_def dlist_ends)
  show "dlist_ok list (x # xs) \<Longrightarrow>
      fst (ds_dlist_remove_head list) = Some x \<and> dlist_ok (snd (ds_dlist_remove_head list)) xs"
    using dlist_node_remove [of list "[]" x xs]
    by (simp add: ds_dlist_remove_head_def remove_opt_def dlist_ends)
qed

section \<open>Properties\<close>

definition sample_dlist :: "nat ds_dlist" where
  "sample_dlist = fold (\<lambda>x q. ds_dlist_insert_tail q x) [1, 2, 3]
     \<lparr>od_head = None, od_tail = None, od_ndel = 0, odn_prev = (\<lambda>_. None), odn_next = (\<lambda>_. None)\<rparr>"

lemma sample_dlist_ok: "dlist_ok sample_dlist [1, 2, 3]"
  using dlist_fifo.repr_fold_enq [of "\<lparr>od_head = None, od_tail = None, od_ndel = 0,
      odn_prev = (\<lambda>_. None), odn_next = (\<lambda>_. None)\<rparr>" "[]" "[1, 2, 3 :: nat]"]
  by (simp add: sample_dlist_def dlist_ok_def)

text \<open>
  C8. The pointer operations refine the list operations: on a structure that represents a list
  with an element x in it, insertion at either end and on either side of x and the removal of
  x leave a structure that represents the list so changed, and the removed node's links are
  NULL.
\<close>

theorem dlist_refinement:
  assumes "dlist_ok list (A @ x # B)" "d \<notin> set (A @ x # B)"
  shows "dlist_ok (ds_dlist_insert_head list d) (d # A @ x # B)
    \<and> dlist_ok (ds_dlist_insert_tail list d) (A @ x # B @ [d])
    \<and> dlist_ok (ds_dlist_insert_after list x d) (A @ x # d # B)
    \<and> dlist_ok (ds_dlist_insert_before list x d) (A @ d # x # B)
    \<and> dlist_ok (ds_dlist_remove list x) (A @ B)
    \<and> odn_prev (ds_dlist_remove list x) x = None \<and> odn_next (ds_dlist_remove list x) x = None"
  using dlist_insert_head [OF assms] dlist_insert_tail [OF assms] dlist_insert_after [OF assms]
    dlist_insert_before [OF assms] dlist_node_remove [OF assms(1)]
  by (simp add: ds_dlist_remove_def) (simp add: ds_dlist_node_remove_def Let_def)

theorem dlist_refinement_witness:
  "dlist_ok (ds_dlist_insert_head sample_dlist 7) (7 # [1] @ 2 # [3])
    \<and> dlist_ok (ds_dlist_insert_tail sample_dlist 7) ([1] @ 2 # [3] @ [7])
    \<and> dlist_ok (ds_dlist_insert_after sample_dlist 2 7) ([1] @ 2 # 7 # [3])
    \<and> dlist_ok (ds_dlist_insert_before sample_dlist 2 7) ([1] @ 7 # 2 # [3])
    \<and> dlist_ok (ds_dlist_remove sample_dlist 2) ([1] @ [3])
    \<and> odn_prev (ds_dlist_remove sample_dlist 2) 2 = None
    \<and> odn_next (ds_dlist_remove sample_dlist 2) 2 = None"
  by (rule dlist_refinement) (use sample_dlist_ok in simp_all)

text \<open>
  Removal at a position returns the element there and leaves the rest: the head, the tail,
  the successor and the predecessor of a given element; and a \<open>ds_dlist_foreach\<close> loop on a
  structure that represents a list visits exactly that list, so \<open>ds_dlist_len\<close> is its length.
\<close>

lemma dlist_remove_positions:
  assumes "dlist_ok list (A @ x # y # B)" "n > length A + length B + 2"
  shows "fst (ds_dlist_remove_after list x) = Some y
    \<and> dlist_ok (snd (ds_dlist_remove_after list x)) (A @ x # B)
    \<and> fst (ds_dlist_remove_before list y) = Some x
    \<and> dlist_ok (snd (ds_dlist_remove_before list y)) (A @ y # B)
    \<and> fst (ds_dlist_remove_head list) = Some (hd (A @ [x]))
    \<and> dlist_ok (snd (ds_dlist_remove_head list)) (tl (A @ x # y # B))
    \<and> fst (ds_dlist_remove_tail list) = Some (last (y # B))
    \<and> dlist_ok (snd (ds_dlist_remove_tail list)) (butlast (A @ x # y # B))
    \<and> ds_dlist_len n list = Some (length (A @ x # y # B))"
proof (intro conjI)
  have y: "dlist_ok list ((A @ [x]) @ y # B)" using assms(1) by simp
  show "fst (ds_dlist_remove_after list x) = Some y"
    "dlist_ok (snd (ds_dlist_remove_after list x)) (A @ x # B)"
    using dlist_neighbours(2) [OF assms(1)] dlist_node_remove [OF y]
    by (simp_all add: ds_dlist_remove_after_def remove_opt_def)
  show "fst (ds_dlist_remove_before list y) = Some x"
    "dlist_ok (snd (ds_dlist_remove_before list y)) (A @ y # B)"
    using dlist_neighbours(1) [OF y] dlist_node_remove [OF assms(1)]
    by (simp_all add: ds_dlist_remove_before_def remove_opt_def)
  have "dlist_ok list (hd (A @ [x]) # tl (A @ x # y # B))" using assms(1) by (cases A) simp_all
  from dlist_fifo.deq_law [OF this]
  show "fst (ds_dlist_remove_head list) = Some (hd (A @ [x]))"
    "dlist_ok (snd (ds_dlist_remove_head list)) (tl (A @ x # y # B))" by auto
  have "dlist_ok list (butlast (A @ x # y # B) @ last (y # B) # [])"
    using assms(1) append_butlast_last_id [of "A @ x # y # B"] by simp
  from dlist_node_remove [OF this]
  have "dlist_ok (ds_dlist_node_remove list (last (y # B))) (butlast (A @ x # y # B))" by simp
  moreover have "od_tail list = Some (last (y # B))"
    using dlist_ends(2) [OF assms(1)] last_or_snoc [of "y # B" "Some x"] by simp
  ultimately show "fst (ds_dlist_remove_tail list) = Some (last (y # B))"
    "dlist_ok (snd (ds_dlist_remove_tail list)) (butlast (A @ x # y # B))"
    by (simp_all add: ds_dlist_remove_tail_def remove_opt_def)
  show "ds_dlist_len n list = Some (length (A @ x # y # B))"
    using dlist_foreach_ok [of list "[]" "A @ x # y # B" n] assms dlist_ends(1) [OF assms(1)]
    by (simp add: ds_dlist_len_def ds_dlist_head_def)
qed

lemma dlist_remove_positions_witness:
  "fst (ds_dlist_remove_after sample_dlist 1) = Some 2
    \<and> dlist_ok (snd (ds_dlist_remove_after sample_dlist 1)) [1, 3]
    \<and> fst (ds_dlist_remove_before sample_dlist 2) = Some 1
    \<and> fst (ds_dlist_remove_tail sample_dlist) = Some 3 \<and> ds_dlist_len 4 sample_dlist = Some 3"
  using dlist_remove_positions [of sample_dlist "[]" 1 2 "[3]" 4] sample_dlist_ok by simp

end
