(* ===== verification/Osw_Throttle.thy ===== *)
theory Osw_Throttle
  imports Opensync_Prelude
begin

text \<open>
  The rate limiter of \<open>src/src/lib/osw/src/osw_throttle.c\<close>. Times are \<open>uint64_t\<close> nanoseconds and
  the counters \<open>unsigned int\<close>, so both wrap; \<open>rate_limit_ok\<close> is the invariant that ties the
  deadline to the current window, for clocks that stay a period away from the wrap.
\<close>

section \<open>Model\<close>

record osw_throttle_rate_limit =
  limit :: u32
  period_nsec :: u64
  counter :: u32
  first_tap_nsec :: u64
  next_at_nsec :: u64

datatype osw_throttle = OSW_THROTTLE_RATE_LIMIT osw_throttle_rate_limit

text \<open>The result, the value stored through \<open>next_at_nsec\<close>, and the new state.\<close>

definition osw_throttle_rate_limit_tap ::
    "osw_throttle_rate_limit \<Rightarrow> u64 \<Rightarrow> bool \<times> u64 \<times> osw_throttle_rate_limit" where
  "osw_throttle_rate_limit_tap rate_limit now_nsec =
     (if next_at_nsec rate_limit > now_nsec then (False, next_at_nsec rate_limit, rate_limit)
      else
        let rate_limit =
          (if now_nsec - first_tap_nsec rate_limit \<ge> period_nsec rate_limit
           then rate_limit\<lparr>first_tap_nsec := now_nsec, counter := 0\<rparr> else rate_limit)
        in
        if counter rate_limit \<ge> limit rate_limit
        then (False, next_at_nsec rate_limit, rate_limit)
        else
          let rate_limit = rate_limit\<lparr>counter := counter rate_limit + 1\<rparr>;
              rate_limit =
                (if counter rate_limit = limit rate_limit
                 then rate_limit\<lparr>next_at_nsec := now_nsec + period_nsec rate_limit\<rparr>
                 else rate_limit\<lparr>next_at_nsec := now_nsec\<rparr>)
          in (True, next_at_nsec rate_limit, rate_limit))"

definition osw_throttle_rate_limit_reset :: "osw_throttle_rate_limit \<Rightarrow> osw_throttle_rate_limit" where
  "osw_throttle_rate_limit_reset rate_limit =
     rate_limit\<lparr>counter := 0, first_tap_nsec := 0, next_at_nsec := 0\<rparr>"

definition osw_throttle_new_rate_limit :: "u32 \<Rightarrow> u64 \<Rightarrow> osw_throttle" where
  "osw_throttle_new_rate_limit lim period =
     OSW_THROTTLE_RATE_LIMIT \<lparr>limit = lim, period_nsec = period, counter = 0,
       first_tap_nsec = 0, next_at_nsec = 0\<rparr>"

text \<open>\<open>now_nsec\<close> is the value \<open>osw_time_mono_clk\<close> returns.\<close>

fun osw_throttle_tap :: "osw_throttle \<Rightarrow> u64 \<Rightarrow> bool \<times> u64 \<times> osw_throttle" where
  "osw_throttle_tap (OSW_THROTTLE_RATE_LIMIT rl) now_nsec =
     (case osw_throttle_rate_limit_tap rl now_nsec of
        (result, next_at, rl') \<Rightarrow> (result, next_at, OSW_THROTTLE_RATE_LIMIT rl'))"

fun osw_throttle_reset :: "osw_throttle \<Rightarrow> osw_throttle" where
  "osw_throttle_reset (OSW_THROTTLE_RATE_LIMIT rl) =
     OSW_THROTTLE_RATE_LIMIT (osw_throttle_rate_limit_reset rl)"

section \<open>Invariant\<close>

text \<open>
  At time \<open>now\<close>: the window began and the deadline was set no later than \<open>now\<close> plus a period,
  the counter is within the limit, and once the limit is reached the deadline is a period
  after a grant that lies in the window. \<open>horizon\<close> bounds the times considered.
\<close>

definition horizon :: "osw_throttle_rate_limit \<Rightarrow> u64 \<Rightarrow> bool" where
  "horizon rl t \<longleftrightarrow> uint t + uint (period_nsec rl) < 2 ^ 64"

definition rate_limit_ok :: "osw_throttle_rate_limit \<Rightarrow> u64 \<Rightarrow> bool" where
  "rate_limit_ok rl now \<longleftrightarrow> first_tap_nsec rl \<le> now \<and> counter rl \<le> limit rl
     \<and> uint (next_at_nsec rl) \<le> uint now + uint (period_nsec rl)
     \<and> (if counter rl = limit rl \<and> limit rl \<noteq> 0
        then uint (first_tap_nsec rl) + uint (period_nsec rl) \<le> uint (next_at_nsec rl)
        else next_at_nsec rl \<le> now)"

lemma uint_diff_le: "b \<le> a \<Longrightarrow> uint (a - b) = uint a - uint b" for a b :: u64
  by (simp add: uint_minus_simple_alt)

lemma uint_add_lt: "uint a + uint b < 2 ^ 64 \<Longrightarrow> uint (a + b) = uint a + uint b" for a b :: u64
  using uint_add_lem [of a b] by simp

lemma tap_denied_early:
  "now < next_at_nsec rl \<Longrightarrow> osw_throttle_rate_limit_tap rl now = (False, next_at_nsec rl, rl)"
  by (simp add: osw_throttle_rate_limit_tap_def)

text \<open>The window a tap that passes the deadline falls in.\<close>

definition window :: "osw_throttle_rate_limit \<Rightarrow> u64 \<Rightarrow> osw_throttle_rate_limit" where
  "window rl now = (if now - first_tap_nsec rl \<ge> period_nsec rl
     then rl\<lparr>first_tap_nsec := now, counter := 0\<rparr> else rl)"

lemma tap_window:
  "\<not> now < next_at_nsec rl \<Longrightarrow> osw_throttle_rate_limit_tap rl now =
     (let w = window rl now in
      if counter w \<ge> limit w then (False, next_at_nsec w, w)
      else let n = (if counter w + 1 = limit w then now + period_nsec w else now)
           in (True, n, w\<lparr>counter := counter w + 1, next_at_nsec := n\<rparr>))"
  by (simp add: osw_throttle_rate_limit_tap_def window_def Let_def)

lemma window_room:
  assumes "rate_limit_ok rl now" "\<not> now < next_at_nsec rl" "limit rl \<noteq> 0"
  shows "counter (window rl now) < limit (window rl now)"
proof (cases "counter rl = limit rl")
  case True
  with assms have "uint (first_tap_nsec rl) + uint (period_nsec rl) \<le> uint now" "first_tap_nsec rl \<le> now"
    by (auto simp: rate_limit_ok_def word_le_def word_less_def)
  then have "period_nsec rl \<le> now - first_tap_nsec rl"
    by (simp add: word_le_def uint_diff_le)
  with assms(3) show ?thesis by (simp add: window_def word_gt_0)
next
  case False
  with assms show ?thesis by (auto simp: window_def rate_limit_ok_def word_gt_0)
qed

lemma window_ok:
  assumes "rate_limit_ok rl now" "\<not> now < next_at_nsec rl"
  shows "first_tap_nsec (window rl now) \<le> now" "counter (window rl now) \<le> limit rl"
    "next_at_nsec (window rl now) \<le> now" "limit (window rl now) = limit rl"
    "period_nsec (window rl now) = period_nsec rl"
  using assms by (auto simp: window_def rate_limit_ok_def)

lemma tap_ok:
  assumes ok: "rate_limit_ok rl now" and h: "horizon rl now"
    and t: "osw_throttle_rate_limit_tap rl now = (res, nx, rl')"
  shows "rate_limit_ok rl' now \<and> limit rl' = limit rl \<and> period_nsec rl' = period_nsec rl
    \<and> nx = next_at_nsec rl'"
proof (cases "now < next_at_nsec rl")
  case True
  with tap_denied_early [OF True] t ok show ?thesis by simp
next
  case False
  define w where "w = window rl now"
  note w = window_ok [OF ok False, folded w_def]
  have sum: "uint (now + period_nsec rl) = uint now + uint (period_nsec rl)"
    using h by (intro uint_add_lt) (simp add: horizon_def)
  have le: "uint (first_tap_nsec w) \<le> uint now" "uint (next_at_nsec w) \<le> uint now"
    using w(1,3) by (simp_all add: word_le_def)
  have "uint (next_at_nsec w) \<le> uint now + uint (period_nsec rl)"
    using le(2) uint_ge_0 [of "period_nsec rl"] by linarith
  note le = le this
  show ?thesis
  proof (cases "counter w < limit w")
    case True
    then have "counter w + 1 \<le> limit w" by (rule inc_le)
    with True t tap_window [OF False, folded w_def] w sum le show ?thesis
      by (auto simp: rate_limit_ok_def Let_def not_le split: if_splits)
  next
    case no: False
    then have "limit rl = 0" using window_room [OF ok False] w_def by blast
    with no t tap_window [OF False, folded w_def] w le show ?thesis
      by (auto simp: rate_limit_ok_def Let_def not_le)
  qed
qed

lemma ok_later:
  assumes "rate_limit_ok rl now" "now \<le> t"
  shows "rate_limit_ok rl t"
proof -
  have "uint now \<le> uint t" using assms(2) by (simp add: word_le_def)
  with assms show ?thesis by (auto simp: rate_limit_ok_def)
qed

section \<open>Properties\<close>

text \<open>
  A run of taps at the given times; the list of the answers and the state after it.
\<close>

fun taps :: "osw_throttle_rate_limit \<Rightarrow> u64 list \<Rightarrow> bool list \<times> osw_throttle_rate_limit" where
  "taps rl [] = ([], rl)"
| "taps rl (t # ts) = (case osw_throttle_rate_limit_tap rl t of
     (res, _, rl') \<Rightarrow> (case taps rl' ts of (rs, rl'') \<Rightarrow> (res # rs, rl'')))"

lemma taps_ok:
  assumes "rate_limit_ok rl now" "sorted (now # ts)" "\<forall>t \<in> set ts. horizon rl t"
  shows "rate_limit_ok (snd (taps rl ts)) (last (now # ts))
    \<and> limit (snd (taps rl ts)) = limit rl \<and> period_nsec (snd (taps rl ts)) = period_nsec rl"
  using assms
proof (induction ts arbitrary: rl now)
  case (Cons t ts)
  obtain res nx rl' where tap: "osw_throttle_rate_limit_tap rl t = (res, nx, rl')"
    by (metis surj_pair)
  have "rate_limit_ok rl t" using Cons.prems by (auto intro: ok_later)
  with tap_ok [OF this _ tap] Cons.prems
  have "rate_limit_ok rl' t" "limit rl' = limit rl" "period_nsec rl' = period_nsec rl" by simp_all
  with Cons.IH [of rl' t] Cons.prems tap show ?case
    by (auto simp: horizon_def split: prod.splits)
qed simp

text \<open>
  C9. After any run of taps with a monotone clock, a refused tap reports in \<open>next_at_nsec\<close>
  exactly when the limiter opens again: every tap before that time is refused and leaves the
  state as it is, and a tap at that time is granted.
\<close>

theorem osw_throttle_next_at_exact:
  assumes "limit rl0 \<noteq> 0" "counter rl0 = 0" "first_tap_nsec rl0 = 0" "next_at_nsec rl0 = 0"
    and "sorted (ts @ [now])" "\<forall>t \<in> set (ts @ [now]). horizon rl0 t"
    and "rl = snd (taps rl0 ts)" "osw_throttle_rate_limit_tap rl now = (False, nx, rl')"
  shows "now < nx \<and> rl' = rl
    \<and> (\<forall>t. now \<le> t \<and> t < nx \<longrightarrow> osw_throttle_rate_limit_tap rl t = (False, nx, rl))
    \<and> fst (osw_throttle_rate_limit_tap rl nx)"
proof -
  have "rate_limit_ok rl0 0" using assms by (simp add: rate_limit_ok_def)
  moreover have "sorted (0 # ts)" using assms(5) by (simp add: sorted_append)
  ultimately have "rate_limit_ok rl (last (0 # ts))" and lim: "limit rl = limit rl0"
    using taps_ok assms(6,7) by auto
  moreover have "last (0 # ts) \<le> now" using assms(5) by (cases ts rule: rev_cases) (auto simp: sorted_append)
  ultimately have ok: "rate_limit_ok rl now" using ok_later by blast
  have early: "now < next_at_nsec rl"
  proof (rule ccontr)
    assume "\<not> now < next_at_nsec rl"
    with window_room [OF ok this] lim assms(1) tap_window [OF this] assms(8) show False
      by (simp add: Let_def not_le split: if_splits)
  qed
  with tap_denied_early [OF early] assms(8) have nx: "nx = next_at_nsec rl" "rl' = rl" by simp_all
  have ok': "rate_limit_ok rl nx" using ok early nx by (intro ok_later [OF ok]) simp
  have "fst (osw_throttle_rate_limit_tap rl nx)"
    using window_room [OF ok'] tap_window [of nx rl] nx lim assms(1) by (simp add: Let_def not_le)
  with early nx tap_denied_early [of _ rl] show ?thesis by auto
qed

theorem osw_throttle_next_at_exact_witness:
  "let rl = snd (taps \<lparr>limit = 2, period_nsec = 10, counter = 0, first_tap_nsec = 0, next_at_nsec = 0\<rparr> [3, 5])
   in osw_throttle_rate_limit_tap rl 7 = (False, 15, rl)
    \<and> osw_throttle_rate_limit_tap rl 14 = (False, 15, rl)
    \<and> fst (osw_throttle_rate_limit_tap rl 15)"
proof -
  let ?rl0 = "\<lparr>limit = 2, period_nsec = 10, counter = 0, first_tap_nsec = 0, next_at_nsec = 0\<rparr>"
  have r: "taps ?rl0 [3, 5] = ([True, True], \<lparr>limit = 2, period_nsec = 10, counter = 2,
      first_tap_nsec = 0, next_at_nsec = 15\<rparr>)"
    by (simp add: osw_throttle_rate_limit_tap_def Let_def word_le_def)
  have "osw_throttle_rate_limit_tap (snd (taps ?rl0 [3, 5])) 7 = (False, 15, snd (taps ?rl0 [3, 5]))"
    by (simp add: r osw_throttle_rate_limit_tap_def del: taps.simps)
  with osw_throttle_next_at_exact [of ?rl0 "[3, 5]" 7 "snd (taps ?rl0 [3, 5])" 15 "snd (taps ?rl0 [3, 5])"]
  show ?thesis by (simp add: horizon_def Let_def del: taps.simps)
qed

text \<open>
  The limiter keeps its invariant over any run of taps with a monotone clock: the counter
  never passes the limit, and a reset returns it to the state it was created in.
\<close>

theorem osw_throttle_invariant:
  assumes "osw_throttle_new_rate_limit lim period = OSW_THROTTLE_RATE_LIMIT rl"
    and "sorted ts" "\<forall>t \<in> set ts. horizon rl t"
  shows "counter (snd (taps rl ts)) \<le> lim \<and> rate_limit_ok (snd (taps rl ts)) (last (0 # ts))
    \<and> osw_throttle_reset (OSW_THROTTLE_RATE_LIMIT (snd (taps rl ts))) = osw_throttle_new_rate_limit lim period"
proof -
  have rl: "rl = \<lparr>limit = lim, period_nsec = period, counter = 0, first_tap_nsec = 0, next_at_nsec = 0\<rparr>"
    using assms(1) by (simp add: osw_throttle_new_rate_limit_def)
  have "rate_limit_ok rl 0" by (simp add: rl rate_limit_ok_def)
  with taps_ok [of rl 0 ts] assms(2,3)
  have t: "rate_limit_ok (snd (taps rl ts)) (last (0 # ts))" "limit (snd (taps rl ts)) = lim"
    "period_nsec (snd (taps rl ts)) = period" by (simp_all add: rl)
  have "osw_throttle_rate_limit_reset (snd (taps rl ts)) = rl"
    using t(2,3) by (cases "snd (taps rl ts)") (simp add: osw_throttle_rate_limit_reset_def rl)
  moreover have "counter (snd (taps rl ts)) \<le> lim" using t(1,2) by (simp add: rate_limit_ok_def)
  ultimately show ?thesis using t(1) assms(1) by simp
qed

theorem osw_throttle_invariant_witness:
  "counter (snd (taps \<lparr>limit = 1, period_nsec = 10, counter = 0, first_tap_nsec = 0, next_at_nsec = 0\<rparr> [3, 5, 20])) \<le> 1"
  using osw_throttle_invariant [of 1 10 _ "[3, 5, 20]"]
  by (simp add: osw_throttle_new_rate_limit_def horizon_def del: taps.simps)

end
