(* ===== verification/Osw_Timer.thy ===== *)
theory Osw_Timer
  imports Opensync_Prelude "HOL-Library.Sublist"
begin

text \<open>
  The timer queue of \<open>src/src/lib/osw/src/osw_timer.c\<close>: a list of armed timers ordered by
  expiry, and the dispatch that moves the expired ones to a pending list and calls them.
  A timer is identified by its address \<open>'a\<close>; the lists are those of \<open>Ds_Dlist\<close>. A callback may arm
  and disarm any timer, also one that is still pending; it is given by the operations it does.
\<close>

section \<open>Model\<close>

text \<open>\<open>timer->list\<close>: NULL, the global active list, or the pending list of a dispatch.\<close>

datatype list_ptr = NullList | ActiveList | PendingList

record 'a osw_timers =
  at_nsec :: "'a \<Rightarrow> u64"
  timer_list :: "'a \<Rightarrow> list_ptr"
  g_active_list :: "'a list"
  pending_list :: "'a list"

definition osw_timer_init :: "'a osw_timers \<Rightarrow> 'a \<Rightarrow> 'a osw_timers" where
  "osw_timer_init s timer =
     s\<lparr>at_nsec := (at_nsec s)(timer := 0), timer_list := (timer_list s)(timer := NullList)\<rparr>"

definition osw_timer_is_armed :: "'a osw_timers \<Rightarrow> 'a \<Rightarrow> bool" where
  "osw_timer_is_armed s timer \<longleftrightarrow> timer_list s timer \<noteq> NullList"

definition osw_timer_disarm :: "'a osw_timers \<Rightarrow> 'a \<Rightarrow> 'a osw_timers" where
  "osw_timer_disarm s timer =
     (case timer_list s timer of
        NullList \<Rightarrow> s
      | ActiveList \<Rightarrow> s\<lparr>g_active_list := remove1 timer (g_active_list s),
                        timer_list := (timer_list s)(timer := NullList)\<rparr>
      | PendingList \<Rightarrow> s\<lparr>pending_list := remove1 timer (pending_list s),
                         timer_list := (timer_list s)(timer := NullList)\<rparr>)"

text \<open>The search for the first timer that is not earlier, and the insertion before it or at the tail.\<close>

fun insert_by_time :: "('a \<Rightarrow> u64) \<Rightarrow> 'a \<Rightarrow> 'a list \<Rightarrow> 'a list" where
  "insert_by_time at timer [] = [timer]"
| "insert_by_time at timer (next_timer # xs) =
     (if at next_timer \<ge> at timer then timer # next_timer # xs
      else next_timer # insert_by_time at timer xs)"

definition osw_timer_arm_at_nsec :: "'a osw_timers \<Rightarrow> 'a \<Rightarrow> u64 \<Rightarrow> 'a osw_timers" where
  "osw_timer_arm_at_nsec s timer nsec =
     (let s = s\<lparr>at_nsec := (at_nsec s)(timer := nsec)\<rparr>;
          s = osw_timer_disarm s timer
      in s\<lparr>g_active_list := insert_by_time (at_nsec s) timer (g_active_list s),
           timer_list := (timer_list s)(timer := ActiveList)\<rparr>)"

definition osw_timer_core_get_next_at :: "'a osw_timers \<Rightarrow> u64 option" where
  "osw_timer_core_get_next_at s =
     (case g_active_list s of [] \<Rightarrow> None | timer # _ \<Rightarrow> Some (at_nsec s timer))"

definition osw_timer_get_remaining_nsec :: "'a osw_timers \<Rightarrow> 'a \<Rightarrow> u64 \<Rightarrow> u64" where
  "osw_timer_get_remaining_nsec s timer now_nsec =
     (if osw_timer_is_armed s timer then
        (if at_nsec s timer \<ge> now_nsec then at_nsec s timer - now_nsec else 0)
      else 0xFFFFFFFFFFFFFFFF)"

text \<open>The first loop of the dispatch.\<close>

fun prepare :: "u64 \<Rightarrow> 'a list \<Rightarrow> 'a osw_timers \<Rightarrow> 'a osw_timers" where
  "prepare now_nsec [] s = s"
| "prepare now_nsec (timer # xs) s =
     (if at_nsec s timer > now_nsec then s
      else prepare now_nsec xs
        (s\<lparr>g_active_list := xs, pending_list := pending_list s @ [timer],
           timer_list := (timer_list s)(timer := PendingList)\<rparr>))"

datatype 'a timer_op = Arm 'a u64 | Disarm 'a

fun do_op :: "'a timer_op \<Rightarrow> 'a osw_timers \<Rightarrow> 'a osw_timers" where
  "do_op (Arm t nsec) s = osw_timer_arm_at_nsec s t nsec"
| "do_op (Disarm t) s = osw_timer_disarm s t"

lemma arm_pending_le: "length (pending_list (osw_timer_arm_at_nsec s t n)) \<le> length (pending_list s)"
  by (auto simp: osw_timer_arm_at_nsec_def osw_timer_disarm_def length_remove1 Let_def split: list_ptr.split)

lemma disarm_pending_le: "length (pending_list (osw_timer_disarm s t)) \<le> length (pending_list s)"
  by (auto simp: osw_timer_disarm_def length_remove1 split: list_ptr.split)

lemma ops_pending_le: "length (pending_list (fold do_op ops s)) \<le> length (pending_list s)"
proof (induction ops arbitrary: s)
  case (Cons op ops)
  have "length (pending_list (do_op op s)) \<le> length (pending_list s)"
    by (cases op) (simp_all add: arm_pending_le disarm_pending_le)
  with Cons.IH [of "do_op op s"] show ?case by simp
qed simp

text \<open>The second loop: the timers called, in order, and the state after it.\<close>

function dispatch :: "('a \<Rightarrow> 'a osw_timers \<Rightarrow> 'a timer_op list) \<Rightarrow> 'a osw_timers
    \<Rightarrow> 'a list \<times> 'a osw_timers" where
  "dispatch cb s =
     (case pending_list s of
        [] \<Rightarrow> ([], s)
      | timer # xs \<Rightarrow>
          (let s = s\<lparr>pending_list := xs, timer_list := (timer_list s)(timer := NullList)\<rparr>;
               (called, s') = dispatch cb (fold do_op (cb timer s) s)
           in (timer # called, s')))"
  by pat_completeness auto
termination
proof (relation "measure (\<lambda>(cb, s). length (pending_list s))", goal_cases)
  case (2 cb s timer xs x)
  then show ?case
    using ops_pending_le [of "cb timer x" x] by simp
qed simp

declare dispatch.simps [simp del]

definition osw_timer_core_dispatch ::
    "('a \<Rightarrow> 'a osw_timers \<Rightarrow> 'a timer_op list) \<Rightarrow> 'a osw_timers \<Rightarrow> u64 \<Rightarrow> 'a list \<times> 'a osw_timers" where
  "osw_timer_core_dispatch cb s now_nsec = dispatch cb (prepare now_nsec (g_active_list s) s)"

section \<open>Invariant\<close>

definition timers_ok :: "'a osw_timers \<Rightarrow> bool" where
  "timers_ok s \<longleftrightarrow> sorted_wrt (\<lambda>x y. at_nsec s x \<le> at_nsec s y) (g_active_list s)
     \<and> distinct (g_active_list s @ pending_list s)
     \<and> (\<forall>t. timer_list s t = (if t \<in> set (g_active_list s) then ActiveList
          else if t \<in> set (pending_list s) then PendingList else NullList))"

lemma set_insert_by_time [simp]: "set (insert_by_time at t xs) = insert t (set xs)"
  by (induction xs) auto

lemma distinct_insert_by_time [simp]:
  "distinct (insert_by_time at t xs) \<longleftrightarrow> t \<notin> set xs \<and> distinct xs"
  by (induction xs) auto

lemma sorted_insert_by_time:
  "sorted_wrt (\<lambda>x y. at x \<le> at y) xs \<Longrightarrow> sorted_wrt (\<lambda>x y. at x \<le> at y) (insert_by_time at t xs)"
  by (induction xs) (auto intro: order_trans)

lemma sorted_wrt_remove1: "sorted_wrt P xs \<Longrightarrow> sorted_wrt P (remove1 x xs)"
  by (induction xs) (auto dest: notin_set_remove1)

lemma sorted_wrt_upd: "t \<notin> set xs \<Longrightarrow>
    sorted_wrt (\<lambda>x y. (at(t := n)) x \<le> (at(t := n)) y) xs = sorted_wrt (\<lambda>x y. at x \<le> at y) xs"
  by (induction xs) auto

lemma disarm_simps:
  assumes "timers_ok s"
  shows "g_active_list (osw_timer_disarm s t) = remove1 t (g_active_list s)"
    "pending_list (osw_timer_disarm s t) = remove1 t (pending_list s)"
    "at_nsec (osw_timer_disarm s t) = at_nsec s"
    "timer_list (osw_timer_disarm s t) = (timer_list s)(t := NullList)"
  using assms by (auto simp: osw_timer_disarm_def timers_ok_def remove1_idem split: list_ptr.split)

lemma disarm_ok: "timers_ok s \<Longrightarrow> timers_ok (osw_timer_disarm s t)"
  unfolding timers_ok_def [of "osw_timer_disarm s t"]
  by (simp add: disarm_simps) (auto simp: timers_ok_def sorted_wrt_remove1)

lemma at_upd_disarm:
  "osw_timer_disarm (s\<lparr>at_nsec := f\<rparr>) t = (osw_timer_disarm s t)\<lparr>at_nsec := f\<rparr>"
  by (auto simp: osw_timer_disarm_def split: list_ptr.split)

lemma arm_simps:
  assumes "timers_ok s"
  shows "g_active_list (osw_timer_arm_at_nsec s t n)
      = insert_by_time ((at_nsec s)(t := n)) t (remove1 t (g_active_list s))"
    "pending_list (osw_timer_arm_at_nsec s t n) = remove1 t (pending_list s)"
    "at_nsec (osw_timer_arm_at_nsec s t n) = (at_nsec s)(t := n)"
    "timer_list (osw_timer_arm_at_nsec s t n) = (timer_list s)(t := ActiveList)"
  using assms by (simp_all add: osw_timer_arm_at_nsec_def Let_def at_upd_disarm disarm_simps)

lemma arm_ok:
  assumes "timers_ok s"
  shows "timers_ok (osw_timer_arm_at_nsec s t n)"
proof -
  let ?at = "(at_nsec s)(t := n)" and ?l = "remove1 t (g_active_list s)"
  have nt: "t \<notin> set ?l" using assms by (simp add: timers_ok_def)
  have "sorted_wrt (\<lambda>x y. at_nsec s x \<le> at_nsec s y) ?l"
    using assms by (simp add: timers_ok_def sorted_wrt_remove1)
  then have "sorted_wrt (\<lambda>x y. ?at x \<le> ?at y) ?l" by (simp only: sorted_wrt_upd [OF nt])
  then have "sorted_wrt (\<lambda>x y. ?at x \<le> ?at y) (insert_by_time ?at t ?l)" by (rule sorted_insert_by_time)
  moreover have "distinct (insert_by_time ?at t ?l @ remove1 t (pending_list s))"
    using assms nt by (auto simp: timers_ok_def)
  moreover have "((timer_list s)(t := ActiveList)) u = (if u \<in> set (insert_by_time ?at t ?l) then ActiveList
      else if u \<in> set (remove1 t (pending_list s)) then PendingList else NullList)" for u
    using assms by (auto simp: timers_ok_def)
  ultimately show ?thesis
    unfolding timers_ok_def arm_simps [OF assms] by blast
qed

lemma subseq_remove1: "subseq (remove1 x xs) xs"
  by (induction xs) auto

lemma subseq_distinct: "subseq xs ys \<Longrightarrow> distinct ys \<Longrightarrow> distinct xs"
  by (induction rule: list_emb.induct) (auto dest: list_emb_set)

lemma op_ok: "timers_ok s \<Longrightarrow> timers_ok (do_op op s) \<and> subseq (pending_list (do_op op s)) (pending_list s)"
  by (cases op) (auto simp: arm_ok disarm_ok arm_simps disarm_simps subseq_remove1)

lemma ops_ok:
  "timers_ok s \<Longrightarrow> timers_ok (fold do_op ops s) \<and> subseq (pending_list (fold do_op ops s)) (pending_list s)"
proof (induction ops arbitrary: s)
  case (Cons op ops)
  with op_ok [of s op] Cons.IH [of "do_op op s"] show ?case
    by (auto intro: subseq_order.order_trans)
qed simp

lemma prepare_ok:
  assumes "timers_ok s" "g_active_list s = xs"
  shows "timers_ok (prepare now xs s) \<and> at_nsec (prepare now xs s) = at_nsec s
    \<and> g_active_list (prepare now xs s) = dropWhile (\<lambda>t. at_nsec s t \<le> now) xs
    \<and> pending_list (prepare now xs s) = pending_list s @ takeWhile (\<lambda>t. at_nsec s t \<le> now) xs"
  using assms
proof (induction xs arbitrary: s)
  case (Cons x xs)
  let ?s = "s\<lparr>g_active_list := xs, pending_list := pending_list s @ [x], timer_list := (timer_list s)(x := PendingList)\<rparr>"
  have "timers_ok ?s" using Cons.prems by (auto simp: timers_ok_def)
  with Cons.IH [of ?s] Cons.prems show ?case by (auto simp: not_less)
qed simp

lemma dispatch_ok:
  "timers_ok s \<Longrightarrow> timers_ok (snd (dispatch cb s)) \<and> pending_list (snd (dispatch cb s)) = []
     \<and> subseq (fst (dispatch cb s)) (pending_list s)"
proof (induction cb s rule: dispatch.induct)
  case (1 cb s)
  show ?case
  proof (cases "pending_list s")
    case Nil
    with 1(2) show ?thesis by (simp add: dispatch.simps [of cb s])
  next
    case (Cons t xs)
    define s1 where "s1 = s\<lparr>pending_list := xs, timer_list := (timer_list s)(t := NullList)\<rparr>"
    define s2 where "s2 = fold do_op (cb t s1) s1"
    have ok: "timers_ok s1" using 1(2) Cons by (auto simp: timers_ok_def s1_def)
    have d: "dispatch cb s = (t # fst (dispatch cb s2), snd (dispatch cb s2))"
      using Cons by (simp add: dispatch.simps [of cb s] s1_def s2_def Let_def split: prod.split)
    have s2: "timers_ok s2" "subseq (pending_list s2) xs"
      using ops_ok [OF ok, of "cb t s1"] by (simp_all add: s2_def s1_def)
    from 1(1) [OF Cons refl] s2(1)
    have "timers_ok (snd (dispatch cb s2)) \<and> pending_list (snd (dispatch cb s2)) = []
       \<and> subseq (fst (dispatch cb s2)) (pending_list s2)" unfolding s2_def s1_def by blast
    with s2(2) show ?thesis unfolding d Cons by (auto intro: subseq_order.order_trans)
  qed
qed

lemma sorted_split_filter:
  assumes "sorted_wrt (\<lambda>x y. at x \<le> at y) xs"
  shows "takeWhile (\<lambda>t. at t \<le> (now :: u64)) xs = filter (\<lambda>t. at t \<le> now) xs
    \<and> dropWhile (\<lambda>t. at t \<le> now) xs = filter (\<lambda>t. now < at t) xs"
  using assms
proof (induction xs)
  case (Cons a xs)
  have "now < at a \<Longrightarrow> \<forall>x \<in> set xs. now < at x" using Cons.prems by (auto intro: less_le_trans)
  then have "now < at a \<Longrightarrow> filter (\<lambda>t. at t \<le> now) xs = [] \<and> filter (\<lambda>t. now < at t) xs = xs"
    by (auto simp: filter_empty_conv not_le filter_id_conv)
  with Cons show ?case by auto
qed simp

lemmas sorted_takeWhile_filter = sorted_split_filter [THEN conjunct1] sorted_split_filter [THEN conjunct2]

lemma dispatch_idle:
  "fst (dispatch (\<lambda>_ _. []) s) = pending_list s
   \<and> g_active_list (snd (dispatch (\<lambda>_ _. []) s)) = g_active_list s"
proof (induction "length (pending_list s)" arbitrary: s)
  case 0
  then show ?case by (simp add: dispatch.simps [of _ s])
next
  case (Suc n)
  then obtain t xs where p: "pending_list s = t # xs" by (cases "pending_list s") auto
  let ?s = "s\<lparr>pending_list := xs, timer_list := (timer_list s)(t := NullList)\<rparr>"
  have "dispatch (\<lambda>_ _. []) s = (t # fst (dispatch (\<lambda>_ _. []) ?s), snd (dispatch (\<lambda>_ _. []) ?s))"
    using p by (simp add: dispatch.simps [of _ s] Let_def split: prod.split)
  with Suc.hyps(1) [of ?s] Suc.hyps(2) p show ?case by simp
qed

section \<open>Properties\<close>

text \<open>
  C10. Arming and disarming keep the queue well-formed: the active list is ordered by expiry,
  every timer is in at most one list and \<open>timer->list\<close> says in which. After arming, the timer
  is armed at the given time and no other timer changes; after disarming it is in no list.
\<close>

theorem osw_timer_arm_disarm:
  assumes "timers_ok s"
  shows "timers_ok (osw_timer_arm_at_nsec s t n) \<and> timers_ok (osw_timer_disarm s t)
    \<and> set (g_active_list (osw_timer_arm_at_nsec s t n)) = insert t (set (g_active_list s))
    \<and> at_nsec (osw_timer_arm_at_nsec s t n) t = n
    \<and> (\<forall>u. u \<noteq> t \<longrightarrow> at_nsec (osw_timer_arm_at_nsec s t n) u = at_nsec s u
         \<and> osw_timer_is_armed (osw_timer_arm_at_nsec s t n) u = osw_timer_is_armed s u)
    \<and> \<not> osw_timer_is_armed (osw_timer_disarm s t) t
    \<and> set (g_active_list (osw_timer_disarm s t)) = set (g_active_list s) - {t}"
proof -
  have "set (remove1 t (g_active_list s)) = set (g_active_list s) - {t}"
    using assms by (simp add: timers_ok_def)
  with assms show ?thesis
    by (auto simp: arm_ok disarm_ok arm_simps disarm_simps osw_timer_is_armed_def)
qed

definition sample_timers :: "nat osw_timers" where
  "sample_timers = fold do_op [Arm 2 30, Arm 3 10, Arm 4 20]
     \<lparr>at_nsec = (\<lambda>_. 0), timer_list = (\<lambda>_. NullList), g_active_list = [], pending_list = []\<rparr>"

lemma sample_timers_ok: "timers_ok sample_timers" "g_active_list sample_timers = [3, 4, 2]"
  "at_nsec sample_timers 3 = 10" "at_nsec sample_timers 4 = 20" "at_nsec sample_timers 2 = 30"
  "pending_list sample_timers = []"
proof -
  show "timers_ok sample_timers"
    using ops_ok [of "\<lparr>at_nsec = (\<lambda>_. 0), timer_list = (\<lambda>_. NullList), g_active_list = [], pending_list = []\<rparr>"
        "[Arm 2 30, Arm 3 10, Arm (4::nat) 20]"]
    by (simp add: sample_timers_def timers_ok_def)
qed (simp_all add: sample_timers_def osw_timer_arm_at_nsec_def osw_timer_disarm_def Let_def)

theorem osw_timer_arm_disarm_witness:
  "timers_ok (osw_timer_arm_at_nsec sample_timers 2 15) \<and> timers_ok (osw_timer_disarm sample_timers 2)
    \<and> set (g_active_list (osw_timer_disarm sample_timers 2)) = {3, 4}"
  using osw_timer_arm_disarm [OF sample_timers_ok(1), of 2 15] by (auto simp: sample_timers_ok(2))

text \<open>
  \<open>osw_timer_core_get_next_at\<close> returns the earliest expiry of the armed timers, and nothing
  exactly when no timer is in the active list.
\<close>

theorem osw_timer_next_at_earliest:
  assumes "timers_ok s"
  shows "case osw_timer_core_get_next_at s of
      None \<Rightarrow> g_active_list s = []
    | Some at \<Rightarrow> (\<exists>t \<in> set (g_active_list s). at_nsec s t = at)
        \<and> (\<forall>t \<in> set (g_active_list s). at \<le> at_nsec s t)"
  using assms by (auto simp: osw_timer_core_get_next_at_def timers_ok_def split: list.splits)

theorem osw_timer_next_at_earliest_witness:
  "osw_timer_core_get_next_at sample_timers = Some 10
    \<and> 10 \<le> at_nsec sample_timers 4"
proof -
  have "osw_timer_core_get_next_at sample_timers = Some 10"
    by (simp add: osw_timer_core_get_next_at_def sample_timers_ok)
  with osw_timer_next_at_earliest [OF sample_timers_ok(1)] show ?thesis
    by (auto simp: sample_timers_ok(2))
qed

text \<open>
  C11. Whatever the callbacks arm and disarm, a dispatch ends, leaves nothing pending and a
  well-formed queue, and calls only timers that had expired, each at most once and in the
  order of expiry, even if a callback re-arms one in the past. Timers whose callbacks leave the
  queue alone are all called and exactly those that expire later stay armed.
\<close>

theorem osw_timer_dispatch_correct:
  assumes "timers_ok s" "pending_list s = []"
  shows "timers_ok (snd (osw_timer_core_dispatch cb s now))
    \<and> pending_list (snd (osw_timer_core_dispatch cb s now)) = []
    \<and> subseq (fst (osw_timer_core_dispatch cb s now)) (filter (\<lambda>t. at_nsec s t \<le> now) (g_active_list s))
    \<and> distinct (fst (osw_timer_core_dispatch cb s now))
    \<and> fst (osw_timer_core_dispatch (\<lambda>_ _. []) s now) = filter (\<lambda>t. at_nsec s t \<le> now) (g_active_list s)
    \<and> g_active_list (snd (osw_timer_core_dispatch (\<lambda>_ _. []) s now))
        = filter (\<lambda>t. now < at_nsec s t) (g_active_list s)"
proof -
  let ?s = "prepare now (g_active_list s) s"
  have srt: "sorted_wrt (\<lambda>x y. at_nsec s x \<le> at_nsec s y) (g_active_list s)" "distinct (g_active_list s)"
    using assms(1) by (simp_all add: timers_ok_def)
  note p = prepare_ok [OF assms(1) refl, of now, unfolded assms(2) append_Nil
      sorted_takeWhile_filter [OF srt(1)]]
  from dispatch_ok [of ?s cb] p
  have "timers_ok (snd (dispatch cb ?s)) \<and> pending_list (snd (dispatch cb ?s)) = []
     \<and> subseq (fst (dispatch cb ?s)) (filter (\<lambda>t. at_nsec s t \<le> now) (g_active_list s))" by simp
  moreover from this have "distinct (fst (dispatch cb ?s))"
    using srt(2) subseq_distinct distinct_filter by blast
  ultimately show ?thesis
    using dispatch_idle [of ?s] p by (simp add: osw_timer_core_dispatch_def)
qed

theorem osw_timer_dispatch_correct_witness:
  "fst (osw_timer_core_dispatch (\<lambda>_ _. []) sample_timers 25) = [3, 4]
    \<and> g_active_list (snd (osw_timer_core_dispatch (\<lambda>_ _. []) sample_timers 25)) = [2]"
  using osw_timer_dispatch_correct [OF sample_timers_ok(1,6), of "\<lambda>_ _. []" 25]
  by (simp add: sample_timers_ok)

end
