(* ===== verification/Osw_Token.thy ===== *)
theory Osw_Token
  imports Ds_Cmp
begin

text \<open>
  Dialog tokens, \<open>src/src/lib/osw/src/osw_token.c\<close>. A pool per station hands out the 128 tokens
  0x80..0xff; a reference to a pool remembers the tokens it took, so that dropping it returns
  them. The token arrays are two 64-bit words (\<open>long\<close> on the 64-bit targets). The pools are a
  finite map from keys, as a tree with the comparator below is (\<open>Ds_Tree_Api\<close>); references are
  identified by their address \<open>'r\<close>, and the address \<open>CALLOC\<close> returns is an argument.
\<close>

unbundle bit_operations_syntax

section \<open>Model\<close>

record osw_token_pool_key =
  vif_name :: "u8 list"
  sta_addr :: "u8 list"

record 'r osw_token_pool =
  last_bit_used :: nat
  tokens :: "u64 list"
  ref_list :: "'r list"

record osw_token_pool_reference =
  ref_pool :: osw_token_pool_key
  ref_tokens :: "u64 list"

record 'r osw_token =
  g_pool_tree :: "osw_token_pool_key \<rightharpoonup> 'r osw_token_pool"
  references :: "'r \<rightharpoonup> osw_token_pool_reference"

abbreviation OSW_TOKEN_MIN :: int where "OSW_TOKEN_MIN \<equiv> 0x80"
abbreviation OSW_TOKEN_MAX :: int where "OSW_TOKEN_MAX \<equiv> 0xff"
abbreviation OSW_TOKEN_INVALID :: int where "OSW_TOKEN_INVALID \<equiv> - 1"
abbreviation OSW_TOKEN_COUNT :: nat where "OSW_TOKEN_COUNT \<equiv> 128"
abbreviation BITS_PER_LONG :: nat where "BITS_PER_LONG \<equiv> 64"

definition osw_token_count_one_bits :: "u64 list \<Rightarrow> nat" where
  "osw_token_count_one_bits words =
     sum_list (map (\<lambda>w. length (filter (bit w) [0..<BITS_PER_LONG])) words)"

definition osw_token_pool_key_cmp :: "osw_token_pool_key \<Rightarrow> osw_token_pool_key \<Rightarrow> int" where
  "osw_token_pool_key_cmp x y =
     (let vif_cmp = strncmp (vif_name x) (vif_name y) 32;
          addr_cmp = memcmp (sta_addr x) (sta_addr y)
      in if vif_cmp \<noteq> 0 then vif_cmp else if addr_cmp \<noteq> 0 then addr_cmp else 0)"

definition osw_token_pool_alloc_new :: "osw_token_pool_key \<Rightarrow> 'r osw_token \<Rightarrow> 'r osw_token" where
  "osw_token_pool_alloc_new key st =
     st\<lparr>g_pool_tree := (g_pool_tree st)(key \<mapsto>
          \<lparr>last_bit_used = 0, tokens = replicate 2 0, ref_list = []\<rparr>)\<rparr>"

definition osw_token_pool_lookup :: "osw_token_pool_key \<Rightarrow> 'r osw_token \<Rightarrow> 'r osw_token_pool option" where
  "osw_token_pool_lookup key st = g_pool_tree st key"

definition osw_token_pool_get_internal :: "osw_token_pool_key \<Rightarrow> 'r osw_token \<Rightarrow> 'r osw_token" where
  "osw_token_pool_get_internal key st =
     (if osw_token_pool_lookup key st = None then osw_token_pool_alloc_new key st else st)"

definition osw_token_vif_sta_to_key :: "u8 list \<Rightarrow> u8 list \<Rightarrow> osw_token_pool_key" where
  "osw_token_vif_sta_to_key vif sta = \<lparr>vif_name = replicate 32 0, sta_addr = sta\<rparr>"

definition osw_token_pool_ref_get :: "u8 list \<Rightarrow> u8 list \<Rightarrow> 'r \<Rightarrow> 'r osw_token \<Rightarrow> 'r osw_token" where
  "osw_token_pool_ref_get vif sta pool_ref st =
     (let key = osw_token_vif_sta_to_key vif sta;
          st = osw_token_pool_get_internal key st;
          pool = the (g_pool_tree st key)
      in st\<lparr>references := (references st)(pool_ref \<mapsto> \<lparr>ref_pool = key, ref_tokens = replicate 2 0\<rparr>),
            g_pool_tree := (g_pool_tree st)(key \<mapsto> pool\<lparr>ref_list := ref_list pool @ [pool_ref]\<rparr>)\<rparr>)"

text \<open>A pool that still has references or tokens is not freed (a warning in the program).\<close>

definition osw_token_pool_free :: "osw_token_pool_key \<Rightarrow> 'r osw_token \<Rightarrow> 'r osw_token" where
  "osw_token_pool_free key st =
     (case g_pool_tree st key of
        None \<Rightarrow> st
      | Some pool \<Rightarrow>
          (if length (ref_list pool) \<noteq> 0 then st
           else if osw_token_count_one_bits (tokens pool) \<noteq> 0 then st
           else st\<lparr>g_pool_tree := (g_pool_tree st)(key := None)\<rparr>))"

definition osw_token_pool_ref_drop_tokens :: "u64 list \<Rightarrow> u64 list \<Rightarrow> u64 list" where
  "osw_token_pool_ref_drop_tokens pool_tokens held = map2 (\<lambda>p r. p AND NOT r) pool_tokens held"

definition osw_token_pool_ref_free :: "'r \<Rightarrow> 'r osw_token \<Rightarrow> 'r osw_token" where
  "osw_token_pool_ref_free pool_ref st =
     (case references st pool_ref of
        None \<Rightarrow> st
      | Some ref \<Rightarrow>
          (case g_pool_tree st (ref_pool ref) of
             None \<Rightarrow> st
           | Some pool \<Rightarrow>
               (let pool = pool\<lparr>tokens := osw_token_pool_ref_drop_tokens (tokens pool) (ref_tokens ref),
                                ref_list := remove1 pool_ref (ref_list pool)\<rparr>;
                    st = st\<lparr>g_pool_tree := (g_pool_tree st)(ref_pool ref \<mapsto> pool),
                            references := (references st)(pool_ref := None)\<rparr>
                in if length (ref_list pool) = 0 then osw_token_pool_free (ref_pool ref) st else st)))"

definition sub_clamp :: "nat \<Rightarrow> nat \<Rightarrow> nat \<Rightarrow> nat" where
  "sub_clamp x mn mx = (if x \<le> mn then mx - 1 else x - 1)"

definition word_mask :: "nat \<Rightarrow> u64" where
  "word_mask b = push_bit (b mod BITS_PER_LONG) 1"

definition set_bit_at :: "u64 list \<Rightarrow> nat \<Rightarrow> u64 list" where
  "set_bit_at ws b = ws[b div BITS_PER_LONG := ws ! (b div BITS_PER_LONG) OR word_mask b]"

definition clear_bit_at :: "u64 list \<Rightarrow> nat \<Rightarrow> u64 list" where
  "clear_bit_at ws b = ws[b div BITS_PER_LONG := ws ! (b div BITS_PER_LONG) AND NOT (word_mask b)]"

text \<open>
  The search loop: the bit it ends at, the two token arrays and the token. The first argument
  bounds the iterations; 128 always do (\<open>fetch_loop_ok\<close>).
\<close>

fun fetch_loop :: "nat \<Rightarrow> nat \<Rightarrow> nat \<Rightarrow> u64 list \<Rightarrow> u64 list \<Rightarrow> (nat \<times> u64 list \<times> u64 list \<times> int) option" where
  "fetch_loop 0 started_with cur pt rt = None"
| "fetch_loop (Suc n) started_with cur pt rt =
     (let cur = sub_clamp cur 0 OSW_TOKEN_COUNT;
          word = cur div BITS_PER_LONG
      in if pt ! word AND word_mask cur = 0
         then Some (cur, set_bit_at pt cur, set_bit_at rt cur, int cur + OSW_TOKEN_MIN)
         else if started_with \<noteq> cur then fetch_loop n started_with cur pt rt
         else Some (cur, pt, rt, OSW_TOKEN_INVALID))"

definition osw_token_pool_fetch_token :: "'r \<Rightarrow> 'r osw_token \<Rightarrow> (int \<times> 'r osw_token) option" where
  "osw_token_pool_fetch_token pool_ref st =
     (case references st pool_ref of
        None \<Rightarrow> Some (OSW_TOKEN_INVALID, st)
      | Some ref \<Rightarrow>
          (case g_pool_tree st (ref_pool ref) of
             None \<Rightarrow> Some (OSW_TOKEN_INVALID, st)
           | Some pool \<Rightarrow>
               (case fetch_loop OSW_TOKEN_COUNT (last_bit_used pool) (last_bit_used pool)
                       (tokens pool) (ref_tokens ref) of
                  None \<Rightarrow> None
                | Some (cur, pt, rt, new_token) \<Rightarrow>
                    Some (new_token,
                      st\<lparr>g_pool_tree := (g_pool_tree st)(ref_pool ref \<mapsto>
                            pool\<lparr>last_bit_used := cur, tokens := pt\<rparr>),
                         references := (references st)(pool_ref \<mapsto> ref\<lparr>ref_tokens := rt\<rparr>)\<rparr>))))"

definition osw_token_pool_free_token :: "'r \<Rightarrow> int \<Rightarrow> 'r osw_token \<Rightarrow> 'r osw_token" where
  "osw_token_pool_free_token pool_ref token st =
     (case references st pool_ref of
        None \<Rightarrow> st
      | Some ref \<Rightarrow>
          (case g_pool_tree st (ref_pool ref) of
             None \<Rightarrow> st
           | Some pool \<Rightarrow>
               (if token = OSW_TOKEN_INVALID then st
                else if token < OSW_TOKEN_MIN then st
                else if token > OSW_TOKEN_MAX then st
                else
                  let b = nat (token - OSW_TOKEN_MIN) in
                  if ref_tokens ref ! (b div BITS_PER_LONG) AND word_mask b = 0 then st
                  else st\<lparr>g_pool_tree := (g_pool_tree st)(ref_pool ref \<mapsto>
                              pool\<lparr>tokens := clear_bit_at (tokens pool) b\<rparr>),
                          references := (references st)(pool_ref \<mapsto>
                              ref\<lparr>ref_tokens := clear_bit_at (ref_tokens ref) b\<rparr>)\<rparr>)))"

interpretation token_cmp: key_cmp osw_token_pool_key_cmp
proof -
  have "key_cmp (\<lambda>(x :: osw_token_pool_key) y. strncmp (vif_name x) (vif_name y) 32)"
    using key_cmp_on [OF key_cmp_lex, of "\<lambda>x :: osw_token_pool_key. cstr (take 32 (vif_name x))"] by (simp add: strncmp_def)
  moreover have "key_cmp (\<lambda>(x :: osw_token_pool_key) y. memcmp (sta_addr x) (sta_addr y))"
    using key_cmp_on [OF key_cmp_lex, of "sta_addr :: osw_token_pool_key \<Rightarrow> _"] by (simp add: memcmp_def)
  ultimately have "key_cmp (\<lambda>(x :: osw_token_pool_key) y. if strncmp (vif_name x) (vif_name y) 32 \<noteq> 0
      then strncmp (vif_name x) (vif_name y) 32 else memcmp (sta_addr x) (sta_addr y))"
    by (rule key_cmp_then)
  moreover have "osw_token_pool_key_cmp = (\<lambda>x y. if strncmp (vif_name x) (vif_name y) 32 \<noteq> 0
      then strncmp (vif_name x) (vif_name y) 32 else memcmp (sta_addr x) (sta_addr y))"
    by (intro ext) (simp add: osw_token_pool_key_cmp_def Let_def)
  ultimately show "key_cmp osw_token_pool_key_cmp" by simp
qed

section \<open>Token arrays as sets of bits\<close>

definition tbit :: "u64 list \<Rightarrow> nat \<Rightarrow> bool" where
  "tbit ws b \<longleftrightarrow> bit (ws ! (b div BITS_PER_LONG)) (b mod BITS_PER_LONG)"

lemma mask_test: "w AND word_mask b = 0 \<longleftrightarrow> \<not> bit w (b mod 64)"
  by (simp add: word_mask_def bit_iff_and_push_bit_not_eq_0)

lemma bit_word_mask: "bit (word_mask b) n \<longleftrightarrow> n = b mod 64"
  by (auto simp: word_mask_def bit_exp_iff possible_bit_word)

lemma div_mod_eq: "b div 64 = c div 64 \<Longrightarrow> b mod 64 = c mod 64 \<Longrightarrow> b = (c :: nat)"
  by (metis div_mult_mod_eq)

lemma tbit_set:
  assumes "length ws = 2" "b < 128"
  shows "tbit (set_bit_at ws b) c \<longleftrightarrow> c = b \<or> tbit ws c"
proof -
  have "b div 64 < 2" using assms by simp
  then show ?thesis using assms div_mod_eq [of c b]
    by (auto simp: tbit_def set_bit_at_def nth_list_update bit_or_iff bit_word_mask)
qed

lemma tbit_clear:
  assumes "length ws = 2" "b < 128"
  shows "tbit (clear_bit_at ws b) c \<longleftrightarrow> c \<noteq> b \<and> tbit ws c"
proof -
  have "b div 64 < 2" using assms by simp
  then show ?thesis using assms div_mod_eq [of c b]
    by (auto simp: tbit_def clear_bit_at_def nth_list_update bit_and_iff bit_not_iff bit_word_mask)
qed

lemma tbit_drop:
  assumes "length ws = 2" "length rs = 2" "c < 128"
  shows "tbit (osw_token_pool_ref_drop_tokens ws rs) c \<longleftrightarrow> tbit ws c \<and> \<not> tbit rs c"
proof -
  have "c div 64 < 2" using assms by simp
  then show ?thesis using assms
    by (auto simp: tbit_def osw_token_pool_ref_drop_tokens_def bit_and_iff bit_not_iff)
qed

lemma tbit_zero [simp]: "b < 128 \<Longrightarrow> \<not> tbit (replicate 2 0) b"
  by (simp add: tbit_def)

lemma length_upd [simp]:
  "length (set_bit_at ws b) = length ws" "length (clear_bit_at ws b) = length ws"
  "length (osw_token_pool_ref_drop_tokens ws rs) = min (length ws) (length rs)"
  by (simp_all add: set_bit_at_def clear_bit_at_def osw_token_pool_ref_drop_tokens_def)

lemma count_zero:
  assumes "length ws = 2" "\<forall>b < 128. \<not> tbit ws b"
  shows "osw_token_count_one_bits ws = 0"
proof -
  have "\<not> bit (ws ! i) j" if "i < 2" "j < 64" for i j
    using assms(2) [rule_format, of "64 * i + j"] that by (simp add: tbit_def)
  then have "\<forall>w \<in> set ws. filter (bit w) [0..<64] = []"
    using assms(1) by (auto simp: in_set_conv_nth filter_empty_conv)
  then show ?thesis by (simp add: osw_token_count_one_bits_def)
qed

section \<open>The search\<close>

text \<open>The bits the loop still has to look at: \<open>d\<close> of them, downwards from \<open>l\<close>.\<close>

definition ahead :: "nat \<Rightarrow> nat \<Rightarrow> nat set" where
  "ahead l d = (if d \<le> l then {l - d..<l} else {0..<l} \<union> {l + 128 - d..<128})"

definition ahead_end :: "nat \<Rightarrow> nat \<Rightarrow> nat" where
  "ahead_end l d = (if d \<le> l then l - d else l + 128 - d)"

lemma ahead_step:
  assumes "l < 128" "1 \<le> d" "d \<le> 128"
  shows "ahead l d = insert (sub_clamp l 0 128) (ahead (sub_clamp l 0 128) (d - 1))"
  using assms by (cases l) (auto simp: ahead_def sub_clamp_def)

lemma ahead_end_step:
  assumes "l < 128" "1 \<le> d" "d \<le> 128"
  shows "ahead_end l d = sub_clamp l 0 128 \<longleftrightarrow> d = 1"
    "1 < d \<Longrightarrow> ahead_end (sub_clamp l 0 128) (d - 1) = ahead_end l d"
  using assms by (cases l; auto simp: ahead_end_def sub_clamp_def)+

lemma ahead_all: "l < 128 \<Longrightarrow> ahead l 128 = {0..<128}"
  by (auto simp: ahead_def)

lemma ahead_one: "l < 128 \<Longrightarrow> ahead l 1 = {sub_clamp l 0 128}"
  by (cases l) (auto simp: ahead_def sub_clamp_def)

lemma fetch_loop_ok:
  assumes "l < 128" "1 \<le> d" "d \<le> 128" "s = ahead_end l d" "d \<le> n" "length pt = 2" "length rt = 2"
  shows "\<exists>l' pt' rt' tok. fetch_loop n s l pt rt = Some (l', pt', rt', tok) \<and> l' < 128 \<and>
    ((tok = - 1 \<and> pt' = pt \<and> rt' = rt \<and> (\<forall>b \<in> ahead l d. tbit pt b)) \<or>
     (\<exists>b \<in> ahead l d. b < 128 \<and> \<not> tbit pt b \<and> tok = int b + 128 \<and> pt' = set_bit_at pt b \<and> rt' = set_bit_at rt b))"
  using assms
proof (induction n arbitrary: l d)
  case (Suc n)
  define b where "b = sub_clamp l 0 128"
  have b: "b < 128" using Suc.prems(1) by (auto simp: b_def sub_clamp_def)
  note step = ahead_step [OF Suc.prems(1-3), folded b_def]
  note fin = ahead_end_step [OF Suc.prems(1-3), folded b_def]
  have test: "pt ! (b div 64) AND word_mask b = 0 \<longleftrightarrow> \<not> tbit pt b" by (simp add: mask_test tbit_def)
  show ?case
  proof (cases "tbit pt b")
    case False
    then show ?thesis using b step test by (simp add: Let_def b_def [symmetric])
  next
    case True
    show ?thesis
    proof (cases "d = 1")
      case d: True
      then have "s = b" using Suc.prems fin by simp
      moreover have "ahead l d = {b}" using ahead_one [OF Suc.prems(1)] d b_def by simp
      ultimately show ?thesis using True b test by (simp add: Let_def b_def [symmetric])
    next
      case False
      then have "s \<noteq> b" and s: "s = ahead_end b (d - 1)" using fin Suc.prems by auto
      then have eq: "fetch_loop (Suc n) s l pt rt = fetch_loop n s b pt rt"
        using True test by (simp add: Let_def b_def [symmetric])
      from Suc.IH [OF b _ _ s _ Suc.prems(6,7)] Suc.prems False
      show ?thesis unfolding eq step using True by fastforce
    qed
  qed
qed simp

section \<open>Invariant\<close>

text \<open>The references to a pool and the tokens they hold.\<close>

definition owners :: "'r osw_token \<Rightarrow> osw_token_pool_key \<Rightarrow> 'r set" where
  "owners st key = {r. \<exists>ref. references st r = Some ref \<and> ref_pool ref = key}"

definition held :: "'r osw_token \<Rightarrow> 'r \<Rightarrow> nat \<Rightarrow> bool" where
  "held st r b \<longleftrightarrow> (\<exists>ref. references st r = Some ref \<and> tbit (ref_tokens ref) b)"

definition pool_ok :: "'r osw_token \<Rightarrow> osw_token_pool_key \<Rightarrow> 'r osw_token_pool \<Rightarrow> bool" where
  "pool_ok st key pool \<longleftrightarrow> last_bit_used pool < 128 \<and> length (tokens pool) = 2
     \<and> ref_list pool \<noteq> [] \<and> distinct (ref_list pool) \<and> set (ref_list pool) = owners st key
     \<and> (\<forall>b < 128. tbit (tokens pool) b \<longleftrightarrow> (\<exists>r \<in> owners st key. held st r b))"

definition token_ok :: "'r osw_token \<Rightarrow> bool" where
  "token_ok st \<longleftrightarrow>
     (\<forall>key pool. g_pool_tree st key = Some pool \<longrightarrow> pool_ok st key pool)
     \<and> (\<forall>r ref. references st r = Some ref \<longrightarrow>
          length (ref_tokens ref) = 2 \<and> g_pool_tree st (ref_pool ref) \<noteq> None)
     \<and> (\<forall>key r r' b. r \<in> owners st key \<and> r' \<in> owners st key \<and> r \<noteq> r' \<and> b < 128 \<longrightarrow>
          \<not> (held st r b \<and> held st r' b))"

text \<open>The states the module can be in: the four calls, in any order, by live references.\<close>

inductive token_reach :: "'r osw_token \<Rightarrow> bool" where
  start: "token_reach \<lparr>g_pool_tree = Map.empty, references = Map.empty\<rparr>"
| get: "token_reach st \<Longrightarrow> references st r = None \<Longrightarrow> token_reach (osw_token_pool_ref_get vif sta r st)"
| free: "token_reach st \<Longrightarrow> token_reach (osw_token_pool_ref_free r st)"
| fetch: "token_reach st \<Longrightarrow> osw_token_pool_fetch_token r st = Some (tok, st') \<Longrightarrow> token_reach st'"
| free_token: "token_reach st \<Longrightarrow> token_reach (osw_token_pool_free_token r tok st)"

lemma token_okI:
  assumes "\<And>key pool. g_pool_tree st key = Some pool \<Longrightarrow> pool_ok st key pool"
    "\<And>r ref. references st r = Some ref \<Longrightarrow> length (ref_tokens ref) = 2 \<and> g_pool_tree st (ref_pool ref) \<noteq> None"
    "\<And>key r r' b. r \<in> owners st key \<Longrightarrow> r' \<in> owners st key \<Longrightarrow> r \<noteq> r' \<Longrightarrow> b < 128 \<Longrightarrow>
       \<not> (held st r b \<and> held st r' b)"
  shows "token_ok st"
  using assms unfolding token_ok_def by blast

lemma token_okD:
  assumes "token_ok st" "references st r = Some ref"
  obtains pool where "g_pool_tree st (ref_pool ref) = Some pool" "pool_ok st (ref_pool ref) pool"
    "length (ref_tokens ref) = 2" "r \<in> set (ref_list pool)"
proof -
  obtain pool where p: "g_pool_tree st (ref_pool ref) = Some pool" "length (ref_tokens ref) = 2"
    using assms by (fastforce simp: token_ok_def)
  from p(1) have po: "pool_ok st (ref_pool ref) pool" using assms(1) by (simp add: token_ok_def)
  then have "r \<in> set (ref_list pool)" using assms(2) by (auto simp: pool_ok_def owners_def)
  with p po show ?thesis by (intro that)
qed

text \<open>A change of the token arrays of one reference and its pool.\<close>

lemma token_ok_update:
  assumes ok: "token_ok st" and r: "references st r = Some ref" "g_pool_tree st (ref_pool ref) = Some pool"
    and l: "length rt = 2" "length pt = 2" "cur < 128"
    and pt: "\<And>b. b < 128 \<Longrightarrow> tbit pt b \<longleftrightarrow> tbit rt b \<or> tbit (tokens pool) b \<and> \<not> tbit (ref_tokens ref) b"
    and rt: "\<And>b. b < 128 \<Longrightarrow> tbit rt b \<Longrightarrow> tbit (ref_tokens ref) b \<or> \<not> tbit (tokens pool) b"
  shows "token_ok (st\<lparr>g_pool_tree := (g_pool_tree st)(ref_pool ref \<mapsto> pool\<lparr>last_bit_used := cur, tokens := pt\<rparr>),
      references := (references st)(r \<mapsto> ref\<lparr>ref_tokens := rt\<rparr>)\<rparr>)"
    (is "token_ok ?st")
proof -
  let ?k = "ref_pool ref"
  have po: "pool_ok st ?k pool" using ok r by (simp add: token_ok_def)
  have own [simp]: "owners ?st key = owners st key" for key
    using r(1) by (auto simp: owners_def)
  have held [simp]: "held ?st r' b \<longleftrightarrow> (if r' = r then tbit rt b else held st r' b)" for r' b
    by (auto simp: held_def)
  have hr: "held st r b \<longleftrightarrow> tbit (ref_tokens ref) b" for b using r(1) by (simp add: held_def)
  have rk: "r \<in> owners st key \<longleftrightarrow> key = ?k" for key using r(1) by (auto simp: owners_def)
  have ex: "tbit (tokens pool) b \<longleftrightarrow> (\<exists>r' \<in> owners st ?k. held st r' b)" if "b < 128" for b
    using po that by (simp add: pool_ok_def)
  have dis: "\<not> held st r' b" if "r' \<in> owners st ?k" "r' \<noteq> r" "b < 128" "tbit (ref_tokens ref) b" for r' b
    using ok that rk hr unfolding token_ok_def by blast
  have new: "tbit pt b \<longleftrightarrow> (\<exists>r' \<in> owners st ?k. if r' = r then tbit rt b else held st r' b)" if "b < 128" for b
    using pt [OF that] ex [OF that] dis [OF _ _ that] hr [of b] rk [of ?k] by auto
  have pools: "pool_ok ?st key p" if "g_pool_tree ?st key = Some p" for key p
  proof (cases "key = ?k")
    case True
    then have p: "p = pool\<lparr>last_bit_used := cur, tokens := pt\<rparr>" using that by simp
    show ?thesis using po l new True unfolding p by (simp add: pool_ok_def)
  next
    case False
    then have "pool_ok st key p" using ok that by (simp add: token_ok_def)
    moreover have "(\<exists>r' \<in> owners st key. if r' = r then tbit rt b else held st r' b)
        \<longleftrightarrow> (\<exists>r' \<in> owners st key. held st r' b)" for b
      using rk [of key] False by metis
    ultimately show ?thesis by (simp add: pool_ok_def)
  qed
  have excl: "\<not> (held ?st r1 b \<and> held ?st r2 b)"
    if "r1 \<in> owners st key" "r2 \<in> owners st key" "r1 \<noteq> r2" "b < 128" for key r1 r2 b
  proof -
    have old: "\<not> (held st r1 b \<and> held st r2 b)" using ok that unfolding token_ok_def by blast
    have "\<not> held st r' b" if "r' \<in> owners st ?k" "r' \<noteq> r" "tbit rt b" for r'
      using rt [OF \<open>b < 128\<close> that(3)] ex [OF \<open>b < 128\<close>] dis that \<open>b < 128\<close> by blast
    with old that rk show ?thesis by auto
  qed
  have refs: "length (ref_tokens ref') = 2 \<and> g_pool_tree ?st (ref_pool ref') \<noteq> None"
    if "references ?st r' = Some ref'" for r' ref'
    using that ok l unfolding token_ok_def by (auto split: if_splits)
  show ?thesis
  proof (rule token_okI)
    fix key r1 r2 and b :: nat
    assume "r1 \<in> owners ?st key" "r2 \<in> owners ?st key" "r1 \<noteq> r2" "b < 128"
    then show "\<not> (held ?st r1 b \<and> held ?st r2 b)" using excl [of r1 key r2 b] unfolding own by blast
  qed (use pools refs in blast)+
qed

lemma fetch_ok:
  assumes ok: "token_ok st" and r: "references st r = Some ref"
  shows "\<exists>tok st'. osw_token_pool_fetch_token r st = Some (tok, st') \<and> token_ok st' \<and>
    (if tok = OSW_TOKEN_INVALID then \<forall>b < 128. \<exists>r' \<in> owners st (ref_pool ref). held st r' b
     else OSW_TOKEN_MIN \<le> tok \<and> tok \<le> OSW_TOKEN_MAX
       \<and> (\<forall>r' \<in> owners st (ref_pool ref). \<not> held st r' (nat (tok - OSW_TOKEN_MIN)))
       \<and> held st' r (nat (tok - OSW_TOKEN_MIN)))"
proof -
  obtain pool where p: "g_pool_tree st (ref_pool ref) = Some pool" "pool_ok st (ref_pool ref) pool"
    "length (ref_tokens ref) = 2" by (rule token_okD [OF ok r])
  let ?l = "last_bit_used pool" and ?st = "\<lambda>l pt rt. st\<lparr>g_pool_tree := (g_pool_tree st)(ref_pool ref \<mapsto>
            pool\<lparr>last_bit_used := l, tokens := pt\<rparr>), references := (references st)(r \<mapsto> ref\<lparr>ref_tokens := rt\<rparr>)\<rparr>"
  have l: "?l < 128" "length (tokens pool) = 2" using p(2) by (simp_all add: pool_ok_def)
  have all: "tbit (tokens pool) b \<longleftrightarrow> (\<exists>r' \<in> owners st (ref_pool ref). held st r' b)" if "b < 128" for b
    using p(2) that by (simp add: pool_ok_def)
  have "?l = ahead_end ?l 128" using l by (simp add: ahead_end_def)
  from fetch_loop_ok [OF l(1) _ _ this, of 128 "tokens pool" "ref_tokens ref"] l p(3) ahead_all [OF l(1)]
  obtain l' pt rt tok where f: "fetch_loop 128 ?l ?l (tokens pool) (ref_tokens ref) = Some (l', pt, rt, tok)" "l' < 128"
    and c: "(tok = - 1 \<and> pt = tokens pool \<and> rt = ref_tokens ref \<and> (\<forall>b < 128. tbit (tokens pool) b)) \<or>
     (\<exists>b < 128. \<not> tbit (tokens pool) b \<and> tok = int b + 128 \<and> pt = set_bit_at (tokens pool) b
        \<and> rt = set_bit_at (ref_tokens ref) b)"
    by fastforce
  have e: "osw_token_pool_fetch_token r st = Some (tok, ?st l' pt rt)"
    using r p(1) f(1) by (simp add: osw_token_pool_fetch_token_def)
  from c show ?thesis
  proof
    assume a: "tok = - 1 \<and> pt = tokens pool \<and> rt = ref_tokens ref \<and> (\<forall>b < 128. tbit (tokens pool) b)"
    have "r \<in> owners st (ref_pool ref)" using r by (simp add: owners_def)
    then have "token_ok (?st l' pt rt)" using a all r
      by (intro token_ok_update [OF ok r p(1) _ _ f(2)]) (auto simp: p(3) l(2) held_def)
    with a e all show ?thesis by auto
  next
    assume "\<exists>b < 128. \<not> tbit (tokens pool) b \<and> tok = int b + 128 \<and> pt = set_bit_at (tokens pool) b
        \<and> rt = set_bit_at (ref_tokens ref) b"
    then obtain b where b: "b < 128" "\<not> tbit (tokens pool) b" "tok = int b + 128"
      "pt = set_bit_at (tokens pool) b" "rt = set_bit_at (ref_tokens ref) b" by blast
    have "r \<in> owners st (ref_pool ref)" using r by (simp add: owners_def)
    then have sub: "tbit (ref_tokens ref) b' \<Longrightarrow> b' < 128 \<Longrightarrow> tbit (tokens pool) b'" for b'
      using all r by (auto simp: held_def)
    have "token_ok (?st l' pt rt)" using b sub
      by (intro token_ok_update [OF ok r p(1) _ _ f(2)])
        (auto simp: p(3) l(2) tbit_set [OF l(2) b(1)] tbit_set [OF p(3) b(1)])
    moreover have "held (?st l' pt rt) r b" using b tbit_set [OF p(3) b(1)] by (simp add: held_def)
    ultimately show ?thesis using e b all [OF b(1)] by auto
  qed
qed

lemma free_token_ok:
  assumes ok: "token_ok st"
  shows "token_ok (osw_token_pool_free_token r tok st)"
proof (cases "references st r")
  case None
  with ok show ?thesis by (simp add: osw_token_pool_free_token_def)
next
  case (Some ref)
  obtain pool where p: "g_pool_tree st (ref_pool ref) = Some pool" "pool_ok st (ref_pool ref) pool"
    "length (ref_tokens ref) = 2" by (rule token_okD [OF ok Some])
  let ?b = "nat (tok - 128)"
  show ?thesis
  proof (cases "128 \<le> tok \<and> tok \<le> 255 \<and> tbit (ref_tokens ref) ?b")
    case True
    then have b: "?b < 128" by auto
    have l: "last_bit_used pool < 128" "length (tokens pool) = 2" using p(2) by (simp_all add: pool_ok_def)
    have e: "osw_token_pool_free_token r tok st = st\<lparr>g_pool_tree := (g_pool_tree st)(ref_pool ref \<mapsto>
        pool\<lparr>last_bit_used := last_bit_used pool, tokens := clear_bit_at (tokens pool) ?b\<rparr>),
        references := (references st)(r \<mapsto> ref\<lparr>ref_tokens := clear_bit_at (ref_tokens ref) ?b\<rparr>)\<rparr>"
      using True Some p(1) by (simp add: osw_token_pool_free_token_def Let_def mask_test tbit_def)
    have "r \<in> owners st (ref_pool ref)" using Some by (simp add: owners_def)
    then have sub: "tbit (ref_tokens ref) b' \<Longrightarrow> b' < 128 \<Longrightarrow> tbit (tokens pool) b'" for b'
      using p(2) Some by (auto simp: held_def pool_ok_def)
    show ?thesis unfolding e using True sub
      by (intro token_ok_update [OF ok Some p(1) _ _ l(1)])
        (auto simp: p(3) l(2) tbit_clear [OF l(2) b] tbit_clear [OF p(3) b])
  next
    case False
    then have "osw_token_pool_free_token r tok st = st"
      using Some p(1) by (auto simp: osw_token_pool_free_token_def Let_def mask_test tbit_def)
    with ok show ?thesis by simp
  qed
qed

lemma ref_get_ok:
  assumes ok: "token_ok st" and fresh: "references st r = None"
  shows "token_ok (osw_token_pool_ref_get vif sta r st)"
proof -
  define key where "key = osw_token_vif_sta_to_key vif sta"
  define pool where "pool = (case g_pool_tree st key of Some p \<Rightarrow> p
    | None \<Rightarrow> \<lparr>last_bit_used = 0, tokens = replicate 2 0, ref_list = []\<rparr>)"
  define st' where "st' = st\<lparr>g_pool_tree := (g_pool_tree st)(key \<mapsto> pool\<lparr>ref_list := ref_list pool @ [r]\<rparr>),
      references := (references st)(r \<mapsto> \<lparr>ref_pool = key, ref_tokens = replicate 2 0\<rparr>)\<rparr>"
  have e: "osw_token_pool_ref_get vif sta r st = st'"
    by (cases "g_pool_tree st key")
      (auto simp: osw_token_pool_ref_get_def osw_token_pool_get_internal_def osw_token_pool_lookup_def
        osw_token_pool_alloc_new_def key_def [symmetric] pool_def st'_def Let_def)
  have own: "owners st' k = (if k = key then insert r (owners st k) else owners st k)" for k
    using fresh by (auto simp: owners_def st'_def)
  have nr: "r \<notin> owners st k" for k using fresh by (simp add: owners_def)
  have held: "b < 128 \<Longrightarrow> held st' r' b \<longleftrightarrow> r' \<noteq> r \<and> held st r' b" for r' b
    using fresh by (auto simp: held_def st'_def)
  have exs: "b < 128 \<Longrightarrow> (\<exists>r' \<in> owners st' k. held st' r' b) \<longleftrightarrow> (\<exists>r' \<in> owners st k. held st r' b)" for k b
    using held own nr by (metis insert_iff)
  have oe: "owners st key = {}" if "g_pool_tree st key = None"
    using that ok by (fastforce simp: token_ok_def owners_def)
  have pool: "last_bit_used pool < 128 \<and> length (tokens pool) = 2 \<and> distinct (ref_list pool)
      \<and> set (ref_list pool) = owners st key
      \<and> (\<forall>b < 128. tbit (tokens pool) b \<longleftrightarrow> (\<exists>r \<in> owners st key. held st r b))"
  proof (cases "g_pool_tree st key")
    case None
    with oe show ?thesis by (simp add: pool_def)
  next
    case (Some p)
    with ok have "pool_ok st key p" by (simp add: token_ok_def)
    with Some show ?thesis by (simp add: pool_def pool_ok_def)
  qed
  show ?thesis unfolding e
  proof (rule token_okI)
    fix k p
    assume g: "g_pool_tree st' k = Some p"
    show "pool_ok st' k p"
    proof (cases "k = key")
      case True
      then have p: "p = pool\<lparr>ref_list := ref_list pool @ [r]\<rparr>" using g by (simp add: st'_def)
      show ?thesis unfolding p using True pool nr [of key] by (simp add: pool_ok_def exs) (simp add: own)
    next
      case False
      then have "pool_ok st k p" using g ok by (simp add: st'_def token_ok_def)
      with False show ?thesis by (simp add: pool_ok_def exs) (simp add: own)
    qed
  next
    fix r' ref
    assume "references st' r' = Some ref"
    then show "length (ref_tokens ref) = 2 \<and> g_pool_tree st' (ref_pool ref) \<noteq> None"
      using ok unfolding token_ok_def by (auto simp: st'_def split: if_splits)
  next
    fix k r1 r2 and b :: nat
    assume a: "r1 \<in> owners st' k" "r2 \<in> owners st' k" "r1 \<noteq> r2" "b < 128"
    then have "r1 = r \<or> r2 = r \<or> \<not> (held st r1 b \<and> held st r2 b)"
      using ok unfolding own token_ok_def by (auto split: if_splits)
    then show "\<not> (held st' r1 b \<and> held st' r2 b)" unfolding held [OF a(4)] by blast
  qed
qed

lemma ref_free_ok:
  assumes ok: "token_ok st"
  shows "token_ok (osw_token_pool_ref_free r st)"
proof (cases "references st r")
  case None
  with ok show ?thesis by (simp add: osw_token_pool_ref_free_def)
next
  case (Some ref)
  define key where "key = ref_pool ref"
  obtain pool where p: "g_pool_tree st key = Some pool" "pool_ok st key pool"
    "length (ref_tokens ref) = 2" unfolding key_def by (rule token_okD [OF ok Some])
  define pool' where "pool' = pool\<lparr>tokens := osw_token_pool_ref_drop_tokens (tokens pool) (ref_tokens ref),
      ref_list := remove1 r (ref_list pool)\<rparr>"
  define st1 where "st1 = st\<lparr>g_pool_tree := (g_pool_tree st)(key \<mapsto> pool'), references := (references st)(r := None)\<rparr>"
  define st' where "st' = (if ref_list pool' = [] then st1\<lparr>g_pool_tree := (g_pool_tree st)(key := None)\<rparr> else st1)"
  have own: "owners st1 k = owners st k - {r}" "owners st' k = owners st k - {r}" for k
    by (auto simp: owners_def st'_def st1_def)
  have rk: "r \<in> owners st k \<longleftrightarrow> k = key" for k using Some by (auto simp: owners_def key_def)
  have held: "held st1 r' b \<longleftrightarrow> r' \<noteq> r \<and> held st r' b" "held st' r' b \<longleftrightarrow> r' \<noteq> r \<and> held st r' b" for r' b
    by (auto simp: held_def st'_def st1_def)
  have hr: "held st r b \<longleftrightarrow> tbit (ref_tokens ref) b" for b using Some by (simp add: held_def)
  have excl: "\<not> (held st r1 b \<and> held st r2 b)" if "r1 \<in> owners st k" "r2 \<in> owners st k" "r1 \<noteq> r2" "b < 128" for k r1 r2 b
    using ok that unfolding token_ok_def by blast
  have pool': "last_bit_used pool' < 128" "length (tokens pool') = 2" "distinct (ref_list pool')"
      "set (ref_list pool') = owners st key - {r}"
    using p(2,3) by (auto simp: pool_ok_def pool'_def)
  have bits: "tbit (tokens pool') b \<longleftrightarrow> (\<exists>r' \<in> owners st key - {r}. held st r' b)" if "b < 128" for b
  proof -
    have "tbit (tokens pool') b \<longleftrightarrow> (\<exists>r' \<in> owners st key. held st r' b) \<and> \<not> held st r b"
      using p(2,3) that by (simp add: pool'_def pool_ok_def tbit_drop hr)
    moreover have "r' \<in> owners st key \<Longrightarrow> r' \<noteq> r \<Longrightarrow> held st r b \<Longrightarrow> \<not> held st r' b" for r'
      using excl [of r' key r b] rk [of key] that by blast
    ultimately show ?thesis by blast
  qed
  have exs: "(\<exists>r' \<in> owners st' k. held st' r' b) \<longleftrightarrow> (\<exists>r' \<in> owners st k - {r}. held st r' b)" for k b
    unfolding own(2) using held(2) by blast
  have e: "osw_token_pool_ref_free r st = st'"
  proof (cases "ref_list pool' = []")
    case True
    then have "\<forall>b < 128. \<not> tbit (tokens pool') b" using bits pool'(4) by auto
    then have "osw_token_count_one_bits (tokens pool') = 0" using pool'(2) by (intro count_zero)
    with True Some p(1) show ?thesis
      by (simp add: osw_token_pool_ref_free_def osw_token_pool_free_def Let_def st'_def st1_def pool'_def key_def [symmetric])
  next
    case False
    with Some p(1) show ?thesis
      by (simp add: osw_token_pool_ref_free_def Let_def st'_def st1_def pool'_def key_def [symmetric])
  qed
  show ?thesis unfolding e
  proof (rule token_okI)
    fix k q
    assume g: "g_pool_tree st' k = Some q"
    show "pool_ok st' k q"
    proof (cases "k = key")
      case True
      with g have q: "q = pool'" "ref_list pool' \<noteq> []" by (auto simp: st'_def st1_def split: if_splits)
      show ?thesis unfolding q(1) using True q(2) pool' bits by (simp add: pool_ok_def exs) (simp add: own(2))
    next
      case False
      then have "pool_ok st k q" using g ok by (auto simp: st'_def st1_def token_ok_def split: if_splits)
      moreover have "owners st k - {r} = owners st k" using False rk by simp
      ultimately show ?thesis by (simp add: pool_ok_def exs) (simp add: own(2))
    qed
  next
    fix r' ref'
    assume a: "references st' r' = Some ref'"
    then have s: "references st r' = Some ref'" "r' \<noteq> r" by (auto simp: st'_def st1_def split: if_splits)
    then have "length (ref_tokens ref') = 2 \<and> g_pool_tree st (ref_pool ref') \<noteq> None" using ok unfolding token_ok_def by blast
    moreover have "ref_list pool' \<noteq> []" if "ref_pool ref' = key"
    proof -
      have "r' \<in> set (ref_list pool')" using pool'(4) s that by (auto simp: owners_def)
      then show ?thesis by auto
    qed
    ultimately show "length (ref_tokens ref') = 2 \<and> g_pool_tree st' (ref_pool ref') \<noteq> None"
      by (auto simp: st'_def st1_def)
  next
    fix k r1 r2 and b :: nat
    assume "r1 \<in> owners st' k" "r2 \<in> owners st' k" "r1 \<noteq> r2" "b < 128"
    then show "\<not> (held st' r1 b \<and> held st' r2 b)"
      unfolding own(2) held(2) using excl [of r1 k r2 b] by blast
  qed
qed

lemma reach_ok: "token_reach st \<Longrightarrow> token_ok st"
proof (induction rule: token_reach.induct)
  case start
  show ?case by (rule token_okI) (simp_all add: owners_def)
next
  case (fetch st r tok st')
  then show ?case
  proof (cases "references st r")
    case None
    with fetch show ?thesis by (simp add: osw_token_pool_fetch_token_def)
  next
    case (Some ref)
    with fetch fetch_ok [OF fetch.IH Some] show ?thesis by auto
  qed
qed (simp_all add: ref_get_ok ref_free_ok free_token_ok)

section \<open>Properties\<close>

text \<open>A state with two references to one station, the first of which took a token.\<close>

definition sample_tokens :: "nat osw_token" where
  "sample_tokens = snd (the (osw_token_pool_fetch_token 1
     (osw_token_pool_ref_get [] [1, 2, 3, 4, 5, 6] 2
       (osw_token_pool_ref_get [] [1, 2, 3, 4, 5, 6] 1
         \<lparr>g_pool_tree = Map.empty, references = Map.empty\<rparr>))))"

lemma sample_tokens_reach: "token_reach sample_tokens"
proof -
  let ?st = "osw_token_pool_ref_get [] [1, 2, 3, 4, 5, 6] 2
       (osw_token_pool_ref_get [] [1, 2, 3, 4, 5, 6] 1
         \<lparr>g_pool_tree = Map.empty, references = Map.empty\<rparr>) :: nat osw_token"
  have r: "token_reach ?st"
    by (intro token_reach.get token_reach.start)
      (simp_all add: osw_token_pool_ref_get_def osw_token_pool_get_internal_def
        osw_token_pool_lookup_def osw_token_pool_alloc_new_def Let_def)
  have "references ?st 1 = Some \<lparr>ref_pool = osw_token_vif_sta_to_key [] [1, 2, 3, 4, 5, 6], ref_tokens = replicate 2 0\<rparr>"
    by (simp add: osw_token_pool_ref_get_def osw_token_pool_get_internal_def
        osw_token_pool_lookup_def osw_token_pool_alloc_new_def Let_def)
  from fetch_ok [OF reach_ok [OF r] this] obtain tok st'
    where f: "osw_token_pool_fetch_token 1 ?st = Some (tok, st')" by blast
  from token_reach.fetch [OF r f] f show ?thesis by (simp add: sample_tokens_def)
qed

lemma sample_tokens_refs:
  "\<not> Option.is_none (references sample_tokens 1)" "\<not> Option.is_none (references sample_tokens 2)"
  by code_simp+

text \<open>
  C12. In every state the module can reach by taking and dropping references and fetching and
  freeing tokens, no two references to the same station hold the same token, the pool knows
  exactly the tokens its references hold, and every pool has a reference, so dropping the last
  reference also frees the pool.
\<close>

theorem osw_token_exclusive:
  assumes "token_reach st"
  shows "(\<forall>r r' ref ref' b. references st r = Some ref \<and> references st r' = Some ref' \<and> r \<noteq> r'
           \<and> ref_pool ref = ref_pool ref' \<and> b < OSW_TOKEN_COUNT
           \<longrightarrow> \<not> (tbit (ref_tokens ref) b \<and> tbit (ref_tokens ref') b))
    \<and> (\<forall>key pool. g_pool_tree st key = Some pool \<longrightarrow> ref_list pool \<noteq> []
         \<and> (\<forall>b < OSW_TOKEN_COUNT. tbit (tokens pool) b \<longleftrightarrow>
              (\<exists>r \<in> set (ref_list pool). tbit (ref_tokens (the (references st r))) b)))"
proof (intro conjI allI impI)
  have ok: "token_ok st" using assms by (rule reach_ok)
  fix r r' ref ref' and b :: nat
  assume a: "references st r = Some ref \<and> references st r' = Some ref' \<and> r \<noteq> r'
    \<and> ref_pool ref = ref_pool ref' \<and> b < OSW_TOKEN_COUNT"
  then have "r \<in> owners st (ref_pool ref)" "r' \<in> owners st (ref_pool ref)" by (auto simp: owners_def)
  with a ok have "\<not> (held st r b \<and> held st r' b)" unfolding token_ok_def by blast
  with a show "\<not> (tbit (ref_tokens ref) b \<and> tbit (ref_tokens ref') b)" by (simp add: held_def)
next
  have ok: "token_ok st" using assms by (rule reach_ok)
  fix key pool
  assume g: "g_pool_tree st key = Some pool"
  with ok have p: "pool_ok st key pool" by (simp add: token_ok_def)
  then show "ref_list pool \<noteq> []" by (simp add: pool_ok_def)
  fix b :: nat
  assume "b < OSW_TOKEN_COUNT"
  with p have "tbit (tokens pool) b \<longleftrightarrow> (\<exists>r \<in> set (ref_list pool). held st r b)" by (simp add: pool_ok_def)
  moreover have "r \<in> set (ref_list pool) \<Longrightarrow> held st r b \<longleftrightarrow> tbit (ref_tokens (the (references st r))) b" for r
    using p by (auto simp: pool_ok_def owners_def held_def)
  ultimately show "tbit (tokens pool) b \<longleftrightarrow>
      (\<exists>r \<in> set (ref_list pool). tbit (ref_tokens (the (references st r))) b)" by blast
qed

theorem osw_token_exclusive_witness:
  "\<not> (tbit (ref_tokens (the (references sample_tokens 1))) 127
     \<and> tbit (ref_tokens (the (references sample_tokens 2))) 127)"
proof -
  obtain ref ref' where r: "references sample_tokens 1 = Some ref" "references sample_tokens 2 = Some ref'"
    using sample_tokens_refs by (auto simp: Option.is_none_def)
  have "ref_pool (the (references sample_tokens 1)) = ref_pool (the (references sample_tokens 2))"
    by code_simp
  moreover have "(1::nat) \<noteq> 2" "(127::nat) < 128" by simp_all
  ultimately show ?thesis
    using r osw_token_exclusive [OF sample_tokens_reach] by (metis option.sel)
qed

text \<open>
  C13. \<open>osw_token_pool_fetch_token\<close> always ends. It reports OSW_TOKEN_INVALID only when every one
  of the 128 tokens of the station is taken; otherwise the token is in range, was not held by
  any reference to the station and is held by the caller afterwards.
\<close>

theorem osw_token_fetch_correct:
  assumes "token_reach st" "references st r = Some ref"
  shows "\<exists>tok st'. osw_token_pool_fetch_token r st = Some (tok, st') \<and>
    (if tok = OSW_TOKEN_INVALID then \<forall>b < 128. \<exists>r' \<in> owners st (ref_pool ref). held st r' b
     else OSW_TOKEN_MIN \<le> tok \<and> tok \<le> OSW_TOKEN_MAX
       \<and> (\<forall>r' \<in> owners st (ref_pool ref). \<not> held st r' (nat (tok - OSW_TOKEN_MIN)))
       \<and> held st' r (nat (tok - OSW_TOKEN_MIN)))"
  using fetch_ok [OF reach_ok [OF assms(1)] assms(2)] by blast

theorem osw_token_fetch_correct_witness:
  "\<exists>tok st'. osw_token_pool_fetch_token 2 sample_tokens = Some (tok, st')"
  using osw_token_fetch_correct [OF sample_tokens_reach] sample_tokens_refs(2)
  by (fastforce simp: Option.is_none_def)

end
