(* ===== verification/Unii.thy ===== *)
theory Unii
  imports Opensync_Prelude
begin

text \<open>
  The U-NII channel tables of \<open>src/src/lib/common/src/util.c\<close> and the functions that search them.
  A table is a flat array of entries \<open>width, chan, ..., chan, 0\<close> closed by \<open>-1\<close>, and a lookup
  returns a pointer to the first channel of the entry it finds. A pointer into a table is modelled
  by the suffix of the array it points at; the outer \<open>None\<close> is a read past the end of the array,
  the inner one the NULL a failed search returns.
\<close>

section \<open>Tables\<close>

definition unii_5g_lists :: "int list" where
  "unii_5g_lists =
    [20, 36, 0, 20, 40, 0, 20, 44, 0, 20, 48, 0, 20, 52, 0, 20, 56, 0, 20, 60, 0, 20, 64, 0,
     20, 100, 0, 20, 104, 0, 20, 108, 0, 20, 112, 0, 20, 116, 0, 20, 120, 0, 20, 124, 0,
     20, 128, 0, 20, 132, 0, 20, 136, 0, 20, 140, 0, 20, 144, 0, 20, 149, 0, 20, 153, 0,
     20, 157, 0, 20, 161, 0, 20, 165, 0, 40, 36, 40, 0, 40, 44, 48, 0, 40, 52, 56, 0,
     40, 60, 64, 0, 40, 100, 104, 0, 40, 108, 112, 0, 40, 116, 120, 0, 40, 124, 128, 0,
     40, 132, 136, 0, 40, 140, 144, 0, 40, 149, 153, 0, 40, 157, 161, 0, 80, 36, 40, 44, 48, 0,
     80, 52, 56, 60, 64, 0, 80, 100, 104, 108, 112, 0, 80, 116, 120, 124, 128, 0,
     80, 132, 136, 140, 144, 0, 80, 149, 153, 157, 161, 0,
     160, 36, 40, 44, 48, 52, 56, 60, 64, 0, 160, 100, 104, 108, 112, 116, 120, 124, 128, 0,
     - 1]"

definition g_unii_6g_channels :: "int list" where
  "g_unii_6g_channels =
    [20, 1, 0, 20, 5, 0, 20, 9, 0, 20, 13, 0, 20, 17, 0, 20, 21, 0, 20, 25, 0, 20, 29, 0,
     20, 33, 0, 20, 37, 0, 20, 41, 0, 20, 45, 0, 20, 49, 0, 20, 53, 0, 20, 57, 0, 20, 61, 0,
     20, 65, 0, 20, 69, 0, 20, 73, 0, 20, 77, 0, 20, 81, 0, 20, 85, 0, 20, 89, 0, 20, 93, 0,
     20, 97, 0, 20, 101, 0, 20, 105, 0, 20, 109, 0, 20, 113, 0, 20, 117, 0, 20, 121, 0,
     20, 125, 0, 20, 129, 0, 20, 133, 0, 20, 137, 0, 20, 141, 0, 20, 145, 0, 20, 149, 0,
     20, 153, 0, 20, 157, 0, 20, 161, 0, 20, 165, 0, 20, 169, 0, 20, 173, 0, 20, 177, 0,
     20, 181, 0, 20, 185, 0, 20, 189, 0, 20, 193, 0, 20, 197, 0, 20, 201, 0, 20, 205, 0,
     20, 209, 0, 20, 213, 0, 20, 217, 0, 20, 221, 0, 20, 225, 0, 20, 229, 0, 20, 233, 0,
     40, 1, 5, 0, 40, 9, 13, 0, 40, 17, 21, 0, 40, 25, 29, 0, 40, 33, 37, 0, 40, 41, 45, 0,
     40, 49, 53, 0, 40, 57, 61, 0, 40, 65, 69, 0, 40, 73, 77, 0, 40, 81, 85, 0, 40, 89, 93, 0,
     40, 97, 101, 0, 40, 105, 109, 0, 40, 113, 117, 0, 40, 121, 125, 0, 40, 129, 133, 0,
     40, 137, 141, 0, 40, 145, 149, 0, 40, 153, 157, 0, 40, 161, 165, 0, 40, 169, 173, 0,
     40, 177, 181, 0, 40, 185, 189, 0, 40, 193, 197, 0, 40, 201, 205, 0, 40, 209, 213, 0,
     40, 217, 221, 0, 40, 225, 229, 0, 80, 1, 5, 9, 13, 0, 80, 17, 21, 25, 29, 0,
     80, 33, 37, 41, 45, 0, 80, 49, 53, 57, 61, 0, 80, 65, 69, 73, 77, 0, 80, 81, 85, 89, 93, 0,
     80, 97, 101, 105, 109, 0, 80, 113, 117, 121, 125, 0, 80, 129, 133, 137, 141, 0,
     80, 145, 149, 153, 157, 0, 80, 161, 165, 169, 173, 0, 80, 177, 181, 185, 189, 0,
     80, 193, 197, 201, 205, 0, 80, 209, 213, 217, 221, 0, 160, 1, 5, 9, 13, 17, 21, 25, 29, 0,
     160, 33, 37, 41, 45, 49, 53, 57, 61, 0, 160, 65, 69, 73, 77, 81, 85, 89, 93, 0,
     160, 97, 101, 105, 109, 113, 117, 121, 125, 0,
     160, 129, 133, 137, 141, 145, 149, 153, 157, 0,
     160, 161, 165, 169, 173, 177, 181, 185, 189, 0,
     160, 193, 197, 201, 205, 209, 213, 217, 221, 0, - 1]"

definition g_unii_6g_channels_320_1 :: "int list" where
  "g_unii_6g_channels_320_1 =
    [320, 1, 5, 9, 13, 17, 21, 25, 29, 33, 37, 41, 45, 49, 53, 57, 61, 0,
     320, 65, 69, 73, 77, 81, 85, 89, 93, 97, 101, 105, 109, 113, 117, 121, 125, 0,
     320, 129, 133, 137, 141, 145, 149, 153, 157, 161, 165, 169, 173, 177, 181, 185, 189, 0,
     - 1]"

definition g_unii_6g_channels_320_2 :: "int list" where
  "g_unii_6g_channels_320_2 =
    [320, 33, 37, 41, 45, 49, 53, 57, 61, 65, 69, 73, 77, 81, 85, 89, 93, 0,
     320, 97, 101, 105, 109, 113, 117, 121, 125, 129, 133, 137, 141, 145, 149, 153, 157, 0,
     320, 161, 165, 169, 173, 177, 181, 185, 189, 193, 197, 201, 205, 209, 213, 217, 221, 0,
     - 1]"

section \<open>Searching a table\<close>

text \<open>
  The inner loop over the channels of one entry, from its first channel on: \<open>Some None\<close> is the
  \<open>return start\<close> of a match, \<open>Some (Some q)\<close> the end of the entry with \<open>q\<close> the position the outer
  loop goes on from.
\<close>

fun entry_scan :: "int \<Rightarrow> int list \<Rightarrow> int list option option" where
  "entry_scan chan [] = None"
| "entry_scan chan (x # p) =
     (if x = 0 then Some (Some p) else if x = chan then Some None else entry_scan chan p)"

text \<open>The loop that skips an entry of another width.\<close>

fun entry_skip :: "int list \<Rightarrow> int list option" where
  "entry_skip [] = None"
| "entry_skip (x # p) = (if x = 0 then Some p else entry_skip p)"

lemma entry_scan_shorter: "entry_scan chan p = Some (Some q) \<Longrightarrow> length q < length p"
  by (induction p) (auto split: if_splits)

lemma entry_skip_shorter: "entry_skip p = Some q \<Longrightarrow> length q < length p"
  by (induction p) (auto split: if_splits)

function unii_6g_chan2list_find :: "int list \<Rightarrow> int \<Rightarrow> int \<Rightarrow> int list option option" where
  "unii_6g_chan2list_find [] chan width = None"
| "unii_6g_chan2list_find (x # p) chan width =
     (if x = - 1 then Some None
      else if x = width then
        (case entry_scan chan p of
           None \<Rightarrow> None
         | Some None \<Rightarrow> Some (Some p)
         | Some (Some q) \<Rightarrow> unii_6g_chan2list_find q chan width)
      else
        (case entry_skip (x # p) of
           None \<Rightarrow> None
         | Some q \<Rightarrow> unii_6g_chan2list_find q chan width))"
  by pat_completeness auto

termination
  by (relation "measure (\<lambda>(tbl, chan, width). length tbl)")
    (auto dest: entry_scan_shorter entry_skip_shorter split: if_splits)

definition unii_5g_chan2list :: "int \<Rightarrow> int \<Rightarrow> int list option option" where
  "unii_5g_chan2list chan width = unii_6g_chan2list_find unii_5g_lists chan width"

definition unii_6g_chan2list :: "int \<Rightarrow> int \<Rightarrow> int list option option" where
  "unii_6g_chan2list chan width = unii_6g_chan2list_find g_unii_6g_channels chan width"

definition unii_6g_320_1_chan2list :: "int \<Rightarrow> int list option option" where
  "unii_6g_320_1_chan2list chan = unii_6g_chan2list_find g_unii_6g_channels_320_1 chan 320"

definition unii_6g_320_2_chan2list :: "int \<Rightarrow> int list option option" where
  "unii_6g_320_2_chan2list chan = unii_6g_chan2list_find g_unii_6g_channels_320_2 chan 320"

definition unii_6g_is_320_1 :: "int \<Rightarrow> bool" where
  "unii_6g_is_320_1 centerchan \<longleftrightarrow> centerchan = 31 \<or> centerchan = 95 \<or> centerchan = 159"

definition unii_6g_is_320_2 :: "int \<Rightarrow> bool" where
  "unii_6g_is_320_2 centerchan \<longleftrightarrow> centerchan = 63 \<or> centerchan = 127 \<or> centerchan = 191"

text \<open>
  The sum and the number of the channels up to the terminating 0, and their average; a NULL list
  and an empty one give 0.
\<close>

fun chan_sum :: "int \<Rightarrow> int \<Rightarrow> int list \<Rightarrow> (int \<times> int) option" where
  "chan_sum acc cnt [] = None"
| "chan_sum acc cnt (x # chans) =
     (if x = 0 then Some (acc, cnt) else chan_sum (acc + x) (cnt + 1) chans)"

definition chanlist_to_center :: "int list option \<Rightarrow> int option" where
  "chanlist_to_center chans =
     (case chans of
        None \<Rightarrow> Some 0
      | Some p \<Rightarrow>
          (case chan_sum 0 0 p of
             None \<Rightarrow> None
           | Some (acc, cnt) \<Rightarrow> Some (if cnt = 0 then 0 else c_div acc cnt)))"

section \<open>What a lookup returns\<close>

text \<open>
  \<open>table_ok P\<close> walks a whole table and checks that every entry is closed by a 0 and satisfies
  \<open>P\<close>, and that the table is closed by \<open>-1\<close>.
\<close>

function table_ok :: "(int \<Rightarrow> int list \<Rightarrow> bool) \<Rightarrow> int list \<Rightarrow> bool" where
  "table_ok P [] = False"
| "table_ok P (x # p) =
     (x = - 1 \<or>
      x \<noteq> 0 \<and> P x (takeWhile (\<lambda>c. c \<noteq> 0) p) \<and>
      (case entry_skip p of None \<Rightarrow> False | Some q \<Rightarrow> table_ok P q))"
  by pat_completeness auto

termination
  by (relation "measure (\<lambda>(P, tbl). length tbl)") (auto dest: entry_skip_shorter)

lemma entry_scan_cases:
  "entry_skip p = Some q \<Longrightarrow>
     entry_scan chan p =
       (if chan \<noteq> 0 \<and> chan \<in> set (takeWhile (\<lambda>c. c \<noteq> 0) p) then Some None else Some (Some q))"
  by (induction p) (auto split: if_splits)

lemma entry_skip_split:
  "entry_skip p = Some q \<Longrightarrow> p = takeWhile (\<lambda>c. c \<noteq> 0) p @ 0 # q"
  by (induction p) (auto split: if_splits)

lemma chan2list_find_total:
  "table_ok P tbl \<Longrightarrow>
     \<exists>r. unii_6g_chan2list_find tbl chan width = Some r \<and>
       (\<forall>p. r = Some p \<longrightarrow>
          (\<exists>cs q. p = cs @ 0 # q \<and> 0 \<notin> set cs \<and> chan \<in> set cs \<and> P width cs))"
proof (induction P tbl rule: table_ok.induct)
  case (2 P x p)
  show ?case
  proof (cases "x = - 1")
    case False
    with "2.prems" obtain q where x: "x \<noteq> 0" and P: "P x (takeWhile (\<lambda>c. c \<noteq> 0) p)"
      and q: "entry_skip p = Some q" and ok: "table_ok P q"
      by (auto split: option.splits)
    note IH = "2.IH" [OF q ok]
    show ?thesis
    proof (cases "x = width \<and> chan \<noteq> 0 \<and> chan \<in> set (takeWhile (\<lambda>c. c \<noteq> 0) p)")
      case True
      have "p = takeWhile (\<lambda>c. c \<noteq> 0) p @ 0 # q" "0 \<notin> set (takeWhile (\<lambda>c. c \<noteq> 0) p)"
        using entry_skip_split [OF q] by (auto dest: set_takeWhileD)
      with True False P show ?thesis
        by (auto simp: entry_scan_cases [OF q])
    next
      case no: False
      with False x q IH show ?thesis
        by (auto simp: entry_scan_cases [OF q])
    qed
  qed simp
qed simp

text \<open>The shape of every entry of the U-NII tables: a block of adjacent 20 MHz channels.\<close>

definition chan_block :: "int \<Rightarrow> int list \<Rightarrow> bool" where
  "chan_block width cs \<longleftrightarrow>
     cs \<noteq> [] \<and> 20 * int (length cs) = width \<and> hd cs > 0 \<and>
     cs = map (\<lambda>i. hd cs + 4 * int i) [0..<length cs]"

lemma unii_tables_ok:
  "table_ok chan_block unii_5g_lists"
  "table_ok chan_block g_unii_6g_channels"
  "table_ok chan_block g_unii_6g_channels_320_1"
  "table_ok chan_block g_unii_6g_channels_320_2"
  by code_simp+

lemma chan_sum_block:
  "0 \<notin> set cs \<Longrightarrow> chan_sum acc cnt (cs @ 0 # q) = Some (acc + sum_list cs, cnt + int (length cs))"
  by (induction cs arbitrary: acc cnt) auto

lemma sum_list_block: "2 * sum_list (map (\<lambda>i. a + 4 * int i) [0..<n]) = int n * (2 * a + 4 * (int n - 1))"
  by (induction n) (simp_all add: algebra_simps)

lemma chanlist_to_center_block:
  assumes "0 \<notin> set cs" "chan_block width cs"
  shows "chanlist_to_center (Some (cs @ 0 # q)) = Some (hd cs + 2 * (int (length cs) - 1))"
proof -
  have n: "length cs > 0" and h: "hd cs > 0" and cs: "cs = map (\<lambda>i. hd cs + 4 * int i) [0..<length cs]"
    using assms by (auto simp: chan_block_def)
  have "2 * sum_list cs = int (length cs) * (2 * hd cs + 4 * (int (length cs) - 1))"
    using sum_list_block [of "hd cs" "length cs"] cs by argo
  then have s: "sum_list cs = int (length cs) * (hd cs + 2 * (int (length cs) - 1))"
    by (simp add: algebra_simps)
  have "0 \<le> hd cs + 2 * (int (length cs) - 1)" using n h by (cases "length cs") simp_all
  then have "0 \<le> sum_list cs" unfolding s by (rule mult_nonneg_nonneg [rotated]) simp
  then show ?thesis using n by (simp add: chanlist_to_center_def chan_sum_block assms(1)) (simp add: s)
qed

text \<open>The channels a table has at a width, over all its entries.\<close>

function table_chans :: "int list \<Rightarrow> int \<Rightarrow> int list" where
  "table_chans [] width = []"
| "table_chans (x # p) width =
     (if x = - 1 then []
      else (if x = width then takeWhile (\<lambda>c. c \<noteq> 0) p else []) @
        (case entry_skip p of None \<Rightarrow> [] | Some q \<Rightarrow> table_chans q width))"
  by pat_completeness auto

termination
  by (relation "measure (\<lambda>(tbl, width). length tbl)") (auto dest: entry_skip_shorter)

lemma chan2list_find_none:
  "table_ok P tbl \<Longrightarrow>
     unii_6g_chan2list_find tbl chan width = Some None \<longleftrightarrow> chan \<notin> set (table_chans tbl width)"
proof (induction P tbl rule: table_ok.induct)
  case (2 P x p)
  show ?case
  proof (cases "x = - 1")
    case False
    with "2.prems" obtain q where x: "x \<noteq> 0" and q: "entry_skip p = Some q" and ok: "table_ok P q"
      by (auto split: option.splits)
    show ?thesis using "2.IH" [OF q ok] False x q
      by (auto simp: entry_scan_cases [OF q] dest: set_takeWhileD)
  qed simp
qed simp

text \<open>The entries of a width, each as the list of its channels.\<close>

function table_blocks :: "int list \<Rightarrow> int \<Rightarrow> int list list" where
  "table_blocks [] width = []"
| "table_blocks (x # p) width =
     (if x = - 1 then []
      else (if x = width then [takeWhile (\<lambda>c. c \<noteq> 0) p] else []) @
        (case entry_skip p of None \<Rightarrow> [] | Some q \<Rightarrow> table_blocks q width))"
  by pat_completeness auto

termination
  by (relation "measure (\<lambda>(tbl, width). length tbl)") (auto dest: entry_skip_shorter)

lemma chan2list_find_block:
  "table_ok P tbl \<Longrightarrow> unii_6g_chan2list_find tbl chan width = Some (Some p) \<Longrightarrow>
     \<exists>cs q. p = cs @ 0 # q \<and> cs \<in> set (table_blocks tbl width) \<and> 0 \<notin> set cs \<and> chan \<in> set cs \<and>
       P width cs"
proof (induction P tbl rule: table_ok.induct)
  case (2 P x r)
  show ?case
  proof (cases "x = - 1")
    case False
    with "2.prems"(1) obtain q where x: "x \<noteq> 0" and P: "P x (takeWhile (\<lambda>c. c \<noteq> 0) r)"
      and q: "entry_skip r = Some q" and ok: "table_ok P q"
      by (auto split: option.splits)
    have r: "r = takeWhile (\<lambda>c. c \<noteq> 0) r @ 0 # q" "0 \<notin> set (takeWhile (\<lambda>c. c \<noteq> 0) r)"
      using entry_skip_split [OF q] by (auto dest: set_takeWhileD)
    show ?thesis
    proof (cases "x = width \<and> chan \<noteq> 0 \<and> chan \<in> set (takeWhile (\<lambda>c. c \<noteq> 0) r)")
      case True
      then have "p = r" using "2.prems"(2) False by (simp add: entry_scan_cases [OF q])
      then show ?thesis using r True P False
        by (intro exI [of _ "takeWhile (\<lambda>c. c \<noteq> 0) r"] exI [of _ q]) simp
    next
      case no: False
      then have "unii_6g_chan2list_find q chan width = Some (Some p)"
        using "2.prems"(2) False x q by (auto simp: entry_scan_cases [OF q] split: if_splits)
      from "2.IH" [OF q ok this] show ?thesis using False q by auto
    qed
  qed (use "2.prems" in simp)
qed simp

text \<open>
  The contract of a lookup: a failed search means that no entry of that width has the channel, and a
  successful one gives a block of adjacent channels that spans the width, contains the channel and
  has its centre where \<open>chanlist_to_center\<close> says.
\<close>

definition lookup_ok :: "int list \<Rightarrow> int \<Rightarrow> int \<Rightarrow> int list option option \<Rightarrow> bool" where
  "lookup_ok tbl chan width r =
     (case r of
        None \<Rightarrow> False
      | Some None \<Rightarrow> chan \<notin> set (table_chans tbl width)
      | Some (Some p) \<Rightarrow>
          (let cs = takeWhile (\<lambda>c. c \<noteq> 0) p in
             chan \<in> set (table_chans tbl width) \<and> chan \<in> set cs \<and> chan_block width cs \<and>
             chanlist_to_center (Some p) = Some (hd cs + 2 * (int (length cs) - 1))))"

lemma find_lookup_ok:
  assumes "table_ok chan_block tbl"
  shows "lookup_ok tbl chan width (unii_6g_chan2list_find tbl chan width)"
proof -
  obtain r where r: "unii_6g_chan2list_find tbl chan width = Some r"
    and p: "\<And>p. r = Some p \<Longrightarrow>
      \<exists>cs q. p = cs @ 0 # q \<and> 0 \<notin> set cs \<and> chan \<in> set cs \<and> chan_block width cs"
    using chan2list_find_total [OF assms, of chan width] by auto
  show ?thesis
  proof (cases r)
    case None
    then show ?thesis using chan2list_find_none [OF assms, of chan width] r by (simp add: lookup_ok_def)
  next
    case (Some l)
    obtain cs q where l: "l = cs @ 0 # q" "0 \<notin> set cs" "chan \<in> set cs" "chan_block width cs"
      using p [OF Some] by auto
    have "takeWhile (\<lambda>c. c \<noteq> 0) l = cs"
      unfolding l(1) using l(2) by (subst takeWhile_append2) auto
    then show ?thesis
      using chan2list_find_none [OF assms, of chan width] r Some l
      by (simp add: lookup_ok_def chanlist_to_center_block Let_def)
  qed
qed

text \<open>
  C14. Every lookup in the U-NII tables ends inside its table, fails only for a channel the table does
  not have at the width, and otherwise returns a block of \<open>width / 20\<close> adjacent 20 MHz channels
  that contains the channel; the average \<open>chanlist_to_center\<close> takes of the block is the number
  halfway between its first and its last channel. The tables cover every 20 MHz channel of the
  6 GHz band up to 221 at each width up to 160 MHz.
\<close>

theorem unii_chan2list_block:
  "lookup_ok unii_5g_lists chan width (unii_5g_chan2list chan width) \<and>
   lookup_ok g_unii_6g_channels chan width (unii_6g_chan2list chan width) \<and>
   lookup_ok g_unii_6g_channels_320_1 chan 320 (unii_6g_320_1_chan2list chan) \<and>
   lookup_ok g_unii_6g_channels_320_2 chan 320 (unii_6g_320_2_chan2list chan) \<and>
   table_chans g_unii_6g_channels 160 = map (\<lambda>i. 1 + 4 * int i) [0..<56] \<and>
   table_chans g_unii_6g_channels 80 = map (\<lambda>i. 1 + 4 * int i) [0..<56] \<and>
   table_chans g_unii_6g_channels 40 = map (\<lambda>i. 1 + 4 * int i) [0..<58] \<and>
   table_chans g_unii_6g_channels 20 = map (\<lambda>i. 1 + 4 * int i) [0..<59]"
proof -
  have cover:
    "table_chans g_unii_6g_channels 160 = map (\<lambda>i. 1 + 4 * int i) [0..<56]"
    "table_chans g_unii_6g_channels 80 = map (\<lambda>i. 1 + 4 * int i) [0..<56]"
    "table_chans g_unii_6g_channels 40 = map (\<lambda>i. 1 + 4 * int i) [0..<58]"
    "table_chans g_unii_6g_channels 20 = map (\<lambda>i. 1 + 4 * int i) [0..<59]"
    by code_simp+
  show ?thesis
    unfolding cover unii_5g_chan2list_def unii_6g_chan2list_def unii_6g_320_1_chan2list_def
      unii_6g_320_2_chan2list_def
    by (intro conjI find_lookup_ok unii_tables_ok refl)
qed

end
