(* ===== verification/Osw_Channel.thy ===== *)
theory Osw_Channel
  imports Unii
begin

unbundle bit_operations_syntax

text \<open>
  The channel arithmetic of \<open>src/src/lib/osw/src/osw_types.c\<close>: bands, channel numbers and
  frequencies, widths, downgrading of a channel to a narrower one, the 20 MHz segments a channel is
  made of, and the guess of a centre frequency. A failed \<open>ASSERT\<close> and a read of memory that was
  never written are \<open>None\<close>; frequencies are C \<open>int\<close>s far from their bounds.
\<close>

section \<open>Types\<close>

datatype osw_channel_width =
    OSW_CHANNEL_20MHZ
  | OSW_CHANNEL_40MHZ
  | OSW_CHANNEL_80MHZ
  | OSW_CHANNEL_160MHZ
  | OSW_CHANNEL_80P80MHZ
  | OSW_CHANNEL_320MHZ

primrec width_index :: "osw_channel_width \<Rightarrow> nat" where
  "width_index OSW_CHANNEL_20MHZ = 0"
| "width_index OSW_CHANNEL_40MHZ = 1"
| "width_index OSW_CHANNEL_80MHZ = 2"
| "width_index OSW_CHANNEL_160MHZ = 3"
| "width_index OSW_CHANNEL_80P80MHZ = 4"
| "width_index OSW_CHANNEL_320MHZ = 5"

lemma width_index_inject: "width_index a = width_index b \<longleftrightarrow> a = b"
  by (cases a; cases b) simp_all

text \<open>C compares enumerators by their position.\<close>

instantiation osw_channel_width :: linorder
begin

definition less_eq_osw_channel_width :: "osw_channel_width \<Rightarrow> osw_channel_width \<Rightarrow> bool" where
  "a \<le> b \<longleftrightarrow> width_index a \<le> width_index b"

definition less_osw_channel_width :: "osw_channel_width \<Rightarrow> osw_channel_width \<Rightarrow> bool" where
  "a < b \<longleftrightarrow> width_index a < width_index b"

instance
  by standard
    (auto simp: less_eq_osw_channel_width_def less_osw_channel_width_def width_index_inject)

end

datatype osw_band = OSW_BAND_UNDEFINED | OSW_BAND_2GHZ | OSW_BAND_5GHZ | OSW_BAND_6GHZ

record osw_channel =
  width :: osw_channel_width
  control_freq_mhz :: int
  center_freq0_mhz :: int
  center_freq1_mhz :: int
  puncture_bitmap :: u16

section \<open>Bands, channel numbers and frequencies\<close>

definition osw_freq_to_band :: "int \<Rightarrow> osw_band" where
  "osw_freq_to_band freq =
     (let b2ch1 = 2412; b2ch13 = 2472; b2ch14 = 2484; b5ch36 = 5180; b5ch177 = 5885;
          b6ch1 = 5955; b6ch2 = 5935; b6ch233 = 7115 in
      if freq = b2ch14 then OSW_BAND_2GHZ
      else if freq = b6ch2 then OSW_BAND_6GHZ
      else if freq \<ge> b2ch1 \<and> freq \<le> b2ch13 then OSW_BAND_2GHZ
      else if freq \<ge> b5ch36 \<and> freq \<le> b5ch177 then OSW_BAND_5GHZ
      else if freq \<ge> b6ch1 \<and> freq \<le> b6ch233 then OSW_BAND_6GHZ
      else OSW_BAND_UNDEFINED)"

definition osw_channel_to_band :: "osw_channel \<Rightarrow> osw_band" where
  "osw_channel_to_band c = osw_freq_to_band (control_freq_mhz c)"

definition osw_chan_to_band_guess :: "int \<Rightarrow> osw_band" where
  "osw_chan_to_band_guess chan =
     (if chan \<ge> 1 \<and> chan \<le> 14 then OSW_BAND_2GHZ
      else if chan \<ge> 36 \<and> chan \<le> 177 then OSW_BAND_5GHZ
      else OSW_BAND_UNDEFINED)"

definition osw_freq_to_chan :: "int \<Rightarrow> int" where
  "osw_freq_to_chan freq =
     (let b2ch1 = 2412; b2ch13 = 2472; b2ch14 = 2484; b5ch36 = 5180; b5ch177 = 5885;
          b6ch1 = 5955; b6ch2 = 5935; b6ch233 = 7115 in
      if freq = b2ch14 then 14
      else if freq = b6ch2 then 2
      else if freq \<ge> b2ch1 \<and> freq \<le> b2ch13 then c_div (freq - 2407) 5
      else if freq \<ge> b5ch36 \<and> freq \<le> b5ch177 then c_div (freq - 5000) 5
      else if freq \<ge> b6ch1 \<and> freq \<le> b6ch233 then c_div (freq - 5950) 5
      else 0)"

fun osw_chan_to_freq :: "osw_band \<Rightarrow> int \<Rightarrow> int" where
  "osw_chan_to_freq OSW_BAND_UNDEFINED chan = 0"
| "osw_chan_to_freq OSW_BAND_2GHZ chan = (if chan = 14 then 2484 else 2407 + chan * 5)"
| "osw_chan_to_freq OSW_BAND_5GHZ chan = 5000 + chan * 5"
| "osw_chan_to_freq OSW_BAND_6GHZ chan = (if chan = 2 then 5935 else 5950 + chan * 5)"

section \<open>Widths\<close>

primrec osw_channel_width_offsets :: "osw_channel_width \<Rightarrow> int" where
  "osw_channel_width_offsets OSW_CHANNEL_20MHZ = 0"
| "osw_channel_width_offsets OSW_CHANNEL_40MHZ = 2"
| "osw_channel_width_offsets OSW_CHANNEL_80MHZ = 6"
| "osw_channel_width_offsets OSW_CHANNEL_160MHZ = 14"
| "osw_channel_width_offsets OSW_CHANNEL_80P80MHZ = 6"
| "osw_channel_width_offsets OSW_CHANNEL_320MHZ = 30"

primrec osw_channel_width_to_mhz :: "osw_channel_width \<Rightarrow> int" where
  "osw_channel_width_to_mhz OSW_CHANNEL_20MHZ = 20"
| "osw_channel_width_to_mhz OSW_CHANNEL_40MHZ = 40"
| "osw_channel_width_to_mhz OSW_CHANNEL_80MHZ = 80"
| "osw_channel_width_to_mhz OSW_CHANNEL_160MHZ = 160"
| "osw_channel_width_to_mhz OSW_CHANNEL_80P80MHZ = 0"
| "osw_channel_width_to_mhz OSW_CHANNEL_320MHZ = 320"

definition osw_channel_width_mhz_to_width :: "int \<Rightarrow> osw_channel_width" where
  "osw_channel_width_mhz_to_width w =
     (if w = 320 then OSW_CHANNEL_320MHZ
      else if w = 160 then OSW_CHANNEL_160MHZ
      else if w = 80 then OSW_CHANNEL_80MHZ
      else if w = 40 then OSW_CHANNEL_40MHZ
      else OSW_CHANNEL_20MHZ)"

text \<open>The result and the new value of \<open>*w\<close>.\<close>

primrec osw_channel_width_down :: "osw_channel_width \<Rightarrow> bool \<times> osw_channel_width" where
  "osw_channel_width_down OSW_CHANNEL_20MHZ = (False, OSW_CHANNEL_20MHZ)"
| "osw_channel_width_down OSW_CHANNEL_40MHZ = (True, OSW_CHANNEL_20MHZ)"
| "osw_channel_width_down OSW_CHANNEL_80MHZ = (True, OSW_CHANNEL_40MHZ)"
| "osw_channel_width_down OSW_CHANNEL_160MHZ = (True, OSW_CHANNEL_80MHZ)"
| "osw_channel_width_down OSW_CHANNEL_80P80MHZ = (True, OSW_CHANNEL_80MHZ)"
| "osw_channel_width_down OSW_CHANNEL_320MHZ = (True, OSW_CHANNEL_160MHZ)"

definition osw_channel_width_min ::
    "osw_channel_width \<Rightarrow> osw_channel_width \<Rightarrow> osw_channel_width" where
  "osw_channel_width_min a b = (if a < b then a else b)"

primrec osw_channel_width_num_segments :: "osw_channel_width \<Rightarrow> int" where
  "osw_channel_width_num_segments OSW_CHANNEL_20MHZ = 1"
| "osw_channel_width_num_segments OSW_CHANNEL_40MHZ = 2"
| "osw_channel_width_num_segments OSW_CHANNEL_80MHZ = 4"
| "osw_channel_width_num_segments OSW_CHANNEL_160MHZ = 8"
| "osw_channel_width_num_segments OSW_CHANNEL_80P80MHZ = 1"
| "osw_channel_width_num_segments OSW_CHANNEL_320MHZ = 16"

section \<open>Comparison of channels\<close>

text \<open>The arguments may be NULL.\<close>

definition osw_channel_is_equal :: "osw_channel option \<Rightarrow> osw_channel option \<Rightarrow> bool" where
  "osw_channel_is_equal a b =
     (case (a, b) of
        (None, None) \<Rightarrow> True
      | (Some a, Some b) \<Rightarrow>
          control_freq_mhz a = control_freq_mhz b \<and>
          center_freq0_mhz a = center_freq0_mhz b \<and>
          center_freq1_mhz a = center_freq1_mhz b \<and>
          width a = width b
      | _ \<Rightarrow> False)"

definition osw_channel_is_subchannel :: "osw_channel option \<Rightarrow> osw_channel option \<Rightarrow> bool" where
  "osw_channel_is_subchannel narrower wider =
     (case (narrower, wider) of
        (Some n, Some w) \<Rightarrow>
          \<bar>control_freq_mhz n - center_freq0_mhz w\<bar> < c_div (osw_channel_width_to_mhz (width w)) 2
      | _ \<Rightarrow> False)"

definition osw_channel_none :: osw_channel where
  "osw_channel_none = \<lparr>width = OSW_CHANNEL_20MHZ, control_freq_mhz = 0, center_freq0_mhz = 0,
     center_freq1_mhz = 0, puncture_bitmap = 0\<rparr>"

definition osw_channel_is_none :: "osw_channel option \<Rightarrow> bool" where
  "osw_channel_is_none c =
     (case c of None \<Rightarrow> True | Some c \<Rightarrow> if control_freq_mhz c = 0 then True else False)"

section \<open>Downgrading\<close>

text \<open>The result and the channel that \<open>*c\<close> is afterwards.\<close>

definition osw_channel_downgrade :: "osw_channel \<Rightarrow> bool \<times> osw_channel" where
  "osw_channel_downgrade c =
     (if width c = OSW_CHANNEL_80P80MHZ then (False, c)
      else
        let (down, w) = osw_channel_width_down (width c) in
        if \<not> down then (False, c)
        else
          let offset_old = osw_channel_width_offsets (width c) * 5;
              offset_new = osw_channel_width_offsets w * 5;
              freq_leftmost = center_freq0_mhz c - offset_old;
              freq_rightmost = center_freq0_mhz c + offset_old;
              center_new =
                (if control_freq_mhz c < center_freq0_mhz c then freq_leftmost + offset_new
                 else freq_rightmost - offset_new);
              n_segments_new = c_div (c_div (freq_rightmost - freq_leftmost + 20) 20) 2;
              segments_mask = 2 ^ nat n_segments_new - 1;
              segments_shift =
                (if control_freq_mhz c < center_freq0_mhz c then 0 else n_segments_new);
              puncture_new =
                drop_bit (nat segments_shift) (puncture_bitmap c) AND word_of_int segments_mask
          in (True, c\<lparr>width := w, center_freq0_mhz := center_new,
                puncture_bitmap := puncture_new\<rparr>))"

lemma downgrade_narrower:
  "osw_channel_downgrade c = (True, c') \<Longrightarrow> width_index (width c') < width_index (width c)"
  by (cases "width c") (auto simp: osw_channel_downgrade_def Let_def)

function downgrade_loop :: "osw_channel \<Rightarrow> osw_channel_width \<Rightarrow> bool \<times> osw_channel" where
  "downgrade_loop c w =
     (if width c = w then (True, c)
      else
        let (ok, c') = osw_channel_downgrade c in
        if \<not> ok then (False, c') else downgrade_loop c' w)"
  by pat_completeness auto

termination
  by (relation "measure (\<lambda>(c, w). width_index (width c))") (auto intro: downgrade_narrower dest: sym)

declare downgrade_loop.simps [simp del]

definition osw_channel_downgrade_to :: "osw_channel \<Rightarrow> osw_channel_width \<Rightarrow> bool \<times> osw_channel" where
  "osw_channel_downgrade_to c w = (if width c < w then (False, c) else downgrade_loop c w)"

definition osw_channel_ht40_offset :: "osw_channel \<Rightarrow> int option" where
  "osw_channel_ht40_offset c =
     (if center_freq0_mhz c = 0 then None
      else
        let (ok, copy) = osw_channel_downgrade_to c OSW_CHANNEL_40MHZ in
        Some (if \<not> ok then 0
              else if control_freq_mhz copy < center_freq0_mhz copy then 1
              else if control_freq_mhz copy > center_freq0_mhz copy then - 1
              else 0))"

section \<open>Sidebands and the centre frequency\<close>

definition osw_2g_lists :: "int list" where
  "osw_2g_lists =
    [20, 1, 0, 20, 2, 0, 20, 3, 0, 20, 4, 0, 20, 5, 0, 20, 6, 0, 20, 7, 0, 20, 8, 0, 20, 9, 0,
     20, 10, 0, 20, 11, 0, 20, 12, 0, 20, 13, 0,
     40, 9, 13, 0, 40, 8, 12, 0, 40, 7, 11, 0, 40, 6, 10, 0, 40, 5, 9, 0, 40, 4, 8, 0,
     40, 3, 7, 0, 40, 2, 6, 0, 40, 1, 5, 0,
     - 1]"

text \<open>
  The loop over one entry sets \<open>found\<close> and \<open>out_of_range\<close>; the last component is what follows
  the terminating 0. As in \<^term>\<open>unii_6g_chan2list_find\<close>, the outer \<open>None\<close> is a read past the array.
  An entry of another width is not skipped as a whole: the outer loop walks over its elements.
\<close>

fun entry_flags :: "int \<Rightarrow> int \<Rightarrow> bool \<Rightarrow> bool \<Rightarrow> int list \<Rightarrow> (bool \<times> bool \<times> int list) option" where
  "entry_flags chan max_chan found out_of_range [] = None"
| "entry_flags chan max_chan found out_of_range (x # p) =
     (if x = 0 then Some (found, out_of_range, p)
      else entry_flags chan max_chan (found \<or> x = chan) (out_of_range \<or> x > max_chan) p)"

lemma entry_flags_shorter:
  "entry_flags chan max_chan f oor p = Some (f', oor', q) \<Longrightarrow> length q < length p"
  by (induction p arbitrary: f oor) (auto split: if_splits dest: less_SucI)

function list_2g_find :: "int list \<Rightarrow> int \<Rightarrow> int \<Rightarrow> int \<Rightarrow> int list option option" where
  "list_2g_find [] chan w max_chan = None"
| "list_2g_find (x # p) chan w max_chan =
     (if x = - 1 then Some None
      else if x = w then
        (case entry_flags chan max_chan False False p of
           None \<Rightarrow> None
         | Some (found, out_of_range, q) \<Rightarrow>
             if found \<and> \<not> out_of_range then Some (Some p) else list_2g_find q chan w max_chan)
      else list_2g_find p chan w max_chan)"
  by pat_completeness auto

termination
  by (relation "measure (\<lambda>(tbl, chan, w, max_chan). length tbl)")
    (auto dest: entry_flags_shorter)

definition osw_2g_chan_list :: "int \<Rightarrow> int \<Rightarrow> int \<Rightarrow> int list option option" where
  "osw_2g_chan_list chan w max_chan = list_2g_find osw_2g_lists chan w max_chan"

fun osw_channel_sidebands :: "osw_band \<Rightarrow> int \<Rightarrow> int \<Rightarrow> int \<Rightarrow> int list option option" where
  "osw_channel_sidebands OSW_BAND_UNDEFINED chan w max_2g_chan = Some (Some [0])"
| "osw_channel_sidebands OSW_BAND_2GHZ chan w max_2g_chan = osw_2g_chan_list chan w max_2g_chan"
| "osw_channel_sidebands OSW_BAND_5GHZ chan w max_2g_chan = unii_5g_chan2list chan w"
| "osw_channel_sidebands OSW_BAND_6GHZ chan w max_2g_chan = unii_6g_chan2list chan w"

definition osw_chan_avg :: "int list option \<Rightarrow> int option" where
  "osw_chan_avg chans =
     (case chans of
        None \<Rightarrow> Some 0
      | Some p \<Rightarrow>
          (case chan_sum 0 0 p of
             None \<Rightarrow> None
           | Some (acc, n) \<Rightarrow> Some (if n = 0 then 0 else c_div acc n)))"

definition osw_channel_compute_center_freq :: "osw_channel \<Rightarrow> int \<Rightarrow> osw_channel option" where
  "osw_channel_compute_center_freq c max_2g_chan =
     (if center_freq0_mhz c \<noteq> 0 then Some c
      else
        let b = osw_freq_to_band (control_freq_mhz c);
            w = osw_channel_width_to_mhz (width c);
            cn = osw_freq_to_chan (control_freq_mhz c)
        in
        case osw_channel_sidebands b cn w max_2g_chan of
          None \<Rightarrow> None
        | Some chans \<Rightarrow>
            (case osw_chan_avg chans of
               None \<Rightarrow> None
             | Some avg \<Rightarrow> Some (c\<lparr>center_freq0_mhz := osw_chan_to_freq b avg\<rparr>)))"

section \<open>20 MHz segments\<close>

text \<open>
  The caller's array, of \<open>segments_len\<close> elements; \<open>None\<close> is an element that was never written.
  The loop writes element \<open>n\<close> and gives up with 0 when the array is full.
\<close>

type_synonym int_buf = "int option list"

function segments_loop :: "int \<Rightarrow> int \<Rightarrow> nat \<Rightarrow> int_buf \<Rightarrow> nat \<times> int_buf" where
  "segments_loop freq rightmost n segments =
     (if freq \<le> rightmost then
        (if length segments - n < 1 then (0, segments)
         else segments_loop (freq + 20) rightmost (n + 1) (segments[n := Some freq]))
      else (n, segments))"
  by pat_completeness auto

termination
  by (relation "measure (\<lambda>(freq, rightmost, n, segments). nat (rightmost + 1 - freq))") auto

declare segments_loop.simps [simp del]

definition osw_channel_20mhz_segments_raw :: "int \<Rightarrow> int \<Rightarrow> int_buf \<Rightarrow> nat \<times> int_buf" where
  "osw_channel_20mhz_segments_raw center_freq num_segments segments =
     (let segment_width = 20;
          leftmost = center_freq + c_div segment_width 2 - c_div (5 * 4 * num_segments) 2;
          rightmost = center_freq - c_div segment_width 2 + c_div (5 * 4 * num_segments) 2
      in segments_loop leftmost rightmost 0 segments)"

definition osw_channel_20mhz_segments :: "osw_channel \<Rightarrow> int_buf \<Rightarrow> (nat \<times> int_buf) option" where
  "osw_channel_20mhz_segments c segments =
     (if control_freq_mhz c = 0 then Some (0, segments)
      else if center_freq0_mhz c = 0 then None
      else
        case osw_channel_compute_center_freq c 11 of
          None \<Rightarrow> None
        | Some cpy \<Rightarrow>
            Some (case width c of
               OSW_CHANNEL_20MHZ \<Rightarrow>
                 osw_channel_20mhz_segments_raw (center_freq0_mhz cpy) 1 segments
             | OSW_CHANNEL_40MHZ \<Rightarrow>
                 osw_channel_20mhz_segments_raw (center_freq0_mhz cpy) 2 segments
             | OSW_CHANNEL_80MHZ \<Rightarrow>
                 osw_channel_20mhz_segments_raw (center_freq0_mhz cpy) 4 segments
             | OSW_CHANNEL_160MHZ \<Rightarrow>
                 osw_channel_20mhz_segments_raw (center_freq0_mhz cpy) 8 segments
             | OSW_CHANNEL_320MHZ \<Rightarrow>
                 osw_channel_20mhz_segments_raw (center_freq0_mhz cpy) 16 segments
             | OSW_CHANNEL_80P80MHZ \<Rightarrow>
                 let (n, segments) =
                       osw_channel_20mhz_segments_raw (center_freq0_mhz cpy) 4 segments;
                     (m, segments) =
                       osw_channel_20mhz_segments_raw (center_freq1_mhz cpy) 4 segments
                 in if n = 0 then (0, segments)
                    else if m = 0 then (0, segments)
                    else (n + m, segments)))"

text \<open>A read of an element that was never written, or past the array, is \<open>None\<close>.\<close>

fun osw_channel_20mhz_segments_to_chans :: "int_buf \<Rightarrow> nat \<Rightarrow> int_buf option" where
  "osw_channel_20mhz_segments_to_chans segs 0 = Some segs"
| "osw_channel_20mhz_segments_to_chans (Some f # segs) (Suc n) =
     map_option (\<lambda>r. Some (osw_freq_to_chan f) # r) (osw_channel_20mhz_segments_to_chans segs n)"
| "osw_channel_20mhz_segments_to_chans segs (Suc n) = None"

definition osw_freq_is_dfs :: "int \<Rightarrow> bool" where
  "osw_freq_is_dfs freq_mhz \<longleftrightarrow>
     freq_mhz \<in> set
       [5260, 5280, 5300, 5320, 5500, 5520, 5540, 5560, 5580, 5600, 5620, 5640,
        5660, 5680, 5700, 5720]"

fun dfs_scan :: "int option list \<Rightarrow> bool option" where
  "dfs_scan [] = Some False"
| "dfs_scan (None # segs) = None"
| "dfs_scan (Some freq # segs) = (if osw_freq_is_dfs freq then Some True else dfs_scan segs)"

definition osw_channel_overlaps_dfs :: "osw_channel \<Rightarrow> bool option" where
  "osw_channel_overlaps_dfs c =
     (if control_freq_mhz c = 0 then Some False
      else
        case osw_channel_20mhz_segments c (replicate 16 None) of
          None \<Rightarrow> None
        | Some (n_segs, segs) \<Rightarrow> dfs_scan (take n_segs segs))"

section \<open>Well-formed channels\<close>

text \<open>The 20 MHz segments of a channel of one piece, and the channels whose fields fit together.\<close>

definition n_segments :: "osw_channel \<Rightarrow> nat" where
  "n_segments c = nat (osw_channel_width_num_segments (width c))"

definition leftmost :: "osw_channel \<Rightarrow> int" where
  "leftmost c = center_freq0_mhz c - osw_channel_width_offsets (width c) * 5"

definition chan_segments :: "osw_channel \<Rightarrow> int list" where
  "chan_segments c = map (\<lambda>i. leftmost c + 20 * int i) [0..<n_segments c]"

definition channel_wf :: "osw_channel \<Rightarrow> bool" where
  "channel_wf c \<longleftrightarrow>
     width c \<noteq> OSW_CHANNEL_80P80MHZ \<and> control_freq_mhz c \<in> set (chan_segments c) \<and>
     take_bit (n_segments c) (puncture_bitmap c) = puncture_bitmap c"

text \<open>
  \<open>c'\<close> is a part of \<open>c\<close> from segment \<open>s\<close> on: the same control frequency, a run of its segments, each
  with the puncturing it had.
\<close>

definition narrowed :: "nat \<Rightarrow> osw_channel \<Rightarrow> osw_channel \<Rightarrow> bool" where
  "narrowed s c c' \<longleftrightarrow>
     control_freq_mhz c' = control_freq_mhz c \<and> s + n_segments c' \<le> n_segments c \<and>
     leftmost c' = leftmost c + 20 * int s \<and>
     (\<forall>i<n_segments c'. bit (puncture_bitmap c') i \<longleftrightarrow> bit (puncture_bitmap c) (s + i))"

lemma narrowed_refl: "narrowed 0 c c"
  by (simp add: narrowed_def)

lemma narrowed_trans: "narrowed s a b \<Longrightarrow> narrowed t b c \<Longrightarrow> narrowed (s + t) a c"
  by (auto simp: narrowed_def add.assoc)

lemma narrowed_segments:
  assumes "narrowed s c c'"
  shows "chan_segments c' = take (n_segments c') (drop s (chan_segments c))"
  using assms
  by (intro nth_equalityI) (auto simp: narrowed_def chan_segments_def min_def)

lemma low_mask: "(word_of_int (2 ^ n - 1) :: u16) = mask n"
  by (simp add: mask_eq_exp_minus_1)

lemma control_index:
  "channel_wf c \<Longrightarrow> \<exists>k<n_segments c. control_freq_mhz c = leftmost c + 20 * int k"
  by (auto simp: channel_wf_def chan_segments_def)

lemma control_in_segments:
  "k < n_segments c \<Longrightarrow> control_freq_mhz c = leftmost c + 20 * int k \<Longrightarrow>
     control_freq_mhz c \<in> set (chan_segments c)"
  by (auto simp: chan_segments_def)

lemma downgrade_step:
  assumes wf: "channel_wf c" and w: "width c \<noteq> OSW_CHANNEL_20MHZ"
  shows "\<exists>c' s. osw_channel_downgrade c = (True, c') \<and> channel_wf c' \<and> narrowed s c c' \<and>
           width c' = snd (osw_channel_width_down (width c)) \<and> 2 * n_segments c' = n_segments c \<and>
           (s = 0 \<or> s = n_segments c')"
proof -
  obtain k where k: "k < n_segments c" and ctl: "control_freq_mhz c = leftmost c + 20 * int k"
    using control_index [OF wf] by auto
  define h where "h = n_segments c div 2"
  have P: "width c \<noteq> OSW_CHANNEL_80P80MHZ" using wf by (simp add: channel_wf_def)
  define c' where "c' = snd (osw_channel_downgrade c)"
  define s where "s = (if k < h then 0 else h)"
  have *: "fst (osw_channel_downgrade c)" "n_segments c = 2 * h" "n_segments c' = h"
    "width c' = snd (osw_channel_width_down (width c))"
    "width c' \<noteq> OSW_CHANNEL_80P80MHZ" "control_freq_mhz c' = control_freq_mhz c"
    "leftmost c' = leftmost c + 20 * int s"
    "puncture_bitmap c' = drop_bit s (puncture_bitmap c) AND mask h"
    using P w k ctl
    by (cases "width c"; simp add: osw_channel_downgrade_def Let_def h_def s_def c'_def n_segments_def
        leftmost_def low_mask [symmetric]; linarith)+
  have b: "bit (puncture_bitmap c') i \<longleftrightarrow> i < h \<and> bit (puncture_bitmap c) (s + i)" for i
    by (auto simp: *(8) bit_and_iff bit_drop_bit_eq bit_mask_iff dest: bit_imp_le_length)
  have "take_bit h (puncture_bitmap c') = puncture_bitmap c'"
    by (rule bit_eqI) (auto simp: bit_take_bit_iff b)
  moreover have "control_freq_mhz c' \<in> set (chan_segments c')"
    using k ctl * by (intro control_in_segments [of "k - s"]) (auto simp: s_def)
  ultimately have "channel_wf c'" using *(3,5) by (simp add: channel_wf_def)
  moreover have "narrowed s c c'" using * b by (auto simp: narrowed_def s_def)
  ultimately show ?thesis
    using * by (intro exI [of _ c'] exI [of _ s]) (auto simp: c'_def s_def prod_eq_iff)
qed

lemma downgrade_fails:
  "width c \<in> {OSW_CHANNEL_20MHZ, OSW_CHANNEL_80P80MHZ} \<Longrightarrow> osw_channel_downgrade c = (False, c)"
  by (auto simp: osw_channel_downgrade_def)

lemma width_down_below:
  "w \<le> v \<Longrightarrow> w \<noteq> v \<Longrightarrow> w \<noteq> OSW_CHANNEL_80P80MHZ \<Longrightarrow> v \<noteq> OSW_CHANNEL_80P80MHZ \<Longrightarrow>
     v \<noteq> OSW_CHANNEL_20MHZ \<and> w \<le> snd (osw_channel_width_down v)"
  by (cases v; cases w) (simp_all add: less_eq_osw_channel_width_def)

lemma downgrade_loop_wf:
  "channel_wf c \<Longrightarrow> w \<le> width c \<Longrightarrow> w \<noteq> OSW_CHANNEL_80P80MHZ \<Longrightarrow>
     \<exists>c' s. downgrade_loop c w = (True, c') \<and> channel_wf c' \<and> narrowed s c c' \<and> width c' = w \<and>
       n_segments c' dvd s"
proof (induction c w rule: downgrade_loop.induct)
  case (1 c w)
  show ?case
  proof (cases "width c = w")
    case True
    then show ?thesis
      using "1.prems" narrowed_refl [of c]
      by (intro exI [of _ c] exI [of _ 0]) (simp add: downgrade_loop.simps)
  next
    case False
    have P: "width c \<noteq> OSW_CHANNEL_80P80MHZ" using "1.prems" by (simp add: channel_wf_def)
    have d: "width c \<noteq> OSW_CHANNEL_20MHZ" "w \<le> snd (osw_channel_width_down (width c))"
      using width_down_below [OF "1.prems"(2) _ "1.prems"(3) P] False by auto
    obtain c1 s1 where c1: "osw_channel_downgrade c = (True, c1)" "channel_wf c1" "narrowed s1 c c1"
      "width c1 = snd (osw_channel_width_down (width c))" "s1 = 0 \<or> s1 = n_segments c1"
      using downgrade_step [OF "1.prems"(1) d(1)] by auto
    obtain c' s where c': "downgrade_loop c1 w = (True, c')" "channel_wf c'" "narrowed s c1 c'"
      "width c' = w" "n_segments c' dvd s"
      using "1.IH" [of "(True, c1)" True c1] False c1 d "1.prems"(3) by auto
    have "n_segments c' dvd n_segments c1"
      using c'(3) by (auto simp: narrowed_def n_segments_def)
        (cases "width c1"; cases "width c'"; simp)
    then have "n_segments c' dvd s1 + s" using c1(5) c'(5) by auto
    then show ?thesis
      using False c1(1) c' narrowed_trans [OF c1(3) c'(3)]
      by (intro exI [of _ c'] exI [of _ "s1 + s"]) (simp add: downgrade_loop.simps)
  qed
qed

lemma segment_gap: "control_freq_mhz c = leftmost c + 20 * int k \<Longrightarrow> width c = OSW_CHANNEL_40MHZ \<Longrightarrow>
    k < 2 \<Longrightarrow> control_freq_mhz c < center_freq0_mhz c \<longleftrightarrow> k = 0"
  by (auto simp: leftmost_def)

lemma segments_loop_eq:
  "n \<le> length segments \<Longrightarrow>
     segments_loop freq (freq + 20 * int m - 20) n segments =
       (if n + m \<le> length segments
        then (n + m, take n segments @ map (\<lambda>i. Some (freq + 20 * int i)) [0..<m]
                       @ drop (n + m) segments)
        else (0, take n segments @
                   map (\<lambda>i. Some (freq + 20 * int i)) [0..<length segments - n]))"
proof (induction m arbitrary: freq n segments)
  case 0
  then show ?case by (simp add: segments_loop.simps)
next
  case (Suc m)
  show ?case
  proof (cases "n < length segments")
    case True
    have e: "freq + 20 * int (Suc m) - 20 = freq + 20 + 20 * int m - 20" by simp
    have up: "map (\<lambda>i. Some (freq + 20 * int i)) [0..<Suc j] =
        Some freq # map (\<lambda>i. Some (freq + 20 + 20 * int i)) [0..<j]" for j
      by (simp add: map_upt_Suc del: upt_Suc)
    have d: "length segments - n = Suc (length segments - Suc n)" using True by simp
    show ?thesis
      using True Suc.IH [of "Suc n" "segments[n := Some freq]" "freq + 20"]
      unfolding e up d
      by (subst segments_loop.simps)
        (auto simp: take_Suc_conv_app_nth algebra_simps simp del: upt_Suc)
  next
    case False
    then show ?thesis using Suc.prems by (subst segments_loop.simps) simp
  qed
qed

lemma segments_raw_eq:
  "osw_channel_20mhz_segments_raw center (int n) segments =
     (let f = (\<lambda>i. Some (center + 10 - 10 * int n + 20 * int i)) in
      if n \<le> length segments then (n, map f [0..<n] @ drop n segments)
      else (0, map f [0..<length segments]))"
proof -
  have "c_div (5 * 4 * int n) 2 = 10 * int n" "c_div 20 2 = 10" by simp_all
  then show ?thesis
    using segments_loop_eq [of 0 segments "center + 10 - 10 * int n" n]
    by (simp add: osw_channel_20mhz_segments_raw_def Let_def algebra_simps)
qed

text \<open>The result of the function on a buffer, error branch included.\<close>

definition fill :: "int list \<Rightarrow> int_buf \<Rightarrow> nat \<times> int_buf" where
  "fill fs segments =
     (if length fs \<le> length segments
      then (length fs, map Some fs @ drop (length fs) segments)
      else (0, map Some (take (length segments) fs)))"

lemma leftmost_eq:
  "width c \<noteq> OSW_CHANNEL_80P80MHZ \<Longrightarrow> leftmost c = center_freq0_mhz c + 10 - 10 * int (n_segments c)"
  by (cases "width c") (simp_all add: leftmost_def n_segments_def)

lemma segments_eq_fill:
  assumes "control_freq_mhz c \<noteq> 0" "center_freq0_mhz c \<noteq> 0" "width c \<noteq> OSW_CHANNEL_80P80MHZ"
  shows "osw_channel_20mhz_segments c segments = Some (fill (chan_segments c) segments)"
proof -
  have r: "osw_channel_20mhz_segments_raw (center_freq0_mhz c) (int (n_segments c)) segments =
      fill (chan_segments c) segments"
    unfolding segments_raw_eq fill_def Let_def chan_segments_def leftmost_eq [OF assms(3)]
    by (simp add: take_map min_def)
  show ?thesis
    using assms r
    by (cases "width c")
      (simp_all add: osw_channel_20mhz_segments_def osw_channel_compute_center_freq_def n_segments_def)
qed

section \<open>Properties\<close>

lemma downgrade_loop_80p80:
  "channel_wf c \<Longrightarrow> \<exists>c'. downgrade_loop c OSW_CHANNEL_80P80MHZ = (False, c') \<and> width c' = OSW_CHANNEL_20MHZ"
proof (induction "width_index (width c)" arbitrary: c rule: less_induct)
  case less
  have P: "width c \<noteq> OSW_CHANNEL_80P80MHZ" using less.prems by (simp add: channel_wf_def)
  show ?case
  proof (cases "width c = OSW_CHANNEL_20MHZ")
    case True
    then show ?thesis using P by (subst downgrade_loop.simps) (simp add: downgrade_fails)
  next
    case False
    obtain c1 s where c1: "osw_channel_downgrade c = (True, c1)" "channel_wf c1"
      using downgrade_step [OF less.prems False] by auto
    show ?thesis
      using less.hyps [OF downgrade_narrower [OF c1(1)] c1(2)] P c1(1)
      by (subst downgrade_loop.simps) simp
  qed
qed

text \<open>
  C15. Downgrading a well-formed channel to a width it can have succeeds and gives a well-formed
  channel of exactly that width: the control frequency stays, the remaining segments are a run of
  the old ones aligned to the new width, and each keeps its puncturing bit. A request for a wider
  channel changes nothing. A request for 80+80 MHz from 320 MHz is the one failure that is not
  free of effects: it leaves the channel at 20 MHz.
\<close>

theorem osw_channel_downgrade_to_correct:
  assumes "channel_wf c"
  shows "(w \<le> width c \<and> w \<noteq> OSW_CHANNEL_80P80MHZ \<longrightarrow>
            (\<exists>c' s. osw_channel_downgrade_to c w = (True, c') \<and> channel_wf c' \<and> width c' = w \<and>
               narrowed s c c' \<and> n_segments c' dvd s)) \<and>
         (width c < w \<longrightarrow> osw_channel_downgrade_to c w = (False, c)) \<and>
         (width c = OSW_CHANNEL_320MHZ \<longrightarrow>
            (\<exists>c'. osw_channel_downgrade_to c OSW_CHANNEL_80P80MHZ = (False, c') \<and>
               width c' = OSW_CHANNEL_20MHZ))"
  using downgrade_loop_wf [OF assms, of w] downgrade_loop_80p80 [OF assms]
  by (auto simp: osw_channel_downgrade_to_def less_osw_channel_width_def not_less [symmetric])

definition chan_36_160 :: osw_channel where
  "chan_36_160 = \<lparr>width = OSW_CHANNEL_160MHZ, control_freq_mhz = 5260, center_freq0_mhz = 5250,
     center_freq1_mhz = 0, puncture_bitmap = 0x60\<rparr>"

lemma chan_36_160_wf: "channel_wf chan_36_160"
  by code_simp

theorem osw_channel_downgrade_to_correct_witness:
  "channel_wf chan_36_160 \<and>
   (\<exists>c' s. osw_channel_downgrade_to chan_36_160 OSW_CHANNEL_40MHZ = (True, c') \<and> channel_wf c' \<and>
      width c' = OSW_CHANNEL_40MHZ \<and> narrowed s chan_36_160 c' \<and> n_segments c' dvd s) \<and>
   osw_channel_downgrade_to chan_36_160 OSW_CHANNEL_320MHZ = (False, chan_36_160)"
proof -
  have "OSW_CHANNEL_40MHZ \<le> width chan_36_160" "width chan_36_160 < OSW_CHANNEL_320MHZ"
    by code_simp+
  then show ?thesis
    using osw_channel_downgrade_to_correct [OF chan_36_160_wf, of OSW_CHANNEL_40MHZ]
      osw_channel_downgrade_to_correct [OF chan_36_160_wf, of OSW_CHANNEL_320MHZ] chan_36_160_wf
    by blast
qed

text \<open>
  \<open>osw_channel_ht40_offset\<close> of a well-formed channel that is at least 40 MHz wide is 1 when the
  control segment is the lower one of its aligned 40 MHz pair, so that the secondary channel lies
  above it, and -1 when it is the upper one; a 20 MHz channel has no secondary channel and gives 0.
\<close>

lemma osw_channel_ht40_offset_correct:
  assumes "channel_wf c" "center_freq0_mhz c \<noteq> 0" "k < n_segments c"
    "control_freq_mhz c = leftmost c + 20 * int k"
  shows "osw_channel_ht40_offset c =
           Some (if width c = OSW_CHANNEL_20MHZ then 0 else if even k then 1 else - 1)"
proof (cases "width c = OSW_CHANNEL_20MHZ")
  case True
  then show ?thesis using assms(2)
    by (simp add: osw_channel_ht40_offset_def osw_channel_downgrade_to_def less_osw_channel_width_def)
next
  case False
  then have le: "OSW_CHANNEL_40MHZ \<le> width c"
    by (cases "width c") (simp_all add: less_eq_osw_channel_width_def)
  obtain c' s where c': "downgrade_loop c OSW_CHANNEL_40MHZ = (True, c')" "channel_wf c'"
    "narrowed s c c'" "width c' = OSW_CHANNEL_40MHZ" "n_segments c' dvd s"
    using downgrade_loop_wf [OF assms(1) le] by auto
  have n: "n_segments c' = 2" using c'(4) by (simp add: n_segments_def)
  obtain k' where k': "k' < 2" "control_freq_mhz c' = leftmost c' + 20 * int k'"
    using control_index [OF c'(2)] n by auto
  have kk: "k = s + k'" using c'(3) k'(2) assms(4) by (simp add: narrowed_def)
  have "even s" using c'(5) n by simp
  then have "even k \<longleftrightarrow> k' = 0" using kk k'(1) by (auto simp: less_2_cases_iff)
  moreover have "control_freq_mhz c' < center_freq0_mhz c' \<longleftrightarrow> k' = 0"
    using segment_gap [OF k'(2) c'(4) k'(1)] .
  moreover have "k' \<noteq> 0 \<longrightarrow> control_freq_mhz c' > center_freq0_mhz c'"
    using k' c'(4) by (auto simp: leftmost_def less_2_cases_iff)
  moreover have "\<not> width c < OSW_CHANNEL_40MHZ" using le by (rule leD)
  ultimately show ?thesis
    using assms(2) c'(1) False by (auto simp: osw_channel_ht40_offset_def osw_channel_downgrade_to_def)
qed

lemma osw_channel_ht40_offset_correct_witness:
  "osw_channel_ht40_offset chan_36_160 = Some 1"
proof -
  have "center_freq0_mhz chan_36_160 \<noteq> 0" "4 < n_segments chan_36_160"
    "control_freq_mhz chan_36_160 = leftmost chan_36_160 + 20 * int 4"
    "width chan_36_160 \<noteq> OSW_CHANNEL_20MHZ"
    by code_simp+
  then show ?thesis using osw_channel_ht40_offset_correct [OF chan_36_160_wf, of 4] by simp
qed

text \<open>
  C16. For a channel of one piece \<open>osw_channel_20mhz_segments\<close> writes the frequencies of its
  segments, 20 MHz apart and symmetric about the centre, to the front of the array and returns
  their number; an array that is too small makes it return 0. A well-formed channel finds its
  control frequency among them. A channel without control frequency has no segments, and one
  without centre frequency fails the assertion.
\<close>

theorem osw_channel_20mhz_segments_correct:
  assumes "width c \<noteq> OSW_CHANNEL_80P80MHZ"
  shows "osw_channel_20mhz_segments c segments =
           (if control_freq_mhz c = 0 then Some (0, segments)
            else if center_freq0_mhz c = 0 then None
            else Some (if n_segments c \<le> length segments
              then (n_segments c, map Some (chan_segments c) @ drop (n_segments c) segments)
              else (0, map Some (take (length segments) (chan_segments c))))) \<and>
         length (chan_segments c) = n_segments c \<and>
         hd (chan_segments c) + last (chan_segments c) = 2 * center_freq0_mhz c \<and>
         (channel_wf c \<longrightarrow> control_freq_mhz c \<in> set (chan_segments c))"
proof -
  have len: "length (chan_segments c) = n_segments c" by (simp add: chan_segments_def)
  have "n_segments c > 0" by (cases "width c") (simp_all add: n_segments_def)
  then obtain m where m: "n_segments c = Suc m" by (cases "n_segments c") auto
  have "hd (chan_segments c) = leftmost c"
    by (simp add: chan_segments_def m hd_map del: upt_Suc)
  moreover have "last (chan_segments c) = leftmost c + 20 * int m"
    by (simp add: chan_segments_def m)
  ultimately have "hd (chan_segments c) + last (chan_segments c) = 2 * center_freq0_mhz c"
    using leftmost_eq [OF assms] m by simp
  moreover have "channel_wf c \<longrightarrow> control_freq_mhz c \<in> set (chan_segments c)"
    by (simp add: channel_wf_def)
  ultimately show ?thesis
  proof (cases "control_freq_mhz c = 0 \<or> center_freq0_mhz c = 0")
    case True
    with \<open>hd _ + _ = _\<close> \<open>channel_wf c \<longrightarrow> _\<close> len show ?thesis
      by (auto simp: osw_channel_20mhz_segments_def)
  next
    case False
    then have "osw_channel_20mhz_segments c segments = Some (fill (chan_segments c) segments)"
      using segments_eq_fill assms by simp
    with \<open>hd _ + _ = _\<close> \<open>channel_wf c \<longrightarrow> _\<close> len False show ?thesis by (simp add: fill_def)
  qed
qed

theorem osw_channel_20mhz_segments_correct_witness:
  "osw_channel_20mhz_segments chan_36_160 (replicate 16 None) =
     Some (8, map Some [5180, 5200, 5220, 5240, 5260, 5280, 5300, 5320] @ replicate 8 None)"
proof -
  have "width chan_36_160 \<noteq> OSW_CHANNEL_80P80MHZ" "control_freq_mhz chan_36_160 \<noteq> 0"
    "center_freq0_mhz chan_36_160 \<noteq> 0" "n_segments chan_36_160 = 8"
    "chan_segments chan_36_160 = [5180, 5200, 5220, 5240, 5260, 5280, 5300, 5320]"
    by code_simp+
  then show ?thesis
    using osw_channel_20mhz_segments_correct [of chan_36_160 "replicate 16 None"] by simp
qed

text \<open>
  C17. For an 80+80 MHz channel the second block is written over the first: the count returned is 8,
  the four elements written are the segments around \<open>center_freq1_mhz\<close>, and the other four are
  whatever the array held. \<open>osw_channel_overlaps_dfs\<close> on such a channel therefore misses the
  segments around \<open>center_freq0_mhz\<close> and, unless the second block is a DFS one, reads memory that
  was never written.
\<close>

theorem osw_channel_20mhz_segments_80p80:
  assumes "width c = OSW_CHANNEL_80P80MHZ" "control_freq_mhz c \<noteq> 0" "center_freq0_mhz c \<noteq> 0"
    "4 \<le> length segments"
  shows "osw_channel_20mhz_segments c segments =
           Some (8, map (\<lambda>i. Some (center_freq1_mhz c - 30 + 20 * int i)) [0..<4] @ drop 4 segments) \<and>
         osw_channel_overlaps_dfs c =
           (if list_ex (\<lambda>i. osw_freq_is_dfs (center_freq1_mhz c - 30 + 20 * int i)) [0..<4]
            then Some True else None)"
proof -
  have raw: "osw_channel_20mhz_segments_raw f 4 b =
      (4, map (\<lambda>i. Some (f - 30 + 20 * int i)) [0..<4] @ drop 4 b)" if "4 \<le> length b" for f b
    using segments_raw_eq [of f 4 b] that by (simp add: Let_def)
  have seg: "osw_channel_20mhz_segments c b =
      Some (8, map (\<lambda>i. Some (center_freq1_mhz c - 30 + 20 * int i)) [0..<4] @ drop 4 b)"
    if "4 \<le> length b" for b
    using assms(1-3) that
    by (simp add: osw_channel_20mhz_segments_def osw_channel_compute_center_freq_def raw Let_def)
  have scan4: "dfs_scan (replicate 4 None) = None" by (simp add: numeral_eq_Suc)
  have upt4: "[0..<4] = [0, 1, 2, 3 :: nat]" by (simp add: upt_rec)
  show ?thesis
    using assms seg [of segments] seg [of "replicate 16 None"]
    by (simp add: osw_channel_overlaps_dfs_def) (simp add: upt4 scan4)
qed

definition chan_80p80 :: osw_channel where
  "chan_80p80 = \<lparr>width = OSW_CHANNEL_80P80MHZ, control_freq_mhz = 5260, center_freq0_mhz = 5290,
     center_freq1_mhz = 5775, puncture_bitmap = 0\<rparr>"

theorem osw_channel_20mhz_segments_80p80_witness:
  "osw_channel_20mhz_segments chan_80p80 (replicate 16 None) =
     Some (8, map Some [5745, 5765, 5785, 5805] @ replicate 12 None) \<and>
   osw_channel_overlaps_dfs chan_80p80 = None \<and> osw_freq_is_dfs (control_freq_mhz chan_80p80)"
proof -
  have "width chan_80p80 = OSW_CHANNEL_80P80MHZ" "control_freq_mhz chan_80p80 \<noteq> 0"
    "center_freq0_mhz chan_80p80 \<noteq> 0" "4 \<le> length (replicate 16 (None :: int option))"
    "osw_freq_is_dfs (control_freq_mhz chan_80p80)"
    "\<not> list_ex (\<lambda>i. osw_freq_is_dfs (center_freq1_mhz chan_80p80 - 30 + 20 * int i)) [0..<4]"
    "map (\<lambda>i. Some (center_freq1_mhz chan_80p80 - 30 + 20 * int i)) [0..<4] =
       map Some [5745, 5765, 5785, 5805]"
    by code_simp+
  then show ?thesis
    using osw_channel_20mhz_segments_80p80 [of chan_80p80 "replicate 16 None"] by simp
qed

lemma freq_to_band_5: "osw_freq_to_band freq = OSW_BAND_5GHZ \<longleftrightarrow> 5180 \<le> freq \<and> freq \<le> 5885"
  by (simp add: osw_freq_to_band_def Let_def)

lemma freq_to_band_6:
  "osw_freq_to_band freq = OSW_BAND_6GHZ \<longleftrightarrow> freq = 5935 \<or> 5955 \<le> freq \<and> freq \<le> 7115"
  by (simp add: osw_freq_to_band_def Let_def)

lemma freq_to_band_2:
  "osw_freq_to_band freq = OSW_BAND_2GHZ \<longleftrightarrow> freq = 2484 \<or> 2412 \<le> freq \<and> freq \<le> 2472"
  by (simp add: osw_freq_to_band_def Let_def)

lemma freq_to_chan_2: "2412 \<le> freq \<Longrightarrow> freq \<le> 2472 \<Longrightarrow> osw_freq_to_chan freq = (freq - 2407) div 5"
  and freq_to_chan_5: "5180 \<le> freq \<Longrightarrow> freq \<le> 5885 \<Longrightarrow> osw_freq_to_chan freq = (freq - 5000) div 5"
  and freq_to_chan_6: "5955 \<le> freq \<Longrightarrow> freq \<le> 7115 \<Longrightarrow> osw_freq_to_chan freq = (freq - 5950) div 5"
  and freq_to_chan_special: "osw_freq_to_chan 2484 = 14" "osw_freq_to_chan 5935 = 2"
  by (simp_all add: osw_freq_to_chan_def Let_def)

text \<open>
  C18. Channel numbers and frequencies determine each other inside a band: the frequency of a channel
  number of the band lies in the band and has that number, and a frequency on the 5 MHz raster of
  the 5 GHz or 6 GHz band, other than the 5960 MHz that the special channel 2 shadows, is the
  frequency of its channel number.
\<close>

theorem osw_chan_freq_roundtrip:
  "(1 \<le> ch \<and> ch \<le> 14 \<longrightarrow>
      osw_freq_to_chan (osw_chan_to_freq OSW_BAND_2GHZ ch) = ch \<and>
      osw_freq_to_band (osw_chan_to_freq OSW_BAND_2GHZ ch) = OSW_BAND_2GHZ) \<and>
   (36 \<le> ch \<and> ch \<le> 177 \<longrightarrow>
      osw_freq_to_chan (osw_chan_to_freq OSW_BAND_5GHZ ch) = ch \<and>
      osw_freq_to_band (osw_chan_to_freq OSW_BAND_5GHZ ch) = OSW_BAND_5GHZ) \<and>
   (1 \<le> ch \<and> ch \<le> 233 \<longrightarrow>
      osw_freq_to_chan (osw_chan_to_freq OSW_BAND_6GHZ ch) = ch \<and>
      osw_freq_to_band (osw_chan_to_freq OSW_BAND_6GHZ ch) = OSW_BAND_6GHZ) \<and>
   (5 dvd freq \<and> freq \<noteq> 5960 \<and> osw_freq_to_band freq \<in> {OSW_BAND_5GHZ, OSW_BAND_6GHZ} \<longrightarrow>
      osw_chan_to_freq (osw_freq_to_band freq) (osw_freq_to_chan freq) = freq) \<and>
   osw_chan_to_freq (osw_freq_to_band 5960) (osw_freq_to_chan 5960) = 5935"
proof -
  have "5 dvd freq \<and> freq \<noteq> 5960 \<and> osw_freq_to_band freq \<in> {OSW_BAND_5GHZ, OSW_BAND_6GHZ} \<longrightarrow>
      osw_chan_to_freq (osw_freq_to_band freq) (osw_freq_to_chan freq) = freq"
  proof (intro impI, elim conjE)
    assume d5: "5 dvd freq" and n: "freq \<noteq> 5960"
      and b56: "osw_freq_to_band freq \<in> {OSW_BAND_5GHZ, OSW_BAND_6GHZ}"
    obtain m where m: "freq = 5 * m" using d5 unfolding dvd_def by blast
    consider "osw_freq_to_band freq = OSW_BAND_5GHZ" "5180 \<le> freq" "freq \<le> 5885"
      | "osw_freq_to_band freq = OSW_BAND_6GHZ" "freq = 5935"
      | "osw_freq_to_band freq = OSW_BAND_6GHZ" "5955 \<le> freq" "freq \<le> 7115"
      using b56 by (auto simp: freq_to_band_5 freq_to_band_6)
    then show "osw_chan_to_freq (osw_freq_to_band freq) (osw_freq_to_chan freq) = freq"
    proof cases
      case 1
      then have "osw_freq_to_chan freq = m - 1000" by (simp add: freq_to_chan_5 m)
      then show "osw_chan_to_freq (osw_freq_to_band freq) (osw_freq_to_chan freq) = freq" using 1 m by simp
    next
      case 2
      then show "osw_chan_to_freq (osw_freq_to_band freq) (osw_freq_to_chan freq) = freq" by (simp add: freq_to_chan_special)
    next
      case 3
      then have "osw_freq_to_chan freq = m - 1190" by (simp add: freq_to_chan_6 m)
      then show "osw_chan_to_freq (osw_freq_to_band freq) (osw_freq_to_chan freq) = freq" using 3 m n by simp
    qed
  qed
  moreover have "osw_chan_to_freq (osw_freq_to_band 5960) (osw_freq_to_chan 5960) = 5935"
    by code_simp
  moreover have "1 \<le> ch \<and> ch \<le> 14 \<longrightarrow>
      osw_freq_to_chan (osw_chan_to_freq OSW_BAND_2GHZ ch) = ch \<and>
      osw_freq_to_band (osw_chan_to_freq OSW_BAND_2GHZ ch) = OSW_BAND_2GHZ"
    by (cases "ch = 14") (auto simp: freq_to_band_2 freq_to_chan_2 freq_to_chan_special)
  moreover have "36 \<le> ch \<and> ch \<le> 177 \<longrightarrow>
      osw_freq_to_chan (osw_chan_to_freq OSW_BAND_5GHZ ch) = ch \<and>
      osw_freq_to_band (osw_chan_to_freq OSW_BAND_5GHZ ch) = OSW_BAND_5GHZ"
    by (auto simp: freq_to_band_5 freq_to_chan_5)
  moreover have "1 \<le> ch \<and> ch \<le> 233 \<longrightarrow>
      osw_freq_to_chan (osw_chan_to_freq OSW_BAND_6GHZ ch) = ch \<and>
      osw_freq_to_band (osw_chan_to_freq OSW_BAND_6GHZ ch) = OSW_BAND_6GHZ"
    by (cases "ch = 2") (auto simp: freq_to_band_6 freq_to_chan_6 freq_to_chan_special)
  ultimately show ?thesis by (intro conjI) assumption+
qed

theorem osw_chan_freq_roundtrip_witness:
  "osw_freq_to_chan (osw_chan_to_freq OSW_BAND_2GHZ 14) = 14 \<and>
   osw_freq_to_chan (osw_chan_to_freq OSW_BAND_5GHZ 100) = 100 \<and>
   osw_freq_to_chan (osw_chan_to_freq OSW_BAND_6GHZ 2) = 2 \<and>
   osw_chan_to_freq (osw_freq_to_band 5180) (osw_freq_to_chan 5180) = 5180"
proof -
  have "5 dvd (5180 :: int) \<and> osw_freq_to_band 5180 \<in> {OSW_BAND_5GHZ, OSW_BAND_6GHZ}" by code_simp
  then show ?thesis
    using osw_chan_freq_roundtrip [of 14 5180] osw_chan_freq_roundtrip [of 100 5180]
      osw_chan_freq_roundtrip [of 2 5180]
    by simp
qed

section \<open>Computing the centre frequency\<close>

lemma tables_bounds:
  "table_ok (\<lambda>w cs. chan_block w cs \<and> list_all (\<lambda>ch. 36 \<le> ch \<and> ch \<le> 177) cs) unii_5g_lists"
  "table_ok (\<lambda>w cs. chan_block w cs \<and> list_all (\<lambda>ch. ch \<le> 233 \<and> odd ch) cs) g_unii_6g_channels"
  by code_simp+

text \<open>The channels the U-NII table of a band has at a width.\<close>

definition unii_chans :: "osw_band \<Rightarrow> int \<Rightarrow> int list" where
  "unii_chans b w =
     (if b = OSW_BAND_5GHZ then table_chans unii_5g_lists w else table_chans g_unii_6g_channels w)"

lemma sidebands_block:
  assumes "b \<in> {OSW_BAND_5GHZ, OSW_BAND_6GHZ}" "ch \<in> set (unii_chans b w)"
  shows "\<exists>cs q. osw_channel_sidebands b ch w m = Some (Some (cs @ 0 # q)) \<and> 0 \<notin> set cs \<and>
           ch \<in> set cs \<and> chan_block w cs \<and> osw_chan_to_freq b ch = osw_chan_to_freq b 0 + 5 * ch \<and>
           osw_chan_to_freq b (hd cs + 2 * (int (length cs) - 1)) =
             osw_chan_to_freq b 0 + 5 * (hd cs + 2 * (int (length cs) - 1)) \<and>
           osw_freq_to_band (osw_chan_to_freq b ch) = b \<and> osw_freq_to_chan (osw_chan_to_freq b ch) = ch"
proof (cases "b = OSW_BAND_5GHZ")
  case True
  have "osw_channel_sidebands b ch w m \<noteq> Some None"
    using assms(2) True chan2list_find_none [OF tables_bounds(1)]
    by (simp add: unii_chans_def unii_5g_chan2list_def)
  then obtain cs q where cs: "osw_channel_sidebands b ch w m = Some (Some (cs @ 0 # q))" "0 \<notin> set cs"
    "ch \<in> set cs" "chan_block w cs" "list_all (\<lambda>ch. 36 \<le> ch \<and> ch \<le> 177) cs"
    using chan2list_find_total [OF tables_bounds(1), of ch w] True by (auto simp: unii_5g_chan2list_def)
  have "36 \<le> ch" "ch \<le> 177" using cs(3,5) by (auto simp: list_all_iff)
  then show ?thesis using cs True
    by (intro exI [of _ cs] exI [of _ q]) (simp add: freq_to_band_5 freq_to_chan_5)
next
  case False
  then have b: "b = OSW_BAND_6GHZ" using assms(1) by simp
  have "osw_channel_sidebands b ch w m \<noteq> Some None"
    using assms(2) b chan2list_find_none [OF tables_bounds(2)]
    by (simp add: unii_chans_def unii_6g_chan2list_def)
  then obtain cs q where cs: "osw_channel_sidebands b ch w m = Some (Some (cs @ 0 # q))" "0 \<notin> set cs"
    "ch \<in> set cs" "chan_block w cs" "list_all (\<lambda>ch. ch \<le> 233 \<and> odd ch) cs"
    using chan2list_find_total [OF tables_bounds(2), of ch w] b by (auto simp: unii_6g_chan2list_def)
  have "hd cs \<in> set cs" using cs(4) by (simp add: chan_block_def)
  then have "odd (hd cs)" "ch \<le> 233" "odd ch" using cs(3,5) by (auto simp: list_all_iff)
  moreover have "hd cs > 0" using cs(4) by (simp add: chan_block_def)
  moreover have "ch \<ge> hd cs"
  proof -
    have "ch \<in> set (map (\<lambda>i. hd cs + 4 * int i) [0..<length cs])"
      using cs(3,4) unfolding chan_block_def by argo
    then show ?thesis by auto
  qed
  ultimately have "odd (hd cs + 2 * (int (length cs) - 1))" "1 \<le> ch" "ch \<le> 233" "ch \<noteq> 2" by auto
  moreover have "hd cs + 2 * (int (length cs) - 1) \<noteq> 2" using \<open>odd (hd cs)\<close> by presburger
  ultimately show ?thesis using cs b
    by (intro exI [of _ cs] exI [of _ q]) (simp add: freq_to_band_6 freq_to_chan_6)
qed

lemma osw_chan_avg_eq: "osw_chan_avg chans = chanlist_to_center chans"
  by (simp add: osw_chan_avg_def chanlist_to_center_def)

text \<open>
  For a control channel that the U-NII table of the 5 GHz or 6 GHz band has at the width,
  \<open>osw_channel_compute_center_freq\<close> fills in a centre that makes the channel well-formed and
  leaves the other fields alone; it never overwrites a centre that is already there. When the
  table has no such channel the failure is silent: the centre becomes the base frequency of the
  band.
\<close>

lemma osw_channel_compute_center_freq_correct:
  assumes "b \<in> {OSW_BAND_5GHZ, OSW_BAND_6GHZ}" "control_freq_mhz c = osw_chan_to_freq b ch"
    "width c \<noteq> OSW_CHANNEL_80P80MHZ" "puncture_bitmap c = 0"
    "osw_freq_to_band (control_freq_mhz c) = b" "osw_freq_to_chan (control_freq_mhz c) = ch"
  shows "(center_freq0_mhz c \<noteq> 0 \<longrightarrow> osw_channel_compute_center_freq c m = Some c) \<and>
         (center_freq0_mhz c = 0 \<and> ch \<in> set (unii_chans b (osw_channel_width_to_mhz (width c))) \<longrightarrow>
            (\<exists>f. osw_channel_compute_center_freq c m = Some (c\<lparr>center_freq0_mhz := f\<rparr>) \<and>
               channel_wf (c\<lparr>center_freq0_mhz := f\<rparr>))) \<and>
         (center_freq0_mhz c = 0 \<and> ch \<notin> set (unii_chans b (osw_channel_width_to_mhz (width c))) \<longrightarrow>
            osw_channel_compute_center_freq c m =
              Some (c\<lparr>center_freq0_mhz := osw_chan_to_freq b 0\<rparr>))"
proof (intro conjI impI)
  show "osw_channel_compute_center_freq c m = Some c" if "center_freq0_mhz c \<noteq> 0"
    using that by (simp add: osw_channel_compute_center_freq_def)
next
  let ?w = "osw_channel_width_to_mhz (width c)"
  assume c: "center_freq0_mhz c = 0 \<and> ch \<in> set (unii_chans b ?w)"
  obtain cs q where s: "osw_channel_sidebands b ch ?w m = Some (Some (cs @ 0 # q))" "0 \<notin> set cs"
    "ch \<in> set cs" "chan_block ?w cs" "osw_chan_to_freq b ch = osw_chan_to_freq b 0 + 5 * ch"
    "osw_chan_to_freq b (hd cs + 2 * (int (length cs) - 1)) =
       osw_chan_to_freq b 0 + 5 * (hd cs + 2 * (int (length cs) - 1))"
    "osw_freq_to_band (osw_chan_to_freq b ch) = b" "osw_freq_to_chan (osw_chan_to_freq b ch) = ch"
    using sidebands_block [OF assms(1) conjunct2 [OF c], of m] by auto
  define f where "f = osw_chan_to_freq b 0 + 5 * (hd cs + 2 * (int (length cs) - 1))"
  define c' where "c' = c\<lparr>center_freq0_mhz := f\<rparr>"
  have "osw_channel_compute_center_freq c m = Some c'"
    using c s(1,6-8) chanlist_to_center_block [OF s(2,4)] assms(2)
    by (simp add: osw_channel_compute_center_freq_def osw_chan_avg_eq Let_def f_def c'_def)
  moreover have "channel_wf c'"
  proof -
    have n: "n_segments c' = length cs" using s(4) assms(3)
      by (cases "width c") (simp_all add: chan_block_def n_segments_def c'_def)
    have "ch \<in> set (map (\<lambda>i. hd cs + 4 * int i) [0..<length cs])"
      using s(3,4) unfolding chan_block_def by argo
    then obtain k where k: "k < length cs" "ch = hd cs + 4 * int k" by auto
    have "leftmost c' = osw_chan_to_freq b 0 + 5 * hd cs"
      using leftmost_eq [of c'] assms(3) n by (simp add: c'_def f_def algebra_simps)
    then have "control_freq_mhz c' = leftmost c' + 20 * int k"
      using assms(2) s(5) k by (simp add: c'_def)
    from control_in_segments [OF _ this] k n have "control_freq_mhz c' \<in> set (chan_segments c')" by simp
    then show ?thesis using assms(3,4) by (simp add: channel_wf_def c'_def)
  qed
  ultimately show "\<exists>f. osw_channel_compute_center_freq c m = Some (c\<lparr>center_freq0_mhz := f\<rparr>) \<and>
      channel_wf (c\<lparr>center_freq0_mhz := f\<rparr>)"
    by (auto simp: c'_def)
next
  let ?w = "osw_channel_width_to_mhz (width c)"
  assume c: "center_freq0_mhz c = 0 \<and> ch \<notin> set (unii_chans b ?w)"
  have "osw_channel_sidebands b ch ?w m = Some None"
    using c assms(1) chan2list_find_none [OF tables_bounds(1)] chan2list_find_none [OF tables_bounds(2)]
    by (auto simp: unii_chans_def unii_5g_chan2list_def unii_6g_chan2list_def split: if_splits)
  then show "osw_channel_compute_center_freq c m =
      Some (c\<lparr>center_freq0_mhz := osw_chan_to_freq b 0\<rparr>)"
    using c assms(5,6) by (simp add: osw_channel_compute_center_freq_def osw_chan_avg_def)
qed

definition chan_149 :: "osw_channel_width \<Rightarrow> osw_channel" where
  "chan_149 w = osw_channel_none\<lparr>width := w, control_freq_mhz := 5745\<rparr>"

lemma osw_channel_compute_center_freq_correct_witness:
  "(\<exists>f. osw_channel_compute_center_freq (chan_149 OSW_CHANNEL_80MHZ) 11 =
      Some ((chan_149 OSW_CHANNEL_80MHZ)\<lparr>center_freq0_mhz := f\<rparr>) \<and>
      channel_wf ((chan_149 OSW_CHANNEL_80MHZ)\<lparr>center_freq0_mhz := f\<rparr>)) \<and>
   osw_channel_compute_center_freq (chan_149 OSW_CHANNEL_160MHZ) 11 =
      Some ((chan_149 OSW_CHANNEL_160MHZ)\<lparr>center_freq0_mhz := 5000\<rparr>)"
proof -
  have h: "control_freq_mhz (chan_149 w) = osw_chan_to_freq OSW_BAND_5GHZ 149"
    "puncture_bitmap (chan_149 w) = 0" "center_freq0_mhz (chan_149 w) = 0" "width (chan_149 w) = w"
    "osw_freq_to_band (control_freq_mhz (chan_149 w)) = OSW_BAND_5GHZ"
    "osw_freq_to_chan (control_freq_mhz (chan_149 w)) = 149" for w
    by (simp_all add: chan_149_def osw_channel_none_def osw_freq_to_band_def osw_freq_to_chan_def)
  have "149 \<in> set (unii_chans OSW_BAND_5GHZ 80)" "149 \<notin> set (unii_chans OSW_BAND_5GHZ 160)"
    "osw_chan_to_freq OSW_BAND_5GHZ 0 = 5000"
    by code_simp+
  then show ?thesis
    using osw_channel_compute_center_freq_correct
        [of OSW_BAND_5GHZ "chan_149 OSW_CHANNEL_80MHZ" 149 11]
      osw_channel_compute_center_freq_correct
        [of OSW_BAND_5GHZ "chan_149 OSW_CHANNEL_160MHZ" 149 11] h
    by simp
qed

end
