(* ===== verification/Osw_Op_Class.thy ===== *)
theory Osw_Op_Class
  imports Osw_Channel
begin

text \<open>
  The operating classes of \<open>src/src/lib/osw/src/osw_types.c\<close>: the matrix of IEEE 802.11 table E-4 and
  the conversions between an operating class with a channel number and a channel. The arrays of
  an entry that \<open>OSW_CHANNEL_END\<close> closes are lists, and the entry with \<open>OSW_OP_CLASS_END\<close> is
  the end of the list of entries. An outer \<open>None\<close> is a failed assertion or undefined behaviour.
\<close>

section \<open>The matrix\<close>

record osw_op_class_matrix =
  op_class :: int
  start_freq_mhz :: int
  entry_width :: osw_channel_width
  ctrl_chan :: "int list"
  center_chan_idx :: "int list"
  flags :: int

abbreviation OSW_CHANNEL_END :: int where "OSW_CHANNEL_END \<equiv> - 2"
abbreviation OSW_CHANNEL_WILDCARD :: int where "OSW_CHANNEL_WILDCARD \<equiv> - 3"
abbreviation OSW_CH_LOWER :: int where "OSW_CH_LOWER \<equiv> 1"
abbreviation OSW_CH_UPPER :: int where "OSW_CH_UPPER \<equiv> 2"

definition g_op_class_matrix :: "osw_op_class_matrix list" where
  "g_op_class_matrix =
    [\<lparr>op_class = 81, start_freq_mhz = 2407, entry_width = OSW_CHANNEL_20MHZ,
         ctrl_chan = [1, 2, 3, 4, 5, 6, 7, 8, 9, 10, 11, 12, 13],
         center_chan_idx = [], flags = 0\<rparr>,
      \<lparr>op_class = 82, start_freq_mhz = 2414, entry_width = OSW_CHANNEL_20MHZ,
         ctrl_chan = [14],
         center_chan_idx = [], flags = 0\<rparr>,
      \<lparr>op_class = 83, start_freq_mhz = 2407, entry_width = OSW_CHANNEL_40MHZ,
         ctrl_chan = [1, 2, 3, 4, 5, 6, 7, 8, 9],
         center_chan_idx = [], flags = OSW_CH_LOWER\<rparr>,
      \<lparr>op_class = 84, start_freq_mhz = 2407, entry_width = OSW_CHANNEL_40MHZ,
         ctrl_chan = [5, 6, 7, 8, 9, 10, 11, 12, 13],
         center_chan_idx = [], flags = OSW_CH_UPPER\<rparr>,
      \<lparr>op_class = 115, start_freq_mhz = 5000, entry_width = OSW_CHANNEL_20MHZ,
         ctrl_chan = [36, 40, 44, 48],
         center_chan_idx = [], flags = 0\<rparr>,
      \<lparr>op_class = 116, start_freq_mhz = 5000, entry_width = OSW_CHANNEL_40MHZ,
         ctrl_chan = [36, 44],
         center_chan_idx = [], flags = OSW_CH_LOWER\<rparr>,
      \<lparr>op_class = 117, start_freq_mhz = 5000, entry_width = OSW_CHANNEL_40MHZ,
         ctrl_chan = [40, 48],
         center_chan_idx = [], flags = OSW_CH_UPPER\<rparr>,
      \<lparr>op_class = 118, start_freq_mhz = 5000, entry_width = OSW_CHANNEL_20MHZ,
         ctrl_chan = [52, 56, 60, 64],
         center_chan_idx = [], flags = 0\<rparr>,
      \<lparr>op_class = 119, start_freq_mhz = 5000, entry_width = OSW_CHANNEL_40MHZ,
         ctrl_chan = [52, 60],
         center_chan_idx = [], flags = OSW_CH_LOWER\<rparr>,
      \<lparr>op_class = 120, start_freq_mhz = 5000, entry_width = OSW_CHANNEL_40MHZ,
         ctrl_chan = [56, 64],
         center_chan_idx = [], flags = OSW_CH_UPPER\<rparr>,
      \<lparr>op_class = 121, start_freq_mhz = 5000, entry_width = OSW_CHANNEL_20MHZ,
         ctrl_chan = [100, 104, 108, 112, 116, 120, 124, 128, 132, 136, 140, 144],
         center_chan_idx = [], flags = 0\<rparr>,
      \<lparr>op_class = 122, start_freq_mhz = 5000, entry_width = OSW_CHANNEL_40MHZ,
         ctrl_chan = [100, 108, 116, 124, 132, 140],
         center_chan_idx = [], flags = OSW_CH_LOWER\<rparr>,
      \<lparr>op_class = 123, start_freq_mhz = 5000, entry_width = OSW_CHANNEL_40MHZ,
         ctrl_chan = [104, 112, 120, 128, 136, 144],
         center_chan_idx = [], flags = OSW_CH_UPPER\<rparr>,
      \<lparr>op_class = 124, start_freq_mhz = 5000, entry_width = OSW_CHANNEL_20MHZ,
         ctrl_chan = [149, 153, 157, 161],
         center_chan_idx = [], flags = 0\<rparr>,
      \<lparr>op_class = 125, start_freq_mhz = 5000, entry_width = OSW_CHANNEL_20MHZ,
         ctrl_chan = [149, 153, 157, 161, 165, 169, 173, 177],
         center_chan_idx = [], flags = 0\<rparr>,
      \<lparr>op_class = 126, start_freq_mhz = 5000, entry_width = OSW_CHANNEL_40MHZ,
         ctrl_chan = [149, 157, 165, 173],
         center_chan_idx = [], flags = OSW_CH_LOWER\<rparr>,
      \<lparr>op_class = 127, start_freq_mhz = 5000, entry_width = OSW_CHANNEL_40MHZ,
         ctrl_chan = [153, 161, 169, 177],
         center_chan_idx = [], flags = OSW_CH_UPPER\<rparr>,
      \<lparr>op_class = 128, start_freq_mhz = 5000, entry_width = OSW_CHANNEL_80MHZ,
         ctrl_chan = [OSW_CHANNEL_WILDCARD],
         center_chan_idx = [42, 58, 106, 122, 138, 155, 171], flags = 0\<rparr>,
      \<lparr>op_class = 129, start_freq_mhz = 5000, entry_width = OSW_CHANNEL_160MHZ,
         ctrl_chan = [OSW_CHANNEL_WILDCARD],
         center_chan_idx = [50, 114, 163], flags = 0\<rparr>,
      \<lparr>op_class = 130, start_freq_mhz = 5000, entry_width = OSW_CHANNEL_80P80MHZ,
         ctrl_chan = [OSW_CHANNEL_WILDCARD],
         center_chan_idx = [42, 58, 106, 122, 138, 155, 171], flags = 0\<rparr>,
      \<lparr>op_class = 131, start_freq_mhz = 5950, entry_width = OSW_CHANNEL_20MHZ,
         ctrl_chan = [1, 5, 9, 13, 17, 21, 25, 29, 33, 37, 41, 45, 49, 53, 57, 61, 65, 69, 73,
                      77, 81, 85, 89, 93, 97, 101, 105, 109, 113, 117, 121, 125, 129, 133, 137,
                      141, 145, 149, 153, 157, 161, 165, 169, 173, 177, 181, 185, 189, 193, 197,
                      201, 205, 209, 213, 217, 221, 225, 229, 233],
         center_chan_idx = [], flags = 0\<rparr>,
      \<lparr>op_class = 132, start_freq_mhz = 5950, entry_width = OSW_CHANNEL_40MHZ,
         ctrl_chan = [OSW_CHANNEL_WILDCARD],
         center_chan_idx = [3, 11, 19, 27, 35, 43, 51, 59, 67, 75, 83, 91, 99, 107, 115, 123,
                            131, 139, 147, 155, 163, 171, 179, 187, 195, 203, 211, 219, 227], flags = 0\<rparr>,
      \<lparr>op_class = 133, start_freq_mhz = 5950, entry_width = OSW_CHANNEL_80MHZ,
         ctrl_chan = [OSW_CHANNEL_WILDCARD],
         center_chan_idx = [7, 23, 39, 55, 71, 87, 103, 119, 135, 151, 167, 83, 199, 215], flags = 0\<rparr>,
      \<lparr>op_class = 134, start_freq_mhz = 5950, entry_width = OSW_CHANNEL_160MHZ,
         ctrl_chan = [OSW_CHANNEL_WILDCARD],
         center_chan_idx = [15, 47, 79, 111, 143, 175, 207], flags = 0\<rparr>,
      \<lparr>op_class = 135, start_freq_mhz = 5950, entry_width = OSW_CHANNEL_80P80MHZ,
         ctrl_chan = [OSW_CHANNEL_WILDCARD],
         center_chan_idx = [7, 23, 39, 55, 71, 87, 103, 119, 135, 151, 167, 83, 199, 215], flags = 0\<rparr>,
      \<lparr>op_class = 136, start_freq_mhz = 5925, entry_width = OSW_CHANNEL_20MHZ,
         ctrl_chan = [2],
         center_chan_idx = [], flags = 0\<rparr>,
      \<lparr>op_class = 137, start_freq_mhz = 5950, entry_width = OSW_CHANNEL_320MHZ,
         ctrl_chan = [OSW_CHANNEL_WILDCARD],
         center_chan_idx = [31, 63, 95, 127, 159, 191], flags = 0\<rparr>]"

text \<open>The first element of an array, which is the end marker when the list is empty.\<close>

definition first_elem :: "int list \<Rightarrow> int" where
  "first_elem xs = (case xs of [] \<Rightarrow> OSW_CHANNEL_END | x # _ \<Rightarrow> x)"

text \<open>The loops that look for the entry of an operating class.\<close>

definition find_entry :: "int \<Rightarrow> osw_op_class_matrix option" where
  "find_entry oc = find (\<lambda>e. op_class e = oc) g_op_class_matrix"

section \<open>Control channels and centres\<close>

text \<open>A step that is not positive would run the counter into overflow, which C leaves undefined.\<close>

function osw_int_in_range :: "int \<Rightarrow> int \<Rightarrow> int \<Rightarrow> int \<Rightarrow> bool option" where
  "osw_int_in_range first_n last_n step needle =
     (if first_n \<le> last_n then
        (if needle = first_n then Some True
         else if step \<le> 0 then None
         else osw_int_in_range (first_n + step) last_n step needle)
      else Some False)"
  by pat_completeness auto

termination
  by (relation "measure (\<lambda>(first_n, last_n, step, needle). nat (last_n + 1 - first_n))") auto

declare osw_int_in_range.simps [simp del]

definition osw_channel_control_fits_center ::
    "int \<Rightarrow> int \<Rightarrow> osw_channel_width \<Rightarrow> bool option" where
  "osw_channel_control_fits_center control center w =
     (let segments = osw_channel_width_num_segments w;
          channels = segments * 4;
          first_n = center - c_div channels 2 + 2;
          last_n = center + c_div channels 2 - 2;
          step = 4
      in osw_int_in_range first_n last_n step control)"

fun centers_scan :: "osw_channel_width \<Rightarrow> int list \<Rightarrow> int \<Rightarrow> bool option" where
  "centers_scan w [] control = Some False"
| "centers_scan w (center # cs) control =
     (case osw_channel_control_fits_center control center w of
        None \<Rightarrow> None
      | Some fits \<Rightarrow> if fits then Some True else centers_scan w cs control)"

definition osw_op_class_entry_center_chan_idx_matches_control ::
    "osw_op_class_matrix \<Rightarrow> int \<Rightarrow> bool option" where
  "osw_op_class_entry_center_chan_idx_matches_control entry control =
     centers_scan (entry_width entry) (center_chan_idx entry) control"

definition osw_op_class_entry_ctrl_chan_matches_control ::
    "osw_op_class_matrix \<Rightarrow> int \<Rightarrow> bool" where
  "osw_op_class_entry_ctrl_chan_matches_control entry control \<longleftrightarrow> control \<in> set (ctrl_chan entry)"

section \<open>From an operating class to a channel\<close>

text \<open>
  The centre that the \<open>switch\<close> on the width derives from the flags when the channel was listed
  as a control channel; the inner \<open>None\<close> is \<open>return false\<close>.
\<close>

definition center_from_flags :: "osw_op_class_matrix \<Rightarrow> int \<Rightarrow> int option" where
  "center_from_flags entry channel_num =
     (case entry_width entry of
        OSW_CHANNEL_20MHZ \<Rightarrow> Some channel_num
      | OSW_CHANNEL_40MHZ \<Rightarrow>
          (if flags entry AND OSW_CH_LOWER \<noteq> 0 then Some (channel_num + 2)
           else if flags entry AND OSW_CH_UPPER \<noteq> 0 then Some (channel_num - 2)
           else None)
      | _ \<Rightarrow> None)"

text \<open>The centre that the sidebands give when the entry has no list of control channels.\<close>

definition center_from_sidebands :: "osw_op_class_matrix \<Rightarrow> int \<Rightarrow> int option option" where
  "center_from_sidebands entry channel_num =
     (let width_mhz = osw_channel_width_to_mhz (entry_width entry);
          first_center = first_elem (center_chan_idx entry);
          spacing_mhz = 5;
          first_mhz = start_freq_mhz entry + first_center * spacing_mhz;
          band = osw_freq_to_band first_mhz
      in
      case osw_channel_sidebands band channel_num width_mhz 13 of
        None \<Rightarrow> None
      | Some None \<Rightarrow> Some None
      | Some (Some chans) \<Rightarrow>
          (case chanlist_to_center (Some chans) of
             None \<Rightarrow> None
           | Some center_num \<Rightarrow>
               Some (if center_num \<in> set (center_chan_idx entry) then Some center_num else None)))"

text \<open>The result and the contents of \<open>*channel\<close>, which is cleared first.\<close>

definition osw_channel_from_op_class :: "u8 \<Rightarrow> u8 \<Rightarrow> (bool \<times> osw_channel) option" where
  "osw_channel_from_op_class oc chan_num =
     (let channel_num = uint chan_num in
      case find_entry (uint oc) of
        None \<Rightarrow> Some (False, osw_channel_none)
      | Some entry \<Rightarrow>
          (case find (\<lambda>x. x = channel_num \<or> x = OSW_CHANNEL_WILDCARD) (ctrl_chan entry) of
             None \<Rightarrow> Some (False, osw_channel_none)
           | Some x \<Rightarrow>
               (case (if x = OSW_CHANNEL_WILDCARD then center_from_sidebands entry (channel_num)
                      else Some (Some 0)) of
                  None \<Rightarrow> None
                | Some None \<Rightarrow> Some (False, osw_channel_none)
                | Some (Some center_num) \<Rightarrow>
                    (case (if center_num = 0 then center_from_flags entry (channel_num)
                           else Some center_num) of
                       None \<Rightarrow> Some (False, osw_channel_none)
                     | Some center_num \<Rightarrow>
                         Some (True, osw_channel_none\<lparr>
                           width := entry_width entry,
                           control_freq_mhz := start_freq_mhz entry + channel_num * 5,
                           center_freq0_mhz := start_freq_mhz entry + center_num * 5\<rparr>)))))"

section \<open>From a channel to an operating class\<close>

definition osw_op_class_matrx_chans_scan :: "int list \<Rightarrow> int \<Rightarrow> int \<Rightarrow> int \<Rightarrow> int option" where
  "osw_op_class_matrx_chans_scan chans spacing_mhz base_freq_mhz scan_freq_mhz =
     find (\<lambda>ch. base_freq_mhz + ch * spacing_mhz = scan_freq_mhz) chans"

text \<open>The body of the loop: whether the entry is the one to return.\<close>

definition entry_accepts :: "osw_channel \<Rightarrow> osw_op_class_matrix \<Rightarrow> bool" where
  "entry_accepts channel entry =
     (if width channel \<noteq> entry_width entry then False
      else
        let spacing_mhz = 5;
            base_freq_mhz = start_freq_mhz entry;
            wild = first_elem (ctrl_chan entry) = OSW_CHANNEL_WILDCARD;
            chans = (if wild then center_chan_idx entry else ctrl_chan entry);
            scan_freq_mhz = (if wild then center_freq0_mhz channel else control_freq_mhz channel)
        in
        if flags entry AND OSW_CH_LOWER \<noteq> 0 \<and> center_freq0_mhz channel \<le> control_freq_mhz channel
        then False
        else if flags entry AND OSW_CH_UPPER \<noteq> 0 \<and> center_freq0_mhz channel \<ge> control_freq_mhz channel
        then False
        else osw_op_class_matrx_chans_scan chans spacing_mhz base_freq_mhz scan_freq_mhz \<noteq> None)"

definition osw_channel_to_op_class :: "osw_channel \<Rightarrow> u8 option option" where
  "osw_channel_to_op_class orig_channel =
     (case (if center_freq0_mhz orig_channel = 0
            then osw_channel_compute_center_freq orig_channel 13 else Some orig_channel) of
        None \<Rightarrow> None
      | Some channel \<Rightarrow>
          (case find (entry_accepts channel) g_op_class_matrix of
             None \<Rightarrow> Some None
           | Some entry \<Rightarrow>
               if op_class entry > 0 \<and> op_class entry \<le> 255
               then Some (Some (word_of_int (op_class entry))) else None))"

section \<open>Other queries\<close>

definition osw_op_class_to_band :: "u8 \<Rightarrow> osw_band" where
  "osw_op_class_to_band oc =
     (case find_entry (uint oc) of
        None \<Rightarrow> OSW_BAND_UNDEFINED
      | Some entry \<Rightarrow>
          let first_chan =
                (if first_elem (ctrl_chan entry) \<noteq> OSW_CHANNEL_WILDCARD
                 then first_elem (ctrl_chan entry) else first_elem (center_chan_idx entry));
              freq = start_freq_mhz entry + 5 * first_chan
          in osw_freq_to_band freq)"

text \<open>
  The backward loop over the entries goes from the one of the operating class to the first.
\<close>

definition osw_op_class_to_20mhz :: "u8 \<Rightarrow> u8 \<Rightarrow> u8 option option" where
  "osw_op_class_to_20mhz oc chan_num =
     (if oc = 0 \<or> chan_num = 0 then None
      else
        let op = uint oc; num = uint chan_num in
        case find_entry op of
          None \<Rightarrow> Some None
        | Some entry \<Rightarrow>
            if entry_width entry = OSW_CHANNEL_20MHZ then
              Some (if num \<in> set (ctrl_chan entry)
                    then Some (word_of_int (op_class entry)) else None)
            else
              let upto = takeWhile (\<lambda>e. op_class e \<noteq> op) g_op_class_matrix @ [entry];
                  hit = find (\<lambda>e. entry_width e = OSW_CHANNEL_20MHZ \<and> num \<in> set (ctrl_chan e))
                          (rev upto)
              in Some (map_option (\<lambda>e. word_of_int (op_class e)) hit))"

text \<open>The array it returns, with its closing 0, or NULL.\<close>

definition osw_op_class_to_freqs :: "u8 \<Rightarrow> int list option" where
  "osw_op_class_to_freqs oc =
     map_option (\<lambda>e. map (\<lambda>c. start_freq_mhz e + c * 5) (ctrl_chan e) @ [0]) (find_entry (uint oc))"

definition osw_channel_from_channel_num_center_freq_width_op_class ::
    "u8 \<Rightarrow> u8 \<Rightarrow> osw_channel_width \<Rightarrow> u8 \<Rightarrow> bool \<times> osw_channel" where
  "osw_channel_from_channel_num_center_freq_width_op_class channel_num center_num w oc =
     (let band = osw_op_class_to_band oc in
      if band = OSW_BAND_UNDEFINED then (False, osw_channel_none)
      else (True, osw_channel_none\<lparr>width := w,
              control_freq_mhz := osw_chan_to_freq band (uint channel_num),
              center_freq0_mhz := osw_chan_to_freq band (uint center_num)\<rparr>))"

text \<open>
  The loop over the entries: the contents of \<open>*channel\<close>, the control frequency of \<open>prev\<close> (not
  yet set before the first match) and the number of matches.
\<close>

fun num_width_loop ::
    "u8 \<Rightarrow> osw_channel_width \<Rightarrow> osw_op_class_matrix list \<Rightarrow> osw_channel \<Rightarrow> int option \<Rightarrow> nat \<Rightarrow>
     (bool \<times> osw_channel) option" where
  "num_width_loop channel_num w [] channel prev num_matches = Some (num_matches = 1, channel)"
| "num_width_loop channel_num w (entry # es) channel prev num_matches =
     (if entry_width entry \<noteq> w \<or> entry_width entry = OSW_CHANNEL_80P80MHZ
      then num_width_loop channel_num w es channel prev num_matches
      else
        case osw_op_class_entry_center_chan_idx_matches_control entry (uint channel_num) of
          None \<Rightarrow> None
        | Some center_match \<Rightarrow>
            if center_match \<or> osw_op_class_entry_ctrl_chan_matches_control entry (uint channel_num) then
              (case osw_channel_from_op_class (word_of_int (op_class entry)) channel_num of
                 None \<Rightarrow> None
               | Some (ok, channel) \<Rightarrow>
                   if \<not> ok then Some (False, channel)
                   else if num_matches + 1 > 1 \<and> prev \<noteq> Some (control_freq_mhz channel)
                   then Some (False, channel)
                   else num_width_loop channel_num w es channel
                          (Some (control_freq_mhz channel)) (num_matches + 1))
            else num_width_loop channel_num w es channel prev num_matches)"

definition osw_channel_from_channel_num_width ::
    "u8 \<Rightarrow> osw_channel_width \<Rightarrow> osw_channel \<Rightarrow> (bool \<times> osw_channel) option" where
  "osw_channel_from_channel_num_width channel_num w channel =
     num_width_loop channel_num w g_op_class_matrix channel None 0"

section \<open>Properties\<close>

text \<open>
  The channel numbers an entry stands for: its list of control channels or, for an entry without
  one, the channels the U-NII table of its band has at its width.
\<close>

definition entry_band :: "osw_op_class_matrix \<Rightarrow> osw_band" where
  "entry_band e = osw_freq_to_band (start_freq_mhz e + first_elem (center_chan_idx e) * 5)"

definition is_wildcard :: "osw_op_class_matrix \<Rightarrow> bool" where
  "is_wildcard e \<longleftrightarrow> first_elem (ctrl_chan e) = OSW_CHANNEL_WILDCARD"

definition entry_chans :: "osw_op_class_matrix \<Rightarrow> int list" where
  "entry_chans e =
     (if is_wildcard e then unii_chans (entry_band e) (osw_channel_width_to_mhz (entry_width e))
      else ctrl_chan e)"

text \<open>The operating classes and channels the matrix promises, and the ones it has no centre for.\<close>

definition op_class_chan :: "u8 \<Rightarrow> u8 \<Rightarrow> bool" where
  "op_class_chan oc ch =
     (case find_entry (uint oc) of None \<Rightarrow> False | Some e \<Rightarrow> uint ch \<in> set (entry_chans e))"

definition center_missing :: "u8 \<Rightarrow> u8 \<Rightarrow> bool" where
  "center_missing oc ch \<longleftrightarrow> oc = 133 \<and> ch \<in> set [177, 181, 185, 189]"

definition matrix_entry_ok :: "osw_op_class_matrix \<Rightarrow> bool" where
  "matrix_entry_ok e \<longleftrightarrow>
     0 < op_class e \<and> op_class e \<le> 255 \<and>
     (if is_wildcard e
      then ctrl_chan e = [OSW_CHANNEL_WILDCARD] \<and> entry_band e \<in> set [OSW_BAND_5GHZ, OSW_BAND_6GHZ]
      else OSW_CHANNEL_WILDCARD \<notin> set (ctrl_chan e) \<and>
        list_all (\<lambda>ch. center_from_flags e ch \<noteq> None) (ctrl_chan e))"

lemma matrix_ok: "list_all matrix_entry_ok g_op_class_matrix"
  by code_simp

text \<open>The channels an entry stands for, each with the centre of its block.\<close>

definition block_center :: "int list \<Rightarrow> int" where
  "block_center cs = hd cs + 2 * (int (length cs) - 1)"

definition unii_blocks :: "osw_band \<Rightarrow> int \<Rightarrow> int list list" where
  "unii_blocks b w =
     (if b = OSW_BAND_5GHZ then table_blocks unii_5g_lists w else table_blocks g_unii_6g_channels w)"

definition entry_points :: "osw_op_class_matrix \<Rightarrow> (int \<times> int) list" where
  "entry_points e =
     (if is_wildcard e
      then concat (map (\<lambda>cs. map (\<lambda>ch. (ch, block_center cs)) cs)
             (unii_blocks (entry_band e) (osw_channel_width_to_mhz (entry_width e))))
      else concat (map (\<lambda>ch. case center_from_flags e ch of None \<Rightarrow> [] | Some f \<Rightarrow> [(ch, f)])
             (ctrl_chan e)))"

definition mk_channel :: "osw_op_class_matrix \<Rightarrow> int \<Rightarrow> int \<Rightarrow> osw_channel" where
  "mk_channel e ch center = osw_channel_none\<lparr>width := entry_width e,
     control_freq_mhz := start_freq_mhz e + ch * 5,
     center_freq0_mhz := start_freq_mhz e + center * 5\<rparr>"

lemma from_op_class_point:
  assumes e: "find_entry (uint oc) = Some e" and ok: "matrix_entry_ok e"
    and ch: "uint ch \<in> set (entry_chans e)"
  shows "\<exists>f. (uint ch, f) \<in> set (entry_points e) \<and>
    osw_channel_from_op_class oc ch =
      Some (if is_wildcard e \<and> f \<notin> set (center_chan_idx e) then (False, osw_channel_none)
            else (True, mk_channel e (uint ch) f))"
proof (cases "is_wildcard e")
  case True
  let ?w = "osw_channel_width_to_mhz (entry_width e)"
  have b: "entry_band e \<in> {OSW_BAND_5GHZ, OSW_BAND_6GHZ}" and ctrl: "ctrl_chan e = [OSW_CHANNEL_WILDCARD]"
    using ok True by (simp_all add: matrix_entry_ok_def)
  obtain cs q where s: "osw_channel_sidebands (entry_band e) (uint ch) ?w 13 = Some (Some (cs @ 0 # q))"
    "cs \<in> set (unii_blocks (entry_band e) ?w)" "0 \<notin> set cs" "uint ch \<in> set cs" "chan_block ?w cs"
  proof (cases "entry_band e = OSW_BAND_5GHZ")
    case 5: True
    have "\<exists>p. unii_6g_chan2list_find unii_5g_lists (uint ch) ?w = Some (Some p)"
      using chan2list_find_total [OF unii_tables_ok(1), of "uint ch" ?w]
        chan2list_find_none [OF unii_tables_ok(1), of "uint ch" ?w] ch 5 True
      by (auto simp: entry_chans_def unii_chans_def)
    then obtain p where p: "unii_6g_chan2list_find unii_5g_lists (uint ch) ?w = Some (Some p)" by auto
    show ?thesis using chan2list_find_block [OF unii_tables_ok(1) p] that p 5
      by (auto simp: unii_5g_chan2list_def unii_blocks_def)
  next
    case False
    then have 6: "entry_band e = OSW_BAND_6GHZ" using b by simp
    have "\<exists>p. unii_6g_chan2list_find g_unii_6g_channels (uint ch) ?w = Some (Some p)"
      using chan2list_find_total [OF unii_tables_ok(2), of "uint ch" ?w]
        chan2list_find_none [OF unii_tables_ok(2), of "uint ch" ?w] ch 6 True
      by (auto simp: entry_chans_def unii_chans_def)
    then obtain p where p: "unii_6g_chan2list_find g_unii_6g_channels (uint ch) ?w = Some (Some p)" by auto
    show ?thesis using chan2list_find_block [OF unii_tables_ok(2) p] that p 6
      by (auto simp: unii_6g_chan2list_def unii_blocks_def)
  qed
  have c: "chanlist_to_center (Some (cs @ 0 # q)) = Some (block_center cs)"
    using chanlist_to_center_block [OF s(3,5)] by (simp add: block_center_def)
  have "cs \<noteq> []" "hd cs > 0" using s(5) by (simp_all add: chan_block_def)
  then have "block_center cs \<noteq> 0" by (cases cs) (auto simp: block_center_def)
  then have "osw_channel_from_op_class oc ch =
      Some (if block_center cs \<notin> set (center_chan_idx e) then (False, osw_channel_none)
            else (True, mk_channel e (uint ch) (block_center cs)))"
    using e ctrl s(1) c
    by (simp add: osw_channel_from_op_class_def center_from_sidebands_def entry_band_def mk_channel_def)
  moreover have "(uint ch, block_center cs) \<in> set (entry_points e)"
    using s(2,4) True by (auto simp: entry_points_def)
  ultimately show ?thesis using True by auto
next
  case False
  have n: "OSW_CHANNEL_WILDCARD \<notin> set (ctrl_chan e)" and ctl: "uint ch \<in> set (ctrl_chan e)"
    using ok ch False by (simp_all add: matrix_entry_ok_def entry_chans_def)
  obtain f where f: "center_from_flags e (uint ch) = Some f"
    using ok ctl False by (auto simp: matrix_entry_ok_def list_all_iff)
  obtain x where x: "find (\<lambda>x. x = uint ch \<or> x = OSW_CHANNEL_WILDCARD) (ctrl_chan e) = Some x"
    using ctl find_None_iff [of "\<lambda>x. x = uint ch \<or> x = OSW_CHANNEL_WILDCARD" "ctrl_chan e"]
    by (cases "find (\<lambda>x. x = uint ch \<or> x = OSW_CHANNEL_WILDCARD) (ctrl_chan e)") auto
  then have "x \<noteq> OSW_CHANNEL_WILDCARD" using n by (metis find_Some_iff nth_mem)
  then have "osw_channel_from_op_class oc ch = Some (True, mk_channel e (uint ch) f)"
    using e x f by (simp add: osw_channel_from_op_class_def mk_channel_def)
  moreover have "(uint ch, f) \<in> set (entry_points e)"
    using False f ctl by (force simp: entry_points_def)
  ultimately show ?thesis using False by auto
qed

lemma from_op_class_rejects:
  assumes "matrix_entry_ok e" "find_entry (uint oc) = Some e" "uint ch \<notin> set (entry_chans e)"
  shows "osw_channel_from_op_class oc ch = Some (False, osw_channel_none)"
proof (cases "is_wildcard e")
  case True
  let ?w = "osw_channel_width_to_mhz (entry_width e)"
  have b: "entry_band e \<in> {OSW_BAND_5GHZ, OSW_BAND_6GHZ}" and ctrl: "ctrl_chan e = [OSW_CHANNEL_WILDCARD]"
    using assms(1) True by (simp_all add: matrix_entry_ok_def)
  have "osw_channel_sidebands (entry_band e) (uint ch) ?w 13 = Some None"
    using b assms(3) True chan2list_find_none [OF unii_tables_ok(1), of "uint ch" ?w]
      chan2list_find_none [OF unii_tables_ok(2), of "uint ch" ?w]
    by (auto simp: entry_chans_def unii_chans_def unii_5g_chan2list_def unii_6g_chan2list_def
        split: if_splits)
  then show ?thesis
    using assms(2) ctrl
    by (simp add: osw_channel_from_op_class_def center_from_sidebands_def entry_band_def)
next
  case False
  then have "find (\<lambda>x. x = uint ch \<or> x = OSW_CHANNEL_WILDCARD) (ctrl_chan e) = None"
    using assms(1,3) by (auto simp: find_None_iff entry_chans_def matrix_entry_ok_def)
  then show ?thesis using assms(2) by (simp add: osw_channel_from_op_class_def)
qed

text \<open>Well-formedness without puncturing, by arithmetic instead of a search.\<close>

definition control_fits :: "osw_channel \<Rightarrow> bool" where
  "control_fits c \<longleftrightarrow>
     width c \<noteq> OSW_CHANNEL_80P80MHZ \<and> puncture_bitmap c = 0 \<and>
     leftmost c \<le> control_freq_mhz c \<and>
     control_freq_mhz c < leftmost c + 20 * osw_channel_width_num_segments (width c) \<and>
     (control_freq_mhz c - leftmost c) mod 20 = 0"

lemma control_fits_wf: "control_fits c \<Longrightarrow> channel_wf c"
proof -
  assume c: "control_fits c"
  define k where "k = nat ((control_freq_mhz c - leftmost c) div 20)"
  have k: "control_freq_mhz c = leftmost c + 20 * int k"
    using c by (auto simp: k_def control_fits_def)
  moreover have "k < n_segments c"
    using c k by (cases "width c") (auto simp: control_fits_def n_segments_def)
  ultimately have "control_freq_mhz c \<in> set (chan_segments c)" by (intro control_in_segments)
  then show ?thesis using c by (simp add: channel_wf_def control_fits_def)
qed

text \<open>What the conversions make of a channel \<open>c\<close> obtained from an operating class and a number.\<close>

definition roundtrip_ok :: "u8 \<Rightarrow> u8 \<Rightarrow> osw_channel \<Rightarrow> bool" where
  "roundtrip_ok oc ch c \<longleftrightarrow>
     control_fits c \<and>
     osw_channel_to_op_class c =
       Some (Some (if oc = 125 \<and> ch \<in> set [149, 153, 157, 161] then 124 else oc)) \<and>
     osw_channel_to_band c = osw_op_class_to_band oc \<and>
     (case osw_op_class_to_20mhz oc ch of
        Some (Some r) \<Rightarrow>
          (case osw_channel_from_op_class r ch of
             Some (ok, c20) \<Rightarrow>
               ok \<and> width c20 = OSW_CHANNEL_20MHZ \<and> control_freq_mhz c20 = control_freq_mhz c
           | None \<Rightarrow> False)
      | _ \<Rightarrow> False)"

definition point_ok :: "osw_op_class_matrix \<Rightarrow> int \<times> int \<Rightarrow> bool" where
  "point_ok e p =
     (case p of (ch, f) \<Rightarrow>
        let oc = word_of_int (op_class e); n = word_of_int ch in
        if is_wildcard e \<and> f \<notin> set (center_chan_idx e) then center_missing oc n
        else \<not> center_missing oc n \<and> roundtrip_ok oc n (mk_channel e ch f))"

lemma matrix_points: "list_all (\<lambda>e. list_all (point_ok e) (entry_points e)) g_op_class_matrix"
  by code_simp

lemma find_entry_props:
  "find_entry oc = Some e \<Longrightarrow> e \<in> set g_op_class_matrix \<and> op_class e = oc"
  by (auto simp: find_entry_def find_Some_iff)

lemma op_class_chan_cases:
  "osw_channel_from_op_class oc ch =
     (if op_class_chan oc ch \<and> \<not> center_missing oc ch
      then Some (True, snd (the (osw_channel_from_op_class oc ch)))
      else Some (False, osw_channel_none)) \<and>
   (op_class_chan oc ch \<and> \<not> center_missing oc ch \<longrightarrow>
      roundtrip_ok oc ch (snd (the (osw_channel_from_op_class oc ch))))"
proof (cases "find_entry (uint oc)")
  case None
  then show ?thesis by (simp add: osw_channel_from_op_class_def op_class_chan_def)
next
  case (Some e)
  have e: "e \<in> set g_op_class_matrix" "op_class e = uint oc" using find_entry_props [OF Some] by auto
  have ok: "matrix_entry_ok e" using matrix_ok e(1) by (simp add: list_all_iff)
  show ?thesis
  proof (cases "uint ch \<in> set (entry_chans e)")
    case False
    then show ?thesis using from_op_class_rejects [OF ok Some] Some by (simp add: op_class_chan_def)
  next
    case True
    obtain f where f: "(uint ch, f) \<in> set (entry_points e)"
      and frm: "osw_channel_from_op_class oc ch =
        Some (if is_wildcard e \<and> f \<notin> set (center_chan_idx e) then (False, osw_channel_none)
              else (True, mk_channel e (uint ch) f))"
      using from_op_class_point [OF Some ok True] by auto
    have "point_ok e (uint ch, f)" using matrix_points e(1) f by (auto simp: list_all_iff)
    then show ?thesis
      using frm True Some e(2) by (auto simp: point_ok_def op_class_chan_def Let_def split: if_splits)
  qed
qed

text \<open>
  C19. A channel that \<open>osw_channel_from_op_class\<close> builds is well-formed, lies in the band that
  \<open>osw_op_class_to_band\<close> gives for the class, and \<open>osw_channel_to_op_class\<close> maps it back to the
  class it came from; only the channels 149 to 161 of class 125 come back as class 124, which lists
  them too. The class \<open>osw_op_class_to_20mhz\<close> gives for it builds a 20 MHz channel on the same
  control frequency.
\<close>

theorem osw_op_class_roundtrip:
  assumes "osw_channel_from_op_class oc ch = Some (True, c)"
  shows "channel_wf c \<and>
         osw_channel_to_op_class c =
           Some (Some (if oc = 125 \<and> ch \<in> {149, 153, 157, 161} then 124 else oc)) \<and>
         osw_channel_to_band c = osw_op_class_to_band oc \<and>
         (\<exists>r c20. osw_op_class_to_20mhz oc ch = Some (Some r) \<and>
            osw_channel_from_op_class r ch = Some (True, c20) \<and> width c20 = OSW_CHANNEL_20MHZ \<and>
            control_freq_mhz c20 = control_freq_mhz c)"
proof -
  have "op_class_chan oc ch \<and> \<not> center_missing oc ch"
    using op_class_chan_cases [of oc ch] assms by (auto split: if_splits)
  then have "roundtrip_ok oc ch c" using op_class_chan_cases [of oc ch] assms by simp
  then show ?thesis using control_fits_wf [of c]
    by (auto simp: roundtrip_ok_def split: option.splits)
qed

theorem osw_op_class_roundtrip_witness:
  "\<exists>c. osw_channel_from_op_class 116 36 = Some (True, c) \<and> channel_wf c \<and>
     osw_channel_to_op_class c = Some (Some 116)"
proof -
  have "osw_channel_from_op_class 116 36 =
      Some (True, osw_channel_none\<lparr>width := OSW_CHANNEL_40MHZ, control_freq_mhz := 5180,
        center_freq0_mhz := 5190\<rparr>)"
    by code_simp
  then show ?thesis using osw_op_class_roundtrip [of 116 36] by simp
qed


text \<open>
  \<open>osw_op_class_to_freqs\<close> gives, for a class with a list of control channels, the control
  frequency of each of them in order and a closing 0. For a class without such a list it returns
  the frequency computed from the wildcard marker, 15 MHz below the base frequency of the class,
  which is the control frequency of no channel of the class. Looking for the 20 MHz class of a number that the class does not have,
  \<open>osw_op_class_to_20mhz\<close> walks back into the classes of another band: for channel 1 in the
  5 GHz class 128 it answers the 2.4 GHz class 81.
\<close>

lemma osw_op_class_to_freqs_correct:
  assumes "find_entry (uint oc) = Some e"
  shows "(\<not> is_wildcard e \<longrightarrow>
            (\<exists>fs. osw_op_class_to_freqs oc = Some (fs @ [0]) \<and> length fs = length (ctrl_chan e) \<and>
               (\<forall>i<length fs. \<exists>c. osw_channel_from_op_class oc (word_of_int (ctrl_chan e ! i)) = Some (True, c) \<and>
                  control_freq_mhz c = fs ! i))) \<and>
         (is_wildcard e \<longrightarrow>
            osw_op_class_to_freqs oc = Some [start_freq_mhz e - 15, 0] \<and>
            (\<nexists>ch c. osw_channel_from_op_class oc ch = Some (True, c) \<and>
               control_freq_mhz c = start_freq_mhz e - 15)) \<and>
         osw_op_class_to_20mhz 128 1 = Some (Some 81) \<and>
         osw_op_class_to_band 128 = OSW_BAND_5GHZ \<and> osw_op_class_to_band 81 = OSW_BAND_2GHZ"
proof -
  have e: "e \<in> set g_op_class_matrix" "op_class e = uint oc" using find_entry_props [OF assms] by auto
  have ok: "matrix_entry_ok e" using matrix_ok e(1) by (simp add: list_all_iff)
  have u8: "list_all (\<lambda>e. list_all (\<lambda>ch. is_wildcard e \<or> 0 \<le> ch \<and> ch < 256) (ctrl_chan e)) g_op_class_matrix"
    by code_simp
  let ?fs = "map (\<lambda>c. start_freq_mhz e + c * 5) (ctrl_chan e)"
  have "\<exists>c. osw_channel_from_op_class oc (word_of_int (ctrl_chan e ! i)) = Some (True, c) \<and>
      control_freq_mhz c = ?fs ! i" if w: "\<not> is_wildcard e" and i: "i < length ?fs" for i
  proof -
    have b: "0 \<le> ctrl_chan e ! i" "ctrl_chan e ! i < 256"
      using u8 e(1) w i by (auto simp: list_all_iff)
    then have u: "uint (word_of_int (ctrl_chan e ! i) :: u8) = ctrl_chan e ! i"
      by (simp add: uint_word_of_int)
    have "uint (word_of_int (ctrl_chan e ! i) :: u8) \<in> set (entry_chans e)"
      unfolding u using w i by (simp add: entry_chans_def)
    from from_op_class_point [OF assms ok this] w u i show ?thesis
      by (auto simp: mk_channel_def)
  qed
  moreover have "is_wildcard e \<Longrightarrow> ctrl_chan e = [OSW_CHANNEL_WILDCARD]"
    using ok by (simp add: matrix_entry_ok_def)
  moreover have "\<nexists>ch c. osw_channel_from_op_class oc ch = Some (True, c) \<and>
      control_freq_mhz c = start_freq_mhz e - 15"
  proof
    assume "\<exists>ch c. osw_channel_from_op_class oc ch = Some (True, c) \<and>
      control_freq_mhz c = start_freq_mhz e - 15"
    then obtain ch c where c: "osw_channel_from_op_class oc ch = Some (True, c)"
      "control_freq_mhz c = start_freq_mhz e - 15" by auto
    then have "uint ch \<in> set (entry_chans e)" using from_op_class_rejects [OF ok assms, of ch] by auto
    from from_op_class_point [OF assms ok this] c(1)
    have "control_freq_mhz c = start_freq_mhz e + uint ch * 5" by (auto simp: mk_channel_def split: if_splits)
    then show False using c(2) uint_ge_0 [of ch] by linarith
  qed
  moreover have "osw_op_class_to_20mhz 128 1 = Some (Some 81)" "osw_op_class_to_band 128 = OSW_BAND_5GHZ"
    "osw_op_class_to_band 81 = OSW_BAND_2GHZ"
    by code_simp+
  ultimately show ?thesis
    using assms by (auto simp: osw_op_class_to_freqs_def intro!: exI [of _ ?fs])
qed

lemma osw_op_class_to_freqs_correct_witness:
  "\<exists>e. find_entry 116 = Some e \<and> \<not> is_wildcard e \<and>
     (\<exists>c. osw_channel_from_op_class 116 44 = Some (True, c) \<and> osw_op_class_to_freqs 116 =
        Some [5180, control_freq_mhz c, 0]) \<and>
   osw_op_class_to_freqs 128 = Some [4985, 0]"
proof -
  define a where "a = the (find_entry 116)"
  define b where "b = the (find_entry 128)"
  have a: "find_entry (uint (116 :: u8)) = Some a" "\<not> is_wildcard a" "ctrl_chan a = [36, 44]"
    and b: "find_entry (uint (128 :: u8)) = Some b" "is_wildcard b" "start_freq_mhz b = 5000"
    unfolding a_def b_def by code_simp+
  have s: "uint (116 :: u8) = 116" "(word_of_int 44 :: u8) = 44" by simp_all
  obtain fs where fs: "osw_op_class_to_freqs 116 = Some (fs @ [0])" "length fs = length (ctrl_chan a)"
    and all: "\<forall>i<length fs. \<exists>c. osw_channel_from_op_class 116 (word_of_int (ctrl_chan a ! i)) =
      Some (True, c) \<and> control_freq_mhz c = fs ! i"
    using osw_op_class_to_freqs_correct [OF a(1), THEN conjunct1] a(2) by blast
  have one: "\<exists>c. osw_channel_from_op_class 116 (word_of_int (ctrl_chan a ! 1)) = Some (True, c) \<and>
      control_freq_mhz c = fs ! 1"
    using all [rule_format, of 1] fs(2) a(3) by simp
  have "osw_op_class_to_freqs 116 = Some [5180, 5220, 0]" by code_simp
  then have "fs = [5180, 5220]" using fs(1) by simp
  then show ?thesis
    using one a b osw_op_class_to_freqs_correct [OF b(1), THEN conjunct2, THEN conjunct1] s fs(1) by auto
qed

end
