(* ===== verification/Osw_Chan_State.thy ===== *)
theory Osw_Chan_State
  imports Osw_Channel
begin

text \<open>
  The queries of \<open>src/src/lib/osw/src/osw_types.c\<close> over the states of the 20 MHz channels of a radio:
  whether a channel intersects a DFS state, is valid, usable, on a DFS control channel, and the
  states of its segments. Each query fills a local array of 16 elements with the segments of the
  channel first; a read of an element that was not written is \<open>None\<close>, as is a failed assertion.
\<close>

section \<open>Model\<close>

datatype osw_channel_state_dfs =
    OSW_CHANNEL_NON_DFS
  | OSW_CHANNEL_DFS_CAC_POSSIBLE
  | OSW_CHANNEL_DFS_CAC_IN_PROGRESS
  | OSW_CHANNEL_DFS_CAC_COMPLETED
  | OSW_CHANNEL_DFS_NOL

record osw_channel_state =
  channel :: osw_channel
  dfs_state :: osw_channel_state_dfs
  dfs_nol_remaining_seconds :: int

abbreviation cs_freq :: "osw_channel_state \<Rightarrow> int" where
  "cs_freq cs \<equiv> control_freq_mhz (channel cs)"

text \<open>The bit of segment \<open>m\<close> in the puncturing bitmap.\<close>

definition punctured :: "osw_channel \<Rightarrow> nat \<Rightarrow> bool" where
  "punctured c m \<longleftrightarrow> puncture_bitmap c AND push_bit m 1 \<noteq> 0"

text \<open>The inner loop over the states for one segment, whose element is read for each state.\<close>

fun segment_in_state ::
    "osw_channel_state list \<Rightarrow> int option \<Rightarrow> osw_channel_state_dfs \<Rightarrow> bool option" where
  "segment_in_state [] freq state = Some False"
| "segment_in_state (cs # css) freq state =
     (case freq of
        None \<Rightarrow> None
      | Some f \<Rightarrow>
          if cs_freq cs \<noteq> f then segment_in_state css freq state
          else if dfs_state cs = state then Some True
          else segment_in_state css freq state)"

fun intersects_loop ::
    "osw_channel_state list \<Rightarrow> osw_channel \<Rightarrow> osw_channel_state_dfs \<Rightarrow> int_buf \<Rightarrow> nat \<Rightarrow> bool option" where
  "intersects_loop css c state freqs 0 = Some False"
| "intersects_loop css c state freqs (Suc m) =
     (case (if punctured c m then Some False else segment_in_state css (freqs ! m) state) of
        None \<Rightarrow> None
      | Some True \<Rightarrow> Some True
      | Some False \<Rightarrow> intersects_loop css c state freqs m)"

definition osw_cs_chan_intersects_state ::
    "osw_channel_state list \<Rightarrow> osw_channel \<Rightarrow> osw_channel_state_dfs \<Rightarrow> bool option" where
  "osw_cs_chan_intersects_state css c state =
     (if center_freq0_mhz c = 0 then None
      else
        case osw_channel_20mhz_segments c (replicate 16 None) of
          None \<Rightarrow> None
        | Some (n_freqs, freqs) \<Rightarrow>
            if n_freqs = 0 then Some False else intersects_loop css c state freqs n_freqs)"

text \<open>The states appended to \<open>output\<close> for one segment.\<close>

fun segment_states :: "osw_channel_state list \<Rightarrow> int option \<Rightarrow> osw_channel_state list option" where
  "segment_states [] freq = Some []"
| "segment_states (cs # css) freq =
     (case freq of
        None \<Rightarrow> None
      | Some f \<Rightarrow>
          map_option (\<lambda>out. if cs_freq cs = f then cs # out else out) (segment_states css freq))"

fun segments_states_loop ::
    "osw_channel_state list \<Rightarrow> osw_channel \<Rightarrow> int_buf \<Rightarrow> nat \<Rightarrow> osw_channel_state list \<Rightarrow>
     osw_channel_state list option" where
  "segments_states_loop css c freqs 0 output = Some output"
| "segments_states_loop css c freqs (Suc m) output =
     (case (if punctured c m then Some [] else segment_states css (freqs ! m)) of
        None \<Rightarrow> None
      | Some out \<Rightarrow> segments_states_loop css c freqs m (output @ out))"

text \<open>The inner \<open>None\<close> is the NULL it returns.\<close>

definition osw_cs_chan_get_segments_states ::
    "osw_channel_state list \<Rightarrow> osw_channel \<Rightarrow> osw_channel_state list option option" where
  "osw_cs_chan_get_segments_states css c =
     (if center_freq0_mhz c = 0 then None
      else
        case osw_channel_20mhz_segments c (replicate 16 None) of
          None \<Rightarrow> None
        | Some (n_freqs, freqs) \<Rightarrow>
            if n_freqs = 0 then Some None
            else
              (case segments_states_loop css c freqs n_freqs [] of
                 None \<Rightarrow> None
               | Some output \<Rightarrow>
                   Some (if length output \<noteq> n_freqs then None else Some output)))"

fun segment_found :: "osw_channel_state list \<Rightarrow> int option \<Rightarrow> bool option" where
  "segment_found [] freq = Some False"
| "segment_found (cs # css) freq =
     (case freq of
        None \<Rightarrow> None
      | Some f \<Rightarrow> if cs_freq cs = f then Some True else segment_found css freq)"

fun valid_loop :: "osw_channel_state list \<Rightarrow> int_buf \<Rightarrow> nat \<Rightarrow> bool option" where
  "valid_loop css freqs 0 = Some True"
| "valid_loop css freqs (Suc m) =
     (case segment_found css (freqs ! m) of
        None \<Rightarrow> None
      | Some False \<Rightarrow> Some False
      | Some True \<Rightarrow> valid_loop css freqs m)"

definition osw_cs_chan_is_valid :: "osw_channel_state list \<Rightarrow> osw_channel \<Rightarrow> bool option" where
  "osw_cs_chan_is_valid css c =
     (if center_freq0_mhz c = 0 then None
      else
        case osw_channel_20mhz_segments c (replicate 16 None) of
          None \<Rightarrow> None
        | Some (n_freqs, freqs) \<Rightarrow>
            if n_freqs = 0 then Some False else valid_loop css freqs n_freqs)"

definition osw_cs_chan_is_usable :: "osw_channel_state list \<Rightarrow> osw_channel \<Rightarrow> bool option" where
  "osw_cs_chan_is_usable cs c =
     (case osw_cs_chan_is_valid cs c of
        None \<Rightarrow> None
      | Some valid \<Rightarrow>
          (case osw_cs_chan_intersects_state cs c OSW_CHANNEL_DFS_NOL of
             None \<Rightarrow> None
           | Some contains_nol \<Rightarrow> Some (valid \<and> \<not> contains_nol)))"

fun osw_cs_chan_is_control_dfs :: "osw_channel_state list \<Rightarrow> osw_channel \<Rightarrow> bool" where
  "osw_cs_chan_is_control_dfs [] c = False"
| "osw_cs_chan_is_control_dfs (cs # css) c =
     (if cs_freq cs = control_freq_mhz c then
        (case dfs_state cs of
           OSW_CHANNEL_NON_DFS \<Rightarrow> False
         | _ \<Rightarrow> True)
      else osw_cs_chan_is_control_dfs css c)"

definition osw_cs_chan_get_band :: "osw_channel_state list \<Rightarrow> osw_band" where
  "osw_cs_chan_get_band css =
     (case css of
        [] \<Rightarrow> OSW_BAND_UNDEFINED
      | cs # rest \<Rightarrow>
          let prev_band = osw_channel_to_band (channel cs) in
          if list_ex (\<lambda>cs. prev_band \<noteq> osw_channel_to_band (channel cs)) rest
          then OSW_BAND_UNDEFINED else prev_band)"

definition osw_cs_get_max_2g_chan :: "osw_channel_state list \<Rightarrow> int" where
  "osw_cs_get_max_2g_chan css =
     fold (\<lambda>cs m.
       let freq = cs_freq cs;
           band = osw_freq_to_band freq
       in if band \<noteq> OSW_BAND_2GHZ then m
          else let chan = osw_freq_to_chan freq in if m < chan then chan else m) css 0"

text \<open>The values of \<open>*min_chan_n\<close> and \<open>*max_chan_n\<close>, which an empty array leaves alone.\<close>

definition osw_channel_state_get_min_max ::
    "osw_channel_state list \<Rightarrow> int \<times> int \<Rightarrow> int \<times> int" where
  "osw_channel_state_get_min_max css min_max =
     (if length css < 1 then min_max
      else fold (\<lambda>cs (mn, mx). let chan_n = osw_freq_to_chan (cs_freq cs) in (min chan_n mn, max chan_n mx))
             css (255, 0))"

section \<open>Properties\<close>

text \<open>The segments of a channel of one piece fit the local array.\<close>

definition one_piece :: "osw_channel \<Rightarrow> bool" where
  "one_piece c \<longleftrightarrow>
     width c \<noteq> OSW_CHANNEL_80P80MHZ \<and> control_freq_mhz c \<noteq> 0 \<and> center_freq0_mhz c \<noteq> 0"

lemma n_segments_bounds: "0 < n_segments c \<and> n_segments c \<le> 16"
  by (cases "width c") (simp_all add: n_segments_def)

lemma one_piece_segments:
  assumes "one_piece c"
  shows "\<exists>freqs. osw_channel_20mhz_segments c (replicate 16 None) = Some (n_segments c, freqs) \<and>
    (\<forall>i<n_segments c. freqs ! i = Some (chan_segments c ! i))"
  using segments_eq_fill [of c "replicate 16 None"] n_segments_bounds [of c] assms
  by (auto simp: one_piece_def fill_def nth_append chan_segments_def)

lemma segment_in_state_eq:
  "segment_in_state css (Some f) state = Some (\<exists>cs\<in>set css. cs_freq cs = f \<and> dfs_state cs = state)"
  by (induction css) auto

lemma intersects_loop_eq:
  "(\<forall>i<n. freqs ! i = Some (segs ! i)) \<Longrightarrow>
     intersects_loop css c state freqs n =
       Some (\<exists>i<n. \<not> punctured c i \<and> (\<exists>cs\<in>set css. cs_freq cs = segs ! i \<and> dfs_state cs = state))"
proof (induction n)
  case (Suc n)
  then show ?case
    by (auto simp: segment_in_state_eq less_Suc_eq split: bool.splits)
qed simp

lemma segment_found_eq: "segment_found css (Some f) = Some (\<exists>cs\<in>set css. cs_freq cs = f)"
  by (induction css) auto

lemma valid_loop_eq:
  "(\<forall>i<n. freqs ! i = Some (segs ! i)) \<Longrightarrow>
     valid_loop css freqs n = Some (\<forall>i<n. \<exists>cs\<in>set css. cs_freq cs = segs ! i)"
  by (induction n) (auto simp: segment_found_eq less_Suc_eq split: bool.splits)

lemma chan_segments_length: "length (chan_segments c) = n_segments c"
  by (simp add: chan_segments_def)

lemma segments_known:
  "set (chan_segments c) \<subseteq> cs_freq ` set css \<longleftrightarrow>
     (\<forall>i<n_segments c. \<exists>cs\<in>set css. cs_freq cs = chan_segments c ! i)"
proof -
  have "(\<exists>cs\<in>set css. cs_freq cs = f) \<longleftrightarrow> f \<in> cs_freq ` set css" for f by (auto simp: image_iff)
  then show ?thesis by (simp add: subset_eq all_set_conv_all_nth chan_segments_length)
qed

text \<open>What the queries mean: some, or every, segment has a state of the list on its frequency.\<close>

definition seg_state :: "osw_channel_state list \<Rightarrow> osw_channel \<Rightarrow> nat \<Rightarrow> osw_channel_state_dfs \<Rightarrow> bool" where
  "seg_state css c i state \<longleftrightarrow>
     (\<exists>cs\<in>set css. cs_freq cs = chan_segments c ! i \<and> dfs_state cs = state)"

text \<open>
  C21. For a channel of one piece, \<open>osw_cs_chan_intersects_state\<close> tells whether some segment that is not
  punctured has the given DFS state, \<open>osw_cs_chan_is_valid\<close> whether every segment is a known
  channel, and \<open>osw_cs_chan_is_usable\<close> whether it is valid and no segment in use is on the
  non-occupancy list. None of them reads an element of the local array that was not written.
\<close>

theorem osw_cs_chan_queries_correct:
  assumes "one_piece c"
  shows "osw_cs_chan_intersects_state css c state =
           Some (\<exists>i<n_segments c. \<not> punctured c i \<and> seg_state css c i state) \<and>
         osw_cs_chan_is_valid css c = Some (set (chan_segments c) \<subseteq> cs_freq ` set css) \<and>
         osw_cs_chan_is_usable css c =
           Some (set (chan_segments c) \<subseteq> cs_freq ` set css \<and>
             (\<nexists>i. i < n_segments c \<and> \<not> punctured c i \<and> seg_state css c i OSW_CHANNEL_DFS_NOL))"
proof -
  obtain freqs where f: "osw_channel_20mhz_segments c (replicate 16 None) = Some (n_segments c, freqs)"
    "\<forall>i<n_segments c. freqs ! i = Some (chan_segments c ! i)"
    using one_piece_segments [OF assms] by auto
  have n: "n_segments c \<noteq> 0" "center_freq0_mhz c \<noteq> 0"
    using n_segments_bounds [of c] assms by (auto simp: one_piece_def)
  have i: "osw_cs_chan_intersects_state css c st =
      Some (\<exists>i<n_segments c. \<not> punctured c i \<and> seg_state css c i st)" for st
    using n f intersects_loop_eq [OF f(2), of css c st]
    by (simp add: osw_cs_chan_intersects_state_def seg_state_def)
  have v: "osw_cs_chan_is_valid css c = Some (set (chan_segments c) \<subseteq> cs_freq ` set css)"
    using n f valid_loop_eq [OF f(2), of css] segments_known [of c css]
    by (simp add: osw_cs_chan_is_valid_def)
  show ?thesis using i v by (auto simp: osw_cs_chan_is_usable_def)
qed

lemma segment_states_eq: "segment_states css (Some f) = Some (filter (\<lambda>cs. cs_freq cs = f) css)"
  by (induction css) auto

lemma segments_states_loop_eq:
  "(\<forall>i<n. freqs ! i = Some (segs ! i)) \<Longrightarrow>
     segments_states_loop css c freqs n acc =
       Some (acc @ concat (map (\<lambda>i. if punctured c i then [] else
         filter (\<lambda>cs. cs_freq cs = segs ! i) css) (rev [0..<n])))"
  by (induction n arbitrary: acc) (auto simp: segment_states_eq)

lemma filter_distinct_length:
  "distinct (map f xs) \<Longrightarrow> length (filter (\<lambda>x. f x = a) xs) = (if a \<in> f ` set xs then 1 else 0)"
  by (induction xs) (auto simp: image_iff)

text \<open>
  When every state of the list is on a frequency of its own, \<open>osw_cs_chan_get_segments_states\<close>
  returns the states of the segments, from the highest to the lowest frequency, exactly when every
  segment is known and none is punctured; it returns NULL otherwise. Puncturing a segment thus makes
  the query fail, although the loop skips punctured segments.
\<close>

lemma osw_cs_chan_get_segments_states_correct:
  assumes "one_piece c" "distinct (map cs_freq css)"
  shows "osw_cs_chan_get_segments_states css c =
           Some (if set (chan_segments c) \<subseteq> cs_freq ` set css \<and> (\<nexists>i. i < n_segments c \<and> punctured c i)
             then Some (concat (map (\<lambda>f. filter (\<lambda>cs. cs_freq cs = f) css) (rev (chan_segments c))))
             else None)"
proof -
  obtain freqs where f: "osw_channel_20mhz_segments c (replicate 16 None) = Some (n_segments c, freqs)"
    "\<forall>i<n_segments c. freqs ! i = Some (chan_segments c ! i)"
    using one_piece_segments [OF assms(1)] by auto
  have n: "n_segments c \<noteq> 0" "center_freq0_mhz c \<noteq> 0"
    using n_segments_bounds [of c] assms by (auto simp: one_piece_def)
  let ?at = "\<lambda>i. if punctured c i then [] else filter (\<lambda>cs. cs_freq cs = chan_segments c ! i) css"
  let ?out = "concat (map ?at (rev [0..<n_segments c]))"
  have loop: "segments_states_loop css c freqs (n_segments c) [] = Some ?out"
    using segments_states_loop_eq [OF f(2)] by simp
  let ?P = "\<lambda>i. \<not> punctured c i \<and> chan_segments c ! i \<in> cs_freq ` set css"
  have "length (?at i) = (if ?P i then 1 else 0)" for i
    using filter_distinct_length [OF assms(2), of "chan_segments c ! i"]
    by (cases "punctured c i"; cases "chan_segments c ! i \<in> cs_freq ` set css") simp_all
  then have "length ?out = (\<Sum>i\<leftarrow>rev [0..<n_segments c]. if ?P i then 1 else 0)"
    by (simp add: length_concat comp_def)
  then have "length ?out = n_segments c \<longleftrightarrow> (\<forall>i<n_segments c. ?P i)"
    using sum_list_bools_full [of ?P "rev [0..<n_segments c]"] by auto
  moreover have "set (chan_segments c) \<subseteq> cs_freq ` set css \<longleftrightarrow>
      (\<forall>i<n_segments c. chan_segments c ! i \<in> cs_freq ` set css)"
    by (simp add: subset_eq all_set_conv_all_nth chan_segments_length)
  ultimately have full: "length ?out = n_segments c \<longleftrightarrow>
      set (chan_segments c) \<subseteq> cs_freq ` set css \<and> (\<nexists>i. i < n_segments c \<and> punctured c i)"
    by auto
  have "?out = concat (map (\<lambda>f. filter (\<lambda>cs. cs_freq cs = f) css) (rev (chan_segments c)))"
    if "\<nexists>i. i < n_segments c \<and> punctured c i"
  proof -
    have "map ?at [0..<n_segments c] = map (\<lambda>f. filter (\<lambda>cs. cs_freq cs = f) css) (chan_segments c)"
      using that by (intro nth_equalityI) (auto simp: chan_segments_length)
    then show ?thesis by (simp add: rev_map [symmetric])
  qed
  then show ?thesis using n f loop full by (auto simp: osw_cs_chan_get_segments_states_def)
qed

text \<open>Four known channels, the last one on the non-occupancy list, and a channel over them.\<close>

definition state_at :: "int \<Rightarrow> osw_channel_state_dfs \<Rightarrow> osw_channel_state" where
  "state_at f dfs = \<lparr>channel = osw_channel_none\<lparr>control_freq_mhz := f\<rparr>, dfs_state = dfs,
     dfs_nol_remaining_seconds = 0\<rparr>"

definition states_52_64 :: "osw_channel_state list" where
  "states_52_64 =
     [state_at 5260 OSW_CHANNEL_DFS_CAC_COMPLETED, state_at 5280 OSW_CHANNEL_DFS_CAC_COMPLETED,
      state_at 5300 OSW_CHANNEL_DFS_CAC_COMPLETED, state_at 5320 OSW_CHANNEL_DFS_NOL]"

definition chan_52_80 :: "u16 \<Rightarrow> osw_channel" where
  "chan_52_80 bitmap = \<lparr>width = OSW_CHANNEL_80MHZ, control_freq_mhz = 5260, center_freq0_mhz = 5290,
     center_freq1_mhz = 0, puncture_bitmap = bitmap\<rparr>"

theorem osw_cs_chan_queries_correct_witness:
  "osw_cs_chan_is_usable states_52_64 (chan_52_80 0) = Some False \<and>
   osw_cs_chan_is_usable states_52_64 (chan_52_80 8) = Some True"
proof -
  have o: "one_piece (chan_52_80 0)" "one_piece (chan_52_80 8)" by code_simp+
  have s: "set (chan_segments (chan_52_80 0)) \<subseteq> cs_freq ` set states_52_64"
    "set (chan_segments (chan_52_80 8)) \<subseteq> cs_freq ` set states_52_64"
    "n_segments (chan_52_80 0) = 4" "n_segments (chan_52_80 8) = 4"
    "\<not> punctured (chan_52_80 0) 3" "seg_state states_52_64 (chan_52_80 0) 3 OSW_CHANNEL_DFS_NOL"
    "\<not> list_ex (\<lambda>i. \<not> punctured (chan_52_80 8) i \<and>
       seg_state states_52_64 (chan_52_80 8) i OSW_CHANNEL_DFS_NOL) [0..<4]"
    by code_simp+
  have a: "\<exists>i<4. \<not> punctured (chan_52_80 0) i \<and> seg_state states_52_64 (chan_52_80 0) i OSW_CHANNEL_DFS_NOL"
    using s(5,6) by (intro exI [of _ 3]) simp
  have b: "\<nexists>i. i < 4 \<and> \<not> punctured (chan_52_80 8) i \<and> seg_state states_52_64 (chan_52_80 8) i OSW_CHANNEL_DFS_NOL"
    using s(7) by (auto simp: list_ex_iff)
  show ?thesis
    using a b s(1-4) osw_cs_chan_queries_correct [OF o(1), THEN conjunct2, THEN conjunct2, of states_52_64]
      osw_cs_chan_queries_correct [OF o(2), THEN conjunct2, THEN conjunct2, of states_52_64]
    by simp
qed

lemma osw_cs_chan_get_segments_states_correct_witness:
  "osw_cs_chan_get_segments_states states_52_64 (chan_52_80 0) = Some (Some (rev states_52_64)) \<and>
   osw_cs_chan_get_segments_states states_52_64 (chan_52_80 8) = Some None"
proof -
  have o: "one_piece (chan_52_80 0)" "one_piece (chan_52_80 8)" by code_simp+
  have d: "distinct (map cs_freq states_52_64)" by code_simp
  have s: "set (chan_segments (chan_52_80 0)) \<subseteq> cs_freq ` set states_52_64"
    "n_segments (chan_52_80 0) = 4" "n_segments (chan_52_80 8) = 4" "punctured (chan_52_80 8) 3"
    "\<not> list_ex (punctured (chan_52_80 0)) [0..<4]"
    "concat (map (\<lambda>f. filter (\<lambda>cs. cs_freq cs = f) states_52_64) (rev (chan_segments (chan_52_80 0)))) =
       rev states_52_64"
    by code_simp+
  have a: "\<nexists>i. i < 4 \<and> punctured (chan_52_80 0) i" using s(5) by (auto simp: list_ex_iff)
  have b: "\<exists>i<4. punctured (chan_52_80 8) i" using s(4) by (intro exI [of _ 3]) simp
  show ?thesis
    using osw_cs_chan_get_segments_states_correct [OF o(1) d]
      osw_cs_chan_get_segments_states_correct [OF o(2) d] s(1,2,3,6) a b
    by simp
qed

end
