(* ===== verification/Osw_Enums.thy ===== *)
theory Osw_Enums
  imports Osw_Chan_State
begin

text \<open>
  The enumerations of \<open>src/src/lib/osw/inc/osw_types.h\<close> with the conversions of
  \<open>src/src/lib/osw/src/osw_types.c\<close>: their printed names, the suite selectors of key management
  modes and ciphers, the legacy rates, and the accumulated status of a virtual interface. The value
  a conversion returns after its \<open>switch\<close>, for a number that is no enumerator, has no counterpart.
\<close>

section \<open>Enumerations\<close>

datatype osw_pmf =
    OSW_PMF_DISABLED
  | OSW_PMF_OPTIONAL
  | OSW_PMF_REQUIRED

datatype osw_vif_type =
    OSW_VIF_UNDEFINED
  | OSW_VIF_AP
  | OSW_VIF_AP_VLAN
  | OSW_VIF_STA

datatype osw_acl_policy =
    OSW_ACL_NONE
  | OSW_ACL_ALLOW_LIST
  | OSW_ACL_DENY_LIST

datatype osw_radar_detect =
    OSW_RADAR_UNSUPPORTED
  | OSW_RADAR_DETECT_ENABLED
  | OSW_RADAR_DETECT_DISABLED

datatype osw_reg_dfs =
    OSW_REG_DFS_UNDEFINED
  | OSW_REG_DFS_FCC
  | OSW_REG_DFS_ETSI

datatype osw_mbss_vif_ap_mode =
    OSW_MBSS_NONE
  | OSW_MBSS_TX_VAP
  | OSW_MBSS_NON_TX_VAP

datatype osw_beacon_rate_type =
    OSW_BEACON_RATE_UNSPEC
  | OSW_BEACON_RATE_ABG
  | OSW_BEACON_RATE_HT
  | OSW_BEACON_RATE_VHT
  | OSW_BEACON_RATE_HE

datatype osw_sta_cell_cap =
    OSW_STA_CELL_UNKNOWN
  | OSW_STA_CELL_AVAILABLE
  | OSW_STA_CELL_NOT_AVAILABLE

datatype osw_vif_status =
    OSW_VIF_UNKNOWN
  | OSW_VIF_DISABLED
  | OSW_VIF_ENABLED
  | OSW_VIF_BROKEN

datatype osw_rate_legacy =
    OSW_RATE_UNSPEC
  | OSW_RATE_CCK_1_MBPS
  | OSW_RATE_CCK_2_MBPS
  | OSW_RATE_CCK_5_5_MBPS
  | OSW_RATE_CCK_11_MBPS
  | OSW_RATE_OFDM_6_MBPS
  | OSW_RATE_OFDM_9_MBPS
  | OSW_RATE_OFDM_12_MBPS
  | OSW_RATE_OFDM_18_MBPS
  | OSW_RATE_OFDM_24_MBPS
  | OSW_RATE_OFDM_36_MBPS
  | OSW_RATE_OFDM_48_MBPS
  | OSW_RATE_OFDM_54_MBPS
  | OSW_RATE_COUNT

datatype osw_akm =
    OSW_AKM_UNSPEC
  | OSW_AKM_RSN_EAP
  | OSW_AKM_RSN_PSK
  | OSW_AKM_RSN_FT_EAP
  | OSW_AKM_RSN_FT_PSK
  | OSW_AKM_RSN_EAP_SHA256
  | OSW_AKM_RSN_PSK_SHA256
  | OSW_AKM_RSN_SAE
  | OSW_AKM_RSN_FT_SAE
  | OSW_AKM_RSN_EAP_SUITE_B
  | OSW_AKM_RSN_EAP_SUITE_B_192
  | OSW_AKM_RSN_FT_EAP_SHA384
  | OSW_AKM_RSN_FT_PSK_SHA384
  | OSW_AKM_RSN_PSK_SHA384
  | OSW_AKM_RSN_EAP_SHA384
  | OSW_AKM_RSN_SAE_EXT
  | OSW_AKM_RSN_FT_SAE_EXT
  | OSW_AKM_WPA_NONE
  | OSW_AKM_WPA_8021X
  | OSW_AKM_WPA_PSK
  | OSW_AKM_WFA_DPP

datatype osw_cipher =
    OSW_CIPHER_UNSPEC
  | OSW_CIPHER_RSN_NONE
  | OSW_CIPHER_RSN_WEP_40
  | OSW_CIPHER_RSN_TKIP
  | OSW_CIPHER_RSN_CCMP_128
  | OSW_CIPHER_RSN_WEP_104
  | OSW_CIPHER_RSN_BIP_CMAC_128
  | OSW_CIPHER_RSN_GCMP_128
  | OSW_CIPHER_RSN_GCMP_256
  | OSW_CIPHER_RSN_CCMP_256
  | OSW_CIPHER_RSN_BIP_GMAC_128
  | OSW_CIPHER_RSN_BIP_GMAC_256
  | OSW_CIPHER_RSN_BIP_CMAC_256
  | OSW_CIPHER_WPA_NONE
  | OSW_CIPHER_WPA_WEP_40
  | OSW_CIPHER_WPA_TKIP
  | OSW_CIPHER_WPA_CCMP
  | OSW_CIPHER_WPA_WEP_104

section \<open>Names\<close>

fun osw_pmf_to_str :: "osw_pmf \<Rightarrow> string" where
  "osw_pmf_to_str OSW_PMF_DISABLED = ''disabled''"
| "osw_pmf_to_str OSW_PMF_OPTIONAL = ''optional''"
| "osw_pmf_to_str OSW_PMF_REQUIRED = ''required''"

fun osw_vif_type_to_str :: "osw_vif_type \<Rightarrow> string" where
  "osw_vif_type_to_str OSW_VIF_UNDEFINED = ''undefined''"
| "osw_vif_type_to_str OSW_VIF_AP = ''ap''"
| "osw_vif_type_to_str OSW_VIF_AP_VLAN = ''ap_vlan''"
| "osw_vif_type_to_str OSW_VIF_STA = ''sta''"

fun osw_acl_policy_to_str :: "osw_acl_policy \<Rightarrow> string" where
  "osw_acl_policy_to_str OSW_ACL_NONE = ''none''"
| "osw_acl_policy_to_str OSW_ACL_ALLOW_LIST = ''allow''"
| "osw_acl_policy_to_str OSW_ACL_DENY_LIST = ''deny''"

fun osw_channel_width_to_str :: "osw_channel_width \<Rightarrow> string" where
  "osw_channel_width_to_str OSW_CHANNEL_20MHZ = ''20''"
| "osw_channel_width_to_str OSW_CHANNEL_40MHZ = ''40''"
| "osw_channel_width_to_str OSW_CHANNEL_80MHZ = ''80''"
| "osw_channel_width_to_str OSW_CHANNEL_160MHZ = ''160''"
| "osw_channel_width_to_str OSW_CHANNEL_80P80MHZ = ''80p80''"
| "osw_channel_width_to_str OSW_CHANNEL_320MHZ = ''320''"

fun osw_channel_dfs_state_to_str :: "osw_channel_state_dfs \<Rightarrow> string" where
  "osw_channel_dfs_state_to_str OSW_CHANNEL_NON_DFS = ''non_dfs''"
| "osw_channel_dfs_state_to_str OSW_CHANNEL_DFS_CAC_POSSIBLE = ''cac_possible''"
| "osw_channel_dfs_state_to_str OSW_CHANNEL_DFS_CAC_IN_PROGRESS = ''cac_in_progress''"
| "osw_channel_dfs_state_to_str OSW_CHANNEL_DFS_CAC_COMPLETED = ''cac_completed''"
| "osw_channel_dfs_state_to_str OSW_CHANNEL_DFS_NOL = ''nol''"

fun osw_radar_to_str :: "osw_radar_detect \<Rightarrow> string" where
  "osw_radar_to_str OSW_RADAR_UNSUPPORTED = ''unsupported''"
| "osw_radar_to_str OSW_RADAR_DETECT_ENABLED = ''enabled''"
| "osw_radar_to_str OSW_RADAR_DETECT_DISABLED = ''disabled''"

fun osw_band_to_str :: "osw_band \<Rightarrow> string" where
  "osw_band_to_str OSW_BAND_UNDEFINED = ''undefined''"
| "osw_band_to_str OSW_BAND_2GHZ = ''2ghz''"
| "osw_band_to_str OSW_BAND_5GHZ = ''5ghz''"
| "osw_band_to_str OSW_BAND_6GHZ = ''6ghz''"

fun osw_reg_dfs_to_str :: "osw_reg_dfs \<Rightarrow> string" where
  "osw_reg_dfs_to_str OSW_REG_DFS_UNDEFINED = ''undefined''"
| "osw_reg_dfs_to_str OSW_REG_DFS_FCC = ''fcc''"
| "osw_reg_dfs_to_str OSW_REG_DFS_ETSI = ''etsi''"

fun osw_mbss_vif_ap_mode_to_str :: "osw_mbss_vif_ap_mode \<Rightarrow> string" where
  "osw_mbss_vif_ap_mode_to_str OSW_MBSS_NONE = ''none''"
| "osw_mbss_vif_ap_mode_to_str OSW_MBSS_TX_VAP = ''tx_vap''"
| "osw_mbss_vif_ap_mode_to_str OSW_MBSS_NON_TX_VAP = ''non_tx_vap''"

fun osw_beacon_rate_type_to_str :: "osw_beacon_rate_type \<Rightarrow> string" where
  "osw_beacon_rate_type_to_str OSW_BEACON_RATE_UNSPEC = ''unspec''"
| "osw_beacon_rate_type_to_str OSW_BEACON_RATE_ABG = ''abg''"
| "osw_beacon_rate_type_to_str OSW_BEACON_RATE_HT = ''ht''"
| "osw_beacon_rate_type_to_str OSW_BEACON_RATE_VHT = ''vhT''"
| "osw_beacon_rate_type_to_str OSW_BEACON_RATE_HE = ''he''"

fun osw_akm_into_cstr :: "osw_akm \<Rightarrow> string" where
  "osw_akm_into_cstr OSW_AKM_UNSPEC = ''unspec''"
| "osw_akm_into_cstr OSW_AKM_RSN_EAP = ''rsn-eap''"
| "osw_akm_into_cstr OSW_AKM_RSN_PSK = ''rsn-psk''"
| "osw_akm_into_cstr OSW_AKM_RSN_FT_EAP = ''rsn-ft-eap''"
| "osw_akm_into_cstr OSW_AKM_RSN_FT_PSK = ''rsn-ft-psk''"
| "osw_akm_into_cstr OSW_AKM_RSN_EAP_SHA256 = ''rsn-eap-sha256''"
| "osw_akm_into_cstr OSW_AKM_RSN_EAP_SHA384 = ''rsn-eap-sha384''"
| "osw_akm_into_cstr OSW_AKM_RSN_PSK_SHA256 = ''rsn-psk-sha256''"
| "osw_akm_into_cstr OSW_AKM_RSN_SAE = ''rsn-sae''"
| "osw_akm_into_cstr OSW_AKM_RSN_SAE_EXT = ''rsn-sae-ext''"
| "osw_akm_into_cstr OSW_AKM_RSN_FT_SAE = ''rsn-ft-sae''"
| "osw_akm_into_cstr OSW_AKM_RSN_FT_SAE_EXT = ''rsn-ft-sae-ext''"
| "osw_akm_into_cstr OSW_AKM_RSN_EAP_SUITE_B = ''rsn-eap-suite-b''"
| "osw_akm_into_cstr OSW_AKM_RSN_EAP_SUITE_B_192 = ''rsn-eap-suite-b-192''"
| "osw_akm_into_cstr OSW_AKM_RSN_FT_EAP_SHA384 = ''rsn-ft-eap-sha384''"
| "osw_akm_into_cstr OSW_AKM_RSN_FT_PSK_SHA384 = ''rsn-ft-psk-sha384''"
| "osw_akm_into_cstr OSW_AKM_RSN_PSK_SHA384 = ''rsn-psk-sha384''"
| "osw_akm_into_cstr OSW_AKM_WPA_NONE = ''wpa-none''"
| "osw_akm_into_cstr OSW_AKM_WPA_8021X = ''wpa-8021x''"
| "osw_akm_into_cstr OSW_AKM_WPA_PSK = ''wpa-psk''"
| "osw_akm_into_cstr OSW_AKM_WFA_DPP = ''wfa-dpp''"

fun osw_cipher_into_cstr :: "osw_cipher \<Rightarrow> string" where
  "osw_cipher_into_cstr OSW_CIPHER_UNSPEC = ''unspec''"
| "osw_cipher_into_cstr OSW_CIPHER_RSN_NONE = ''rsn-none''"
| "osw_cipher_into_cstr OSW_CIPHER_RSN_WEP_40 = ''rsn-wep-40''"
| "osw_cipher_into_cstr OSW_CIPHER_RSN_TKIP = ''rsn-tkip''"
| "osw_cipher_into_cstr OSW_CIPHER_RSN_CCMP_128 = ''rsn-ccmp-128''"
| "osw_cipher_into_cstr OSW_CIPHER_RSN_WEP_104 = ''rsn-wep-104''"
| "osw_cipher_into_cstr OSW_CIPHER_RSN_BIP_CMAC_128 = ''rsn-bip-cmac-128''"
| "osw_cipher_into_cstr OSW_CIPHER_RSN_GCMP_128 = ''rsn-gcmp-128''"
| "osw_cipher_into_cstr OSW_CIPHER_RSN_GCMP_256 = ''rsn-gcmp-256''"
| "osw_cipher_into_cstr OSW_CIPHER_RSN_CCMP_256 = ''rsn-ccmp-256''"
| "osw_cipher_into_cstr OSW_CIPHER_RSN_BIP_GMAC_128 = ''rsn-bip-gmac-128''"
| "osw_cipher_into_cstr OSW_CIPHER_RSN_BIP_GMAC_256 = ''rsn-bip-gmac-256''"
| "osw_cipher_into_cstr OSW_CIPHER_RSN_BIP_CMAC_256 = ''rsn-bip-cmac-256''"
| "osw_cipher_into_cstr OSW_CIPHER_WPA_NONE = ''wpa-none''"
| "osw_cipher_into_cstr OSW_CIPHER_WPA_WEP_40 = ''wpa-wep-40''"
| "osw_cipher_into_cstr OSW_CIPHER_WPA_TKIP = ''wpa-tkip''"
| "osw_cipher_into_cstr OSW_CIPHER_WPA_CCMP = ''wpa-ccmp''"
| "osw_cipher_into_cstr OSW_CIPHER_WPA_WEP_104 = ''wpa-wep-104''"

fun osw_band_into_cstr :: "osw_band \<Rightarrow> string" where
  "osw_band_into_cstr OSW_BAND_UNDEFINED = ''undefined''"
| "osw_band_into_cstr OSW_BAND_2GHZ = ''2.4ghz''"
| "osw_band_into_cstr OSW_BAND_5GHZ = ''5ghz''"
| "osw_band_into_cstr OSW_BAND_6GHZ = ''6ghz''"

fun osw_vif_status_into_cstr :: "osw_vif_status \<Rightarrow> string" where
  "osw_vif_status_into_cstr OSW_VIF_UNKNOWN = ''unknown''"
| "osw_vif_status_into_cstr OSW_VIF_DISABLED = ''disabled''"
| "osw_vif_status_into_cstr OSW_VIF_ENABLED = ''enabled''"
| "osw_vif_status_into_cstr OSW_VIF_BROKEN = ''broken''"

fun osw_sta_cell_cap_to_cstr :: "osw_sta_cell_cap \<Rightarrow> string" where
  "osw_sta_cell_cap_to_cstr OSW_STA_CELL_UNKNOWN = ''unknown''"
| "osw_sta_cell_cap_to_cstr OSW_STA_CELL_AVAILABLE = ''available''"
| "osw_sta_cell_cap_to_cstr OSW_STA_CELL_NOT_AVAILABLE = ''not available''"

section \<open>Suites\<close>

definition OSW_SUITE :: "int \<Rightarrow> int \<Rightarrow> int \<Rightarrow> int \<Rightarrow> u32" where
  "OSW_SUITE a b c d =
     word_of_int (push_bit 24 (a AND 0xff) OR push_bit 16 (b AND 0xff) OR
       push_bit 8 (c AND 0xff) OR push_bit 0 (d AND 0xff))"

fun osw_suite_from_akm :: "osw_akm \<Rightarrow> u32" where
  "osw_suite_from_akm OSW_AKM_UNSPEC = 0"
| "osw_suite_from_akm OSW_AKM_RSN_EAP = OSW_SUITE 0x00 0x0f 0xac 1"
| "osw_suite_from_akm OSW_AKM_RSN_PSK = OSW_SUITE 0x00 0x0f 0xac 2"
| "osw_suite_from_akm OSW_AKM_RSN_FT_EAP = OSW_SUITE 0x00 0x0f 0xac 3"
| "osw_suite_from_akm OSW_AKM_RSN_FT_PSK = OSW_SUITE 0x00 0x0f 0xac 4"
| "osw_suite_from_akm OSW_AKM_RSN_EAP_SHA256 = OSW_SUITE 0x00 0x0f 0xac 5"
| "osw_suite_from_akm OSW_AKM_RSN_EAP_SHA384 = OSW_SUITE 0x00 0x0f 0xac 23"
| "osw_suite_from_akm OSW_AKM_RSN_PSK_SHA256 = OSW_SUITE 0x00 0x0f 0xac 6"
| "osw_suite_from_akm OSW_AKM_RSN_SAE = OSW_SUITE 0x00 0x0f 0xac 8"
| "osw_suite_from_akm OSW_AKM_RSN_SAE_EXT = OSW_SUITE 0x00 0x0f 0xac 24"
| "osw_suite_from_akm OSW_AKM_RSN_FT_SAE = OSW_SUITE 0x00 0x0f 0xac 9"
| "osw_suite_from_akm OSW_AKM_RSN_FT_SAE_EXT = OSW_SUITE 0x00 0x0f 0xac 25"
| "osw_suite_from_akm OSW_AKM_RSN_EAP_SUITE_B = OSW_SUITE 0x00 0x0f 0xac 11"
| "osw_suite_from_akm OSW_AKM_RSN_EAP_SUITE_B_192 = OSW_SUITE 0x00 0x0f 0xac 12"
| "osw_suite_from_akm OSW_AKM_RSN_FT_EAP_SHA384 = OSW_SUITE 0x00 0x0f 0xac 13"
| "osw_suite_from_akm OSW_AKM_RSN_FT_PSK_SHA384 = OSW_SUITE 0x00 0x0f 0xac 19"
| "osw_suite_from_akm OSW_AKM_RSN_PSK_SHA384 = OSW_SUITE 0x00 0x0f 0xac 20"
| "osw_suite_from_akm OSW_AKM_WPA_NONE = OSW_SUITE 0x00 0x50 0xf2 0"
| "osw_suite_from_akm OSW_AKM_WPA_8021X = OSW_SUITE 0x00 0x50 0xf2 1"
| "osw_suite_from_akm OSW_AKM_WPA_PSK = OSW_SUITE 0x00 0x50 0xf2 2"
| "osw_suite_from_akm OSW_AKM_WFA_DPP = OSW_SUITE 0x50 0x6f 0x9a 2"

definition osw_suite_into_akm :: "u32 \<Rightarrow> osw_akm" where
  "osw_suite_into_akm s =
     (if s = OSW_SUITE 0x00 0x0f 0xac 1 then OSW_AKM_RSN_EAP
      else if s = OSW_SUITE 0x00 0x0f 0xac 2 then OSW_AKM_RSN_PSK
      else if s = OSW_SUITE 0x00 0x0f 0xac 3 then OSW_AKM_RSN_FT_EAP
      else if s = OSW_SUITE 0x00 0x0f 0xac 4 then OSW_AKM_RSN_FT_PSK
      else if s = OSW_SUITE 0x00 0x0f 0xac 5 then OSW_AKM_RSN_EAP_SHA256
      else if s = OSW_SUITE 0x00 0x0f 0xac 23 then OSW_AKM_RSN_EAP_SHA384
      else if s = OSW_SUITE 0x00 0x0f 0xac 6 then OSW_AKM_RSN_PSK_SHA256
      else if s = OSW_SUITE 0x00 0x0f 0xac 8 then OSW_AKM_RSN_SAE
      else if s = OSW_SUITE 0x00 0x0f 0xac 24 then OSW_AKM_RSN_SAE_EXT
      else if s = OSW_SUITE 0x00 0x0f 0xac 9 then OSW_AKM_RSN_FT_SAE
      else if s = OSW_SUITE 0x00 0x0f 0xac 25 then OSW_AKM_RSN_FT_SAE_EXT
      else if s = OSW_SUITE 0x00 0x0f 0xac 11 then OSW_AKM_RSN_EAP_SUITE_B
      else if s = OSW_SUITE 0x00 0x0f 0xac 12 then OSW_AKM_RSN_EAP_SUITE_B_192
      else if s = OSW_SUITE 0x00 0x0f 0xac 13 then OSW_AKM_RSN_FT_EAP_SHA384
      else if s = OSW_SUITE 0x00 0x0f 0xac 19 then OSW_AKM_RSN_FT_PSK_SHA384
      else if s = OSW_SUITE 0x00 0x0f 0xac 20 then OSW_AKM_RSN_PSK_SHA384
      else if s = OSW_SUITE 0x00 0x50 0xf2 0 then OSW_AKM_WPA_NONE
      else if s = OSW_SUITE 0x00 0x50 0xf2 1 then OSW_AKM_WPA_8021X
      else if s = OSW_SUITE 0x00 0x50 0xf2 2 then OSW_AKM_WPA_PSK
      else if s = OSW_SUITE 0x50 0x6f 0x9a 2 then OSW_AKM_WFA_DPP
      else OSW_AKM_UNSPEC)"

fun osw_suite_from_cipher :: "osw_cipher \<Rightarrow> u32" where
  "osw_suite_from_cipher OSW_CIPHER_UNSPEC = 0"
| "osw_suite_from_cipher OSW_CIPHER_RSN_NONE = OSW_SUITE 0x00 0x0f 0xac 0"
| "osw_suite_from_cipher OSW_CIPHER_RSN_WEP_40 = OSW_SUITE 0x00 0x0f 0xac 1"
| "osw_suite_from_cipher OSW_CIPHER_RSN_TKIP = OSW_SUITE 0x00 0x0f 0xac 2"
| "osw_suite_from_cipher OSW_CIPHER_RSN_CCMP_128 = OSW_SUITE 0x00 0x0f 0xac 4"
| "osw_suite_from_cipher OSW_CIPHER_RSN_WEP_104 = OSW_SUITE 0x00 0x0f 0xac 5"
| "osw_suite_from_cipher OSW_CIPHER_RSN_BIP_CMAC_128 = OSW_SUITE 0x00 0x0f 0xac 6"
| "osw_suite_from_cipher OSW_CIPHER_RSN_GCMP_128 = OSW_SUITE 0x00 0x0f 0xac 8"
| "osw_suite_from_cipher OSW_CIPHER_RSN_GCMP_256 = OSW_SUITE 0x00 0x0f 0xac 9"
| "osw_suite_from_cipher OSW_CIPHER_RSN_CCMP_256 = OSW_SUITE 0x00 0x0f 0xac 10"
| "osw_suite_from_cipher OSW_CIPHER_RSN_BIP_GMAC_128 = OSW_SUITE 0x00 0x0f 0xac 11"
| "osw_suite_from_cipher OSW_CIPHER_RSN_BIP_GMAC_256 = OSW_SUITE 0x00 0x0f 0xac 12"
| "osw_suite_from_cipher OSW_CIPHER_RSN_BIP_CMAC_256 = OSW_SUITE 0x00 0x0f 0xac 13"
| "osw_suite_from_cipher OSW_CIPHER_WPA_NONE = OSW_SUITE 0x00 0x50 0xf2 0"
| "osw_suite_from_cipher OSW_CIPHER_WPA_WEP_40 = OSW_SUITE 0x00 0x50 0xf2 1"
| "osw_suite_from_cipher OSW_CIPHER_WPA_TKIP = OSW_SUITE 0x00 0x50 0xf2 2"
| "osw_suite_from_cipher OSW_CIPHER_WPA_CCMP = OSW_SUITE 0x00 0x50 0xf2 4"
| "osw_suite_from_cipher OSW_CIPHER_WPA_WEP_104 = OSW_SUITE 0x00 0x50 0xf2 5"

definition osw_suite_into_cipher :: "u32 \<Rightarrow> osw_cipher" where
  "osw_suite_into_cipher s =
     (if s = OSW_SUITE 0x00 0x0f 0xac 0 then OSW_CIPHER_RSN_NONE
      else if s = OSW_SUITE 0x00 0x0f 0xac 1 then OSW_CIPHER_RSN_WEP_40
      else if s = OSW_SUITE 0x00 0x0f 0xac 2 then OSW_CIPHER_RSN_TKIP
      else if s = OSW_SUITE 0x00 0x0f 0xac 4 then OSW_CIPHER_RSN_CCMP_128
      else if s = OSW_SUITE 0x00 0x0f 0xac 5 then OSW_CIPHER_RSN_WEP_104
      else if s = OSW_SUITE 0x00 0x0f 0xac 6 then OSW_CIPHER_RSN_BIP_CMAC_128
      else if s = OSW_SUITE 0x00 0x0f 0xac 8 then OSW_CIPHER_RSN_GCMP_128
      else if s = OSW_SUITE 0x00 0x0f 0xac 9 then OSW_CIPHER_RSN_GCMP_256
      else if s = OSW_SUITE 0x00 0x0f 0xac 10 then OSW_CIPHER_RSN_CCMP_256
      else if s = OSW_SUITE 0x00 0x0f 0xac 11 then OSW_CIPHER_RSN_BIP_GMAC_128
      else if s = OSW_SUITE 0x00 0x0f 0xac 12 then OSW_CIPHER_RSN_BIP_GMAC_256
      else if s = OSW_SUITE 0x00 0x0f 0xac 13 then OSW_CIPHER_RSN_BIP_CMAC_256
      else if s = OSW_SUITE 0x00 0x50 0xf2 0 then OSW_CIPHER_WPA_NONE
      else if s = OSW_SUITE 0x00 0x50 0xf2 1 then OSW_CIPHER_WPA_WEP_40
      else if s = OSW_SUITE 0x00 0x50 0xf2 2 then OSW_CIPHER_WPA_TKIP
      else if s = OSW_SUITE 0x00 0x50 0xf2 4 then OSW_CIPHER_WPA_CCMP
      else if s = OSW_SUITE 0x00 0x50 0xf2 5 then OSW_CIPHER_WPA_WEP_104
      else OSW_CIPHER_UNSPEC)"

section \<open>Rates\<close>

fun osw_rate_legacy_to_halfmbps :: "osw_rate_legacy \<Rightarrow> int" where
  "osw_rate_legacy_to_halfmbps OSW_RATE_CCK_1_MBPS = 2"
| "osw_rate_legacy_to_halfmbps OSW_RATE_CCK_2_MBPS = 4"
| "osw_rate_legacy_to_halfmbps OSW_RATE_CCK_5_5_MBPS = 11"
| "osw_rate_legacy_to_halfmbps OSW_RATE_CCK_11_MBPS = 22"
| "osw_rate_legacy_to_halfmbps OSW_RATE_OFDM_6_MBPS = 12"
| "osw_rate_legacy_to_halfmbps OSW_RATE_OFDM_9_MBPS = 18"
| "osw_rate_legacy_to_halfmbps OSW_RATE_OFDM_12_MBPS = 24"
| "osw_rate_legacy_to_halfmbps OSW_RATE_OFDM_18_MBPS = 36"
| "osw_rate_legacy_to_halfmbps OSW_RATE_OFDM_24_MBPS = 48"
| "osw_rate_legacy_to_halfmbps OSW_RATE_OFDM_36_MBPS = 72"
| "osw_rate_legacy_to_halfmbps OSW_RATE_OFDM_48_MBPS = 96"
| "osw_rate_legacy_to_halfmbps OSW_RATE_OFDM_54_MBPS = 108"
| "osw_rate_legacy_to_halfmbps OSW_RATE_UNSPEC = 0"
| "osw_rate_legacy_to_halfmbps OSW_RATE_COUNT = 0"

definition osw_rate_legacy_from_halfmbps :: "int \<Rightarrow> osw_rate_legacy" where
  "osw_rate_legacy_from_halfmbps halfmbps =
     (if halfmbps = 2 then OSW_RATE_CCK_1_MBPS
      else if halfmbps = 4 then OSW_RATE_CCK_2_MBPS
      else if halfmbps = 11 then OSW_RATE_CCK_5_5_MBPS
      else if halfmbps = 22 then OSW_RATE_CCK_11_MBPS
      else if halfmbps = 12 then OSW_RATE_OFDM_6_MBPS
      else if halfmbps = 18 then OSW_RATE_OFDM_9_MBPS
      else if halfmbps = 24 then OSW_RATE_OFDM_12_MBPS
      else if halfmbps = 36 then OSW_RATE_OFDM_18_MBPS
      else if halfmbps = 48 then OSW_RATE_OFDM_24_MBPS
      else if halfmbps = 72 then OSW_RATE_OFDM_36_MBPS
      else if halfmbps = 96 then OSW_RATE_OFDM_48_MBPS
      else if halfmbps = 108 then OSW_RATE_OFDM_54_MBPS
      else OSW_RATE_UNSPEC)"

primrec rate_index :: "osw_rate_legacy \<Rightarrow> nat" where
  "rate_index OSW_RATE_UNSPEC = 0"
| "rate_index OSW_RATE_CCK_1_MBPS = 1"
| "rate_index OSW_RATE_CCK_2_MBPS = 2"
| "rate_index OSW_RATE_CCK_5_5_MBPS = 3"
| "rate_index OSW_RATE_CCK_11_MBPS = 4"
| "rate_index OSW_RATE_OFDM_6_MBPS = 5"
| "rate_index OSW_RATE_OFDM_9_MBPS = 6"
| "rate_index OSW_RATE_OFDM_12_MBPS = 7"
| "rate_index OSW_RATE_OFDM_18_MBPS = 8"
| "rate_index OSW_RATE_OFDM_24_MBPS = 9"
| "rate_index OSW_RATE_OFDM_36_MBPS = 10"
| "rate_index OSW_RATE_OFDM_48_MBPS = 11"
| "rate_index OSW_RATE_OFDM_54_MBPS = 12"
| "rate_index OSW_RATE_COUNT = 13"

definition osw_rate_legacy_bit :: "osw_rate_legacy \<Rightarrow> u16" where
  "osw_rate_legacy_bit rate = push_bit (rate_index rate) 1"

definition osw_rate_is_invalid :: "osw_rate_legacy \<Rightarrow> bool" where
  "osw_rate_is_invalid rate \<longleftrightarrow>
     (if rate = OSW_RATE_UNSPEC then True
      else if rate_index rate \<ge> rate_index OSW_RATE_COUNT then True
      else False)"

definition osw_rate_is_valid :: "osw_rate_legacy \<Rightarrow> bool" where
  "osw_rate_is_valid rate \<longleftrightarrow> \<not> osw_rate_is_invalid rate"

definition osw_rate_legacy_cck :: u16 where
  "osw_rate_legacy_cck =
     osw_rate_legacy_bit OSW_RATE_CCK_1_MBPS OR osw_rate_legacy_bit OSW_RATE_CCK_2_MBPS OR
     osw_rate_legacy_bit OSW_RATE_CCK_5_5_MBPS OR osw_rate_legacy_bit OSW_RATE_CCK_11_MBPS"

definition osw_rate_legacy_cck_basic :: u16 where
  "osw_rate_legacy_cck_basic =
     osw_rate_legacy_bit OSW_RATE_CCK_1_MBPS OR osw_rate_legacy_bit OSW_RATE_CCK_2_MBPS"

definition osw_rate_legacy_ofdm :: u16 where
  "osw_rate_legacy_ofdm =
     osw_rate_legacy_bit OSW_RATE_OFDM_6_MBPS OR osw_rate_legacy_bit OSW_RATE_OFDM_9_MBPS OR
     osw_rate_legacy_bit OSW_RATE_OFDM_12_MBPS OR osw_rate_legacy_bit OSW_RATE_OFDM_18_MBPS OR
     osw_rate_legacy_bit OSW_RATE_OFDM_24_MBPS OR osw_rate_legacy_bit OSW_RATE_OFDM_36_MBPS OR
     osw_rate_legacy_bit OSW_RATE_OFDM_48_MBPS OR osw_rate_legacy_bit OSW_RATE_OFDM_54_MBPS"

definition osw_rate_legacy_ofdm_basic :: u16 where
  "osw_rate_legacy_ofdm_basic =
     osw_rate_legacy_bit OSW_RATE_OFDM_6_MBPS OR osw_rate_legacy_bit OSW_RATE_OFDM_9_MBPS OR
     osw_rate_legacy_bit OSW_RATE_OFDM_12_MBPS"

section \<open>Status of a virtual interface\<close>

text \<open>The new value of \<open>*status\<close>.\<close>

fun osw_vif_status_set :: "osw_vif_status \<Rightarrow> osw_vif_status \<Rightarrow> osw_vif_status" where
  "osw_vif_status_set OSW_VIF_UNKNOWN new_status = new_status"
| "osw_vif_status_set OSW_VIF_DISABLED OSW_VIF_UNKNOWN = OSW_VIF_DISABLED"
| "osw_vif_status_set OSW_VIF_DISABLED OSW_VIF_DISABLED = OSW_VIF_DISABLED"
| "osw_vif_status_set OSW_VIF_DISABLED OSW_VIF_ENABLED = OSW_VIF_BROKEN"
| "osw_vif_status_set OSW_VIF_DISABLED OSW_VIF_BROKEN = OSW_VIF_DISABLED"
| "osw_vif_status_set OSW_VIF_ENABLED OSW_VIF_UNKNOWN = OSW_VIF_ENABLED"
| "osw_vif_status_set OSW_VIF_ENABLED OSW_VIF_DISABLED = OSW_VIF_BROKEN"
| "osw_vif_status_set OSW_VIF_ENABLED OSW_VIF_ENABLED = OSW_VIF_ENABLED"
| "osw_vif_status_set OSW_VIF_ENABLED OSW_VIF_BROKEN = OSW_VIF_ENABLED"
| "osw_vif_status_set OSW_VIF_BROKEN new_status = OSW_VIF_BROKEN"

section \<open>Properties\<close>

lemma akm_roundtrip: "osw_suite_into_akm (osw_suite_from_akm a) = a"
  by (induct a) code_simp+

lemma cipher_roundtrip: "osw_suite_into_cipher (osw_suite_from_cipher a) = a"
  by (induct a) code_simp+

text \<open>
  A key management mode or a cipher is recovered from its suite selector, a selector that is
  recognised is recovered from what it was recognised as, and a legacy rate from its number of
  half megabits per second; the bits of the CCK and of the OFDM rates are disjoint and together are
  those of the valid rates.
\<close>

theorem osw_suite_rate_roundtrip:
  "osw_suite_into_akm (osw_suite_from_akm akm) = akm \<and>
   (osw_suite_into_akm s = OSW_AKM_UNSPEC \<or> osw_suite_from_akm (osw_suite_into_akm s) = s) \<and>
   osw_suite_into_cipher (osw_suite_from_cipher cipher) = cipher \<and>
   (osw_suite_into_cipher s = OSW_CIPHER_UNSPEC \<or> osw_suite_from_cipher (osw_suite_into_cipher s) = s) \<and>
   osw_rate_legacy_from_halfmbps (osw_rate_legacy_to_halfmbps rate) =
     (if osw_rate_is_valid rate then rate else OSW_RATE_UNSPEC) \<and>
   osw_rate_legacy_cck AND osw_rate_legacy_ofdm = 0 \<and>
   (osw_rate_is_valid rate \<longleftrightarrow>
      osw_rate_legacy_bit rate AND (osw_rate_legacy_cck OR osw_rate_legacy_ofdm) \<noteq> 0)"
proof -
  have "osw_suite_into_akm s = OSW_AKM_UNSPEC \<or> osw_suite_from_akm (osw_suite_into_akm s) = s"
    unfolding osw_suite_into_akm_def by simp
  moreover have "osw_suite_into_cipher s = OSW_CIPHER_UNSPEC \<or> osw_suite_from_cipher (osw_suite_into_cipher s) = s"
    unfolding osw_suite_into_cipher_def by simp
  moreover have "osw_rate_legacy_from_halfmbps (osw_rate_legacy_to_halfmbps rate) =
      (if osw_rate_is_valid rate then rate else OSW_RATE_UNSPEC)"
    by (induct rate) code_simp+
  moreover have "osw_rate_legacy_cck AND osw_rate_legacy_ofdm = 0" by code_simp
  moreover have "osw_rate_is_valid rate \<longleftrightarrow>
      osw_rate_legacy_bit rate AND (osw_rate_legacy_cck OR osw_rate_legacy_ofdm) \<noteq> 0"
    by (induct rate) code_simp+
  ultimately show ?thesis using akm_roundtrip cipher_roundtrip by blast
qed

text \<open>
  The status accumulated from unknown over the reports of the parts of an interface, none of
  which is unknown or broken, is enabled when all report enabled, disabled when all report
  disabled and broken when they disagree; a broken status stays broken. A report of broken
  is lost, though, when an enabled or disabled one came before it.
\<close>

lemma osw_vif_status_set_accumulates:
  assumes "set reports \<subseteq> {OSW_VIF_ENABLED, OSW_VIF_DISABLED}"
  shows "fold (\<lambda>r s. osw_vif_status_set s r) reports OSW_VIF_UNKNOWN =
           (if reports = [] then OSW_VIF_UNKNOWN
            else if set reports = {OSW_VIF_ENABLED} then OSW_VIF_ENABLED
            else if set reports = {OSW_VIF_DISABLED} then OSW_VIF_DISABLED
            else OSW_VIF_BROKEN) \<and>
         fold (\<lambda>r s. osw_vif_status_set s r) reports OSW_VIF_BROKEN = OSW_VIF_BROKEN \<and>
         osw_vif_status_set (osw_vif_status_set OSW_VIF_UNKNOWN OSW_VIF_ENABLED) OSW_VIF_BROKEN =
           OSW_VIF_ENABLED"
proof -
  let ?f = "fold (\<lambda>r s. osw_vif_status_set s r)"
  have b: "?f rs OSW_VIF_BROKEN = OSW_VIF_BROKEN" for rs by (induction rs) auto
  have e: "set rs \<subseteq> {OSW_VIF_ENABLED, OSW_VIF_DISABLED} \<Longrightarrow>
      ?f rs OSW_VIF_ENABLED = (if OSW_VIF_DISABLED \<in> set rs then OSW_VIF_BROKEN else OSW_VIF_ENABLED)" for rs
    by (induction rs) (auto simp: b)
  have d: "set rs \<subseteq> {OSW_VIF_ENABLED, OSW_VIF_DISABLED} \<Longrightarrow>
      ?f rs OSW_VIF_DISABLED = (if OSW_VIF_ENABLED \<in> set rs then OSW_VIF_BROKEN else OSW_VIF_DISABLED)" for rs
    by (induction rs) (auto simp: b)
  show ?thesis
  proof (cases reports)
    case (Cons r rs)
    then show ?thesis using assms e [of rs] d [of rs] b by auto
  qed (simp add: b)
qed

lemma osw_vif_status_set_accumulates_witness:
  "fold (\<lambda>r s. osw_vif_status_set s r) [OSW_VIF_ENABLED, OSW_VIF_DISABLED] OSW_VIF_UNKNOWN =
     OSW_VIF_BROKEN"
proof -
  have "set [OSW_VIF_ENABLED, OSW_VIF_DISABLED] \<subseteq> {OSW_VIF_ENABLED, OSW_VIF_DISABLED}"
    "set [OSW_VIF_ENABLED, OSW_VIF_DISABLED] \<noteq> {OSW_VIF_ENABLED}"
    "set [OSW_VIF_ENABLED, OSW_VIF_DISABLED] \<noteq> {OSW_VIF_DISABLED}"
    by auto
  then show ?thesis
    using osw_vif_status_set_accumulates [of "[OSW_VIF_ENABLED, OSW_VIF_DISABLED]"] by simp
qed

text \<open>
  No two enumerators of a type print alike, so that a printed name identifies its enumerator.
\<close>

lemma osw_names_injective:
  "inj osw_akm_into_cstr \<and> inj osw_cipher_into_cstr \<and> inj osw_band_to_str \<and> inj osw_band_into_cstr \<and>
   inj osw_channel_width_to_str \<and> inj osw_channel_dfs_state_to_str \<and> inj osw_vif_status_into_cstr \<and>
   inj osw_vif_type_to_str \<and> inj osw_pmf_to_str \<and> inj osw_acl_policy_to_str \<and> inj osw_radar_to_str \<and>
   inj osw_reg_dfs_to_str \<and> inj osw_mbss_vif_ap_mode_to_str \<and> inj osw_beacon_rate_type_to_str \<and>
   inj osw_sta_cell_cap_to_cstr"
  by (intro conjI; rule injI; rename_tac x y; case_tac x; case_tac y; simp)

end
