(* ===== verification/Osw_Types.thy ===== *)
theory Osw_Types
  imports Ds_Cmp
begin

text \<open>
  The configuration objects of \<open>src/src/lib/osw/src/osw_types.c\<close> that are compared and copied: hardware
  addresses and lists of them, interface names, WPS credentials, fast-transition neighbours and RADIUS
  servers. A C array with its count is a list; a pointer that may be NULL is an \<open>option\<close>; a
  fixed-size character array is the list of its bytes.
\<close>

section \<open>Hardware addresses\<close>

record osw_hwaddr =
  octet :: "u8 list"

definition osw_hwaddr_zero :: osw_hwaddr where
  "osw_hwaddr_zero = \<lparr>octet = replicate 6 0\<rparr>"

definition osw_hwaddr_cmp :: "osw_hwaddr \<Rightarrow> osw_hwaddr \<Rightarrow> int" where
  "osw_hwaddr_cmp addr_a addr_b = memcmp (octet addr_a) (octet addr_b)"

definition osw_hwaddr_is_equal :: "osw_hwaddr \<Rightarrow> osw_hwaddr \<Rightarrow> bool" where
  "osw_hwaddr_is_equal a b \<longleftrightarrow> osw_hwaddr_cmp a b = 0"

definition osw_hwaddr_is_zero :: "osw_hwaddr \<Rightarrow> bool" where
  "osw_hwaddr_is_zero addr \<longleftrightarrow> osw_hwaddr_is_equal addr osw_hwaddr_zero"

definition osw_hwaddr_first_nonzero :: "osw_hwaddr \<Rightarrow> osw_hwaddr \<Rightarrow> osw_hwaddr option" where
  "osw_hwaddr_first_nonzero a b =
     (if \<not> osw_hwaddr_is_zero a then Some a
      else if \<not> osw_hwaddr_is_zero b then Some b
      else None)"

definition osw_hwaddr_is_bcast :: "osw_hwaddr \<Rightarrow> bool" where
  "osw_hwaddr_is_bcast addr \<longleftrightarrow> osw_hwaddr_is_equal addr \<lparr>octet = replicate 6 0xff\<rparr>"

definition osw_hwaddr_is_to_addr :: "osw_hwaddr \<Rightarrow> osw_hwaddr \<Rightarrow> bool" where
  "osw_hwaddr_is_to_addr da self =
     (if osw_hwaddr_is_bcast da then True else osw_hwaddr_is_equal da self)"

fun osw_hwaddr_list_contains :: "osw_hwaddr list \<Rightarrow> osw_hwaddr \<Rightarrow> bool" where
  "osw_hwaddr_list_contains [] addr = False"
| "osw_hwaddr_list_contains (x # array) addr =
     (if osw_hwaddr_is_equal x addr then True else osw_hwaddr_list_contains array addr)"

definition osw_hwaddr_list_is_equal :: "osw_hwaddr list \<Rightarrow> osw_hwaddr list \<Rightarrow> bool" where
  "osw_hwaddr_list_is_equal a b =
     (if length a \<noteq> length b then False
      else list_all (\<lambda>addr. osw_hwaddr_list_contains b addr) a)"

definition osw_hwaddr_list_append :: "osw_hwaddr list \<Rightarrow> osw_hwaddr \<Rightarrow> osw_hwaddr list" where
  "osw_hwaddr_list_append l addr = l @ [addr]"

definition osw_hwaddr_list_flush :: "osw_hwaddr list \<Rightarrow> osw_hwaddr list" where
  "osw_hwaddr_list_flush l = []"

text \<open>The first six bytes of the buffer are overwritten unless it is too small.\<close>

definition osw_hwaddr_write :: "osw_hwaddr \<Rightarrow> u8 list \<Rightarrow> u8 list" where
  "osw_hwaddr_write addr buf = (if length buf < 6 then buf else octet addr @ drop 6 buf)"

section \<open>Names and credentials\<close>

definition OSW_IFNAME_LEN :: nat where
  "OSW_IFNAME_LEN = 32"

definition osw_ifname_cmp :: "u8 list \<Rightarrow> u8 list \<Rightarrow> int" where
  "osw_ifname_cmp a b = strncmp a b OSW_IFNAME_LEN"

definition osw_ifname_is_equal :: "u8 list \<Rightarrow> u8 list \<Rightarrow> bool" where
  "osw_ifname_is_equal a b \<longleftrightarrow> osw_ifname_cmp a b = 0"

definition strnlen :: "u8 list \<Rightarrow> nat \<Rightarrow> nat" where
  "strnlen buf n = length (cstr (take n buf))"

definition osw_ifname_is_valid :: "u8 list \<Rightarrow> bool" where
  "osw_ifname_is_valid a =
     (let len = strnlen a OSW_IFNAME_LEN;
          too_small = len = 0;
          too_big = len = OSW_IFNAME_LEN;
          impossible = len > OSW_IFNAME_LEN
      in if too_small then False
         else if too_big then False
         else if impossible then False
         else True)"

definition osw_nas_id_cmp :: "u8 list \<Rightarrow> u8 list \<Rightarrow> int" where
  "osw_nas_id_cmp a b = strncmp a b 49"

definition osw_nas_id_is_equal :: "u8 list \<Rightarrow> u8 list \<Rightarrow> bool" where
  "osw_nas_id_is_equal a b \<longleftrightarrow> osw_nas_id_cmp a b = 0"

definition osw_ft_encr_key_cmp :: "u8 list \<Rightarrow> u8 list \<Rightarrow> int" where
  "osw_ft_encr_key_cmp a b = strncmp a b 65"

definition osw_ft_encr_key_is_equal :: "u8 list \<Rightarrow> u8 list \<Rightarrow> bool" where
  "osw_ft_encr_key_is_equal a b \<longleftrightarrow> osw_ft_encr_key_cmp a b = 0"

record osw_ap_psk =
  key_id :: int
  psk_str :: "u8 list"

definition osw_ap_psk_is_same :: "osw_ap_psk \<Rightarrow> osw_ap_psk \<Rightarrow> bool" where
  "osw_ap_psk_is_same a b =
     (if key_id a \<noteq> key_id b then False
      else if strncmp (psk_str a) (psk_str b) 65 \<noteq> 0 then False
      else True)"

text \<open>A WPS credential is its passphrase; the two loops count the pairs that match.\<close>

definition osw_wps_cred_list_count_matches :: "u8 list list \<Rightarrow> u8 list list \<Rightarrow> nat" where
  "osw_wps_cred_list_count_matches a b =
     fold (\<lambda>p n_matches.
       fold (\<lambda>q n_matches. if strcmp p q = 0 then n_matches + 1 else n_matches) b n_matches) a 0"

definition osw_wps_cred_list_is_same :: "u8 list list \<Rightarrow> u8 list list \<Rightarrow> bool" where
  "osw_wps_cred_list_is_same a b \<longleftrightarrow>
     length a = length b \<and> length a = osw_wps_cred_list_count_matches a b"

text \<open>The result and the contents of \<open>*ssid\<close>, which is cleared first.\<close>

record osw_ssid =
  ssid_buf :: "u8 list"
  ssid_len :: nat

definition osw_ssid_from_cbuf :: "u8 list option \<Rightarrow> bool \<times> osw_ssid" where
  "osw_ssid_from_cbuf buf =
     (let zero = \<lparr>ssid_buf = replicate 33 0, ssid_len = 0\<rparr> in
      case buf of
        None \<Rightarrow> (False, zero)
      | Some b \<Rightarrow>
          if length b > 32 then (False, zero)
          else (True, \<lparr>ssid_buf = b @ replicate (33 - length b) 0, ssid_len = length b\<rparr>))"

definition osw_ssid_cmp :: "osw_ssid \<Rightarrow> osw_ssid \<Rightarrow> int" where
  "osw_ssid_cmp a b =
     (if ssid_len a \<noteq> ssid_len b then int (ssid_len a) - int (ssid_len b)
      else memcmp (take (ssid_len a) (ssid_buf a)) (take (ssid_len a) (ssid_buf b)))"

section \<open>Fast-transition neighbours\<close>

record osw_neigh_ft =
  bssid :: osw_hwaddr
  ft_encr_key :: "u8 list"
  nas_identifier :: "u8 list"

definition osw_neigh_ft_cmp :: "osw_neigh_ft option \<Rightarrow> osw_neigh_ft option \<Rightarrow> int" where
  "osw_neigh_ft_cmp a b =
     (case (a, b) of
        (None, None) \<Rightarrow> 0
      | (None, Some _) \<Rightarrow> - 1
      | (Some _, None) \<Rightarrow> 1
      | (Some a, Some b) \<Rightarrow>
          let r1 = osw_hwaddr_cmp (bssid a) (bssid b);
              r2 = osw_ft_encr_key_cmp (ft_encr_key a) (ft_encr_key b);
              r3 = osw_nas_id_cmp (nas_identifier a) (nas_identifier b)
          in if r1 \<noteq> 0 then r1 else if r2 \<noteq> 0 then r2 else if r3 \<noteq> 0 then r3 else 0)"

fun osw_neigh_ft_list_lookup :: "osw_neigh_ft list \<Rightarrow> osw_hwaddr \<Rightarrow> osw_neigh_ft option" where
  "osw_neigh_ft_list_lookup [] b = None"
| "osw_neigh_ft_list_lookup (li # l) b =
     (if osw_hwaddr_is_equal (bssid li) b then Some li else osw_neigh_ft_list_lookup l b)"

fun neigh_ft_cmp_loop :: "osw_neigh_ft list \<Rightarrow> osw_neigh_ft list \<Rightarrow> int" where
  "neigh_ft_cmp_loop [] b = 0"
| "neigh_ft_cmp_loop (x # a) b =
     (let y = osw_neigh_ft_list_lookup b (bssid x);
          r = osw_neigh_ft_cmp (Some x) y
      in if r \<noteq> 0 then r else neigh_ft_cmp_loop a b)"

definition osw_neigh_ft_list_cmp :: "osw_neigh_ft list option \<Rightarrow> osw_neigh_ft list option \<Rightarrow> int" where
  "osw_neigh_ft_list_cmp a b =
     (case (a, b) of
        (None, None) \<Rightarrow> 0
      | (None, Some _) \<Rightarrow> - 1
      | (Some _, None) \<Rightarrow> 1
      | (Some a, Some b) \<Rightarrow>
          let r = int (length a) - int (length b) in
          if r \<noteq> 0 then r else neigh_ft_cmp_loop a b)"

section \<open>RADIUS servers\<close>

record osw_radius =
  server :: "u8 list option"
  passphrase :: "u8 list option"
  port :: int

text \<open>The \<open>list\<close> pointer, which may be NULL, and \<open>count\<close>, which is kept beside it.\<close>

record osw_radius_list =
  radii :: "osw_radius list option"
  radii_count :: nat

definition or_empty :: "u8 list option \<Rightarrow> u8 list" where
  "or_empty s = (case s of None \<Rightarrow> [] | Some s \<Rightarrow> s)"

definition osw_radius_cmp :: "osw_radius option \<Rightarrow> osw_radius option \<Rightarrow> int" where
  "osw_radius_cmp a b =
     (case (a, b) of
        (None, None) \<Rightarrow> 0
      | (None, Some _) \<Rightarrow> 1
      | (Some _, None) \<Rightarrow> - 1
      | (Some a, Some b) \<Rightarrow>
          let srv = strcmp (or_empty (server a)) (or_empty (server b));
              pass = strcmp (or_empty (passphrase a)) (or_empty (passphrase b))
          in if srv \<noteq> 0 then srv else if pass \<noteq> 0 then pass else port a - port b)"

definition osw_radius_is_equal :: "osw_radius option \<Rightarrow> osw_radius option \<Rightarrow> bool" where
  "osw_radius_is_equal a b =
     (case (a, b) of
        (None, None) \<Rightarrow> True
      | (Some a, Some b) \<Rightarrow> osw_radius_cmp (Some a) (Some b) = 0
      | _ \<Rightarrow> False)"

text \<open>Element \<open>i\<close> of an array; \<open>None\<close> stands for a NULL array or an index past its end.\<close>

definition elem_at :: "'a list option \<Rightarrow> nat \<Rightarrow> 'a option" where
  "elem_at l i = (case l of None \<Rightarrow> None | Some xs \<Rightarrow> if i < length xs then Some (xs ! i) else None)"

text \<open>Counting up from \<open>i\<close> over the \<open>n\<close> elements that are left.\<close>

fun radius_equal_loop :: "osw_radius list option \<Rightarrow> osw_radius list option \<Rightarrow> nat \<Rightarrow> nat \<Rightarrow> bool option" where
  "radius_equal_loop a b i 0 = Some True"
| "radius_equal_loop a b i (Suc n) =
     (case (elem_at a i, elem_at b i) of
        (Some x, Some y) \<Rightarrow>
          if \<not> osw_radius_is_equal (Some x) (Some y) then Some False
          else radius_equal_loop a b (i + 1) n
      | _ \<Rightarrow> None)"

definition osw_radius_list_is_equal :: "osw_radius_list \<Rightarrow> osw_radius_list \<Rightarrow> bool option" where
  "osw_radius_list_is_equal a b =
     (if radii_count a \<noteq> radii_count b then Some False
      else radius_equal_loop (radii a) (radii b) 0 (radii_count a))"

text \<open>Duplicating a NULL string fails; the loop fills the new array from index \<open>i\<close> on.\<close>

fun radius_copy_loop :: "osw_radius list \<Rightarrow> nat \<Rightarrow> nat \<Rightarrow> osw_radius list option" where
  "radius_copy_loop src i 0 = Some []"
| "radius_copy_loop src i (Suc n) =
     (if i < length src \<and> server (src ! i) \<noteq> None \<and> passphrase (src ! i) \<noteq> None
      then map_option (\<lambda>r. \<lparr>server = server (src ! i), passphrase = passphrase (src ! i),
                             port = port (src ! i)\<rparr> # r)
             (radius_copy_loop src (i + 1) n)
      else None)"

text \<open>The new contents of \<open>*dst\<close>; \<open>src\<close> may be NULL.\<close>

definition osw_radius_list_copy ::
    "osw_radius_list option \<Rightarrow> osw_radius_list \<Rightarrow> osw_radius_list option" where
  "osw_radius_list_copy src dst =
     (case src of
        None \<Rightarrow> Some (dst\<lparr>radii := None\<rparr>)
      | Some s \<Rightarrow>
          (case radii s of
             None \<Rightarrow> Some (dst\<lparr>radii := None\<rparr>)
           | Some l \<Rightarrow>
               map_option
                 (\<lambda>copied. dst\<lparr>radii := (if radii_count s > 0 then Some copied else None),
                               radii_count := length copied\<rparr>)
                 (radius_copy_loop l 0 (radii_count s))))"

text \<open>Purging reads every element that \<open>count\<close> promises.\<close>

definition osw_radius_free_internal :: "osw_radius \<Rightarrow> osw_radius" where
  "osw_radius_free_internal r = r\<lparr>server := None, passphrase := None, port := 0\<rparr>"

definition osw_radius_list_purge :: "osw_radius_list \<Rightarrow> osw_radius_list option" where
  "osw_radius_list_purge l =
     (if radii_count l = 0 then Some l
      else
        case radii l of
          None \<Rightarrow> None
        | Some rs \<Rightarrow>
            if radii_count l \<le> length rs
            then Some (l\<lparr>radii := Some (map osw_radius_free_internal (take (radii_count l) rs)
                                       @ drop (radii_count l) rs), radii_count := 0\<rparr>)
            else None)"

definition osw_radius_list_free :: "osw_radius_list \<Rightarrow> osw_radius_list option" where
  "osw_radius_list_free l =
     (case radii l of
        None \<Rightarrow> Some l
      | Some _ \<Rightarrow>
          map_option (\<lambda>l. l\<lparr>radii := None, radii_count := 0\<rparr>) (osw_radius_list_purge l))"

section \<open>Comparators\<close>

lemma osw_hwaddr_cmp_zero: "osw_hwaddr_cmp a b = 0 \<longleftrightarrow> a = b"
  by (cases a; cases b) (simp add: osw_hwaddr_cmp_def memcmp_def)

lemma osw_hwaddr_is_equal_iff [simp]: "osw_hwaddr_is_equal a b \<longleftrightarrow> a = b"
  by (simp add: osw_hwaddr_is_equal_def osw_hwaddr_cmp_zero)

lemma strncmp_zero: "strncmp a b n = 0 \<longleftrightarrow> cstr (take n a) = cstr (take n b)"
  by (simp add: strncmp_def)

text \<open>The comparators that the trees of the library are built over meet the contract of a key.\<close>

interpretation hwaddr_cmp: key_cmp osw_hwaddr_cmp
  unfolding osw_hwaddr_cmp_def memcmp_def by (rule key_cmp_on [OF key_cmp_lex])

interpretation ifname_cmp: key_cmp osw_ifname_cmp
  unfolding osw_ifname_cmp_def strncmp_def by (rule key_cmp_on [OF key_cmp_lex])

interpretation nas_id_cmp: key_cmp osw_nas_id_cmp
  unfolding osw_nas_id_cmp_def strncmp_def by (rule key_cmp_on [OF key_cmp_lex])

interpretation ft_encr_key_cmp: key_cmp osw_ft_encr_key_cmp
  unfolding osw_ft_encr_key_cmp_def strncmp_def by (rule key_cmp_on [OF key_cmp_lex])

section \<open>Properties\<close>

lemma osw_hwaddr_list_contains_iff: "osw_hwaddr_list_contains l addr \<longleftrightarrow> addr \<in> set l"
  by (induction l) auto

lemma count_matches_inner:
  "fold (\<lambda>q n. if strcmp p q = 0 then n + 1 else n) b n = n + count_list b p"
  by (induction b arbitrary: n) (auto simp: strcmp_def)

lemma count_matches_eq: "osw_wps_cred_list_count_matches a b = sum_list (map (count_list b) a)"
proof -
  have "fold (\<lambda>p n. fold (\<lambda>q n. if strcmp p q = 0 then n + 1 else n) b n) a n =
      n + sum_list (map (count_list b) a)" for n
    by (induction a arbitrary: n) (auto simp: count_matches_inner)
  then show ?thesis by (simp add: osw_wps_cred_list_count_matches_def)
qed

lemma count_list_distinct: "distinct b \<Longrightarrow> count_list b p = (if p \<in> set b then 1 else 0)"
  by (induction b) auto

text \<open>
  C22. On lists without repetition the comparisons of address lists and of credential lists decide
  whether the two lists have the same elements. With repetitions they do not: the first is
  then not symmetric, and a list with a repeated credential is not the same as itself.
\<close>

theorem osw_list_compare_sets:
  assumes "distinct (a :: osw_hwaddr list)" "distinct b" "distinct (p :: u8 list list)" "distinct q"
  shows "(osw_hwaddr_list_is_equal a b \<longleftrightarrow> set a = set b) \<and>
         (osw_wps_cred_list_is_same p q \<longleftrightarrow> set p = set q) \<and>
         (x \<noteq> y \<longrightarrow> osw_hwaddr_list_is_equal [x, x] [x, y] \<and> \<not> osw_hwaddr_list_is_equal [x, y] [x, x]) \<and>
         \<not> osw_wps_cred_list_is_same [u, u] [u, u]"
proof -
  have "osw_hwaddr_list_is_equal a b \<longleftrightarrow> length a = length b \<and> set a \<subseteq> set b"
    by (auto simp: osw_hwaddr_list_is_equal_def osw_hwaddr_list_contains_iff list_all_iff)
  then have "osw_hwaddr_list_is_equal a b \<longleftrightarrow> set a = set b"
    using distinct_same_length_subset [OF assms(1,2)] by simp
  moreover have "osw_wps_cred_list_count_matches p q = (\<Sum>c\<leftarrow>p. if c \<in> set q then 1 else 0)"
    unfolding count_matches_eq using count_list_distinct [OF assms(4)] by presburger
  then have "osw_wps_cred_list_is_same p q \<longleftrightarrow> length p = length q \<and> set p \<subseteq> set q"
    using sum_list_bools_full [of "\<lambda>c. c \<in> set q" p] by (auto simp: osw_wps_cred_list_is_same_def)
  then have "osw_wps_cred_list_is_same p q \<longleftrightarrow> set p = set q"
    using distinct_same_length_subset [OF assms(3,4)] by simp
  ultimately show ?thesis
    by (auto simp: osw_hwaddr_list_is_equal_def osw_wps_cred_list_is_same_def count_matches_eq)
qed

theorem osw_list_compare_sets_witness:
  "osw_hwaddr_list_is_equal
     [\<lparr>octet = [0, 0, 0, 0, 0, 1]\<rparr>, osw_hwaddr_zero] [osw_hwaddr_zero, \<lparr>octet = [0, 0, 0, 0, 0, 1]\<rparr>] \<and>
   osw_wps_cred_list_is_same [[97], [98]] [[98], [97]] \<and>
   \<not> osw_hwaddr_list_is_equal [\<lparr>octet = [0, 0, 0, 0, 0, 1]\<rparr>, osw_hwaddr_zero]
       [\<lparr>octet = [0, 0, 0, 0, 0, 1]\<rparr>, \<lparr>octet = [0, 0, 0, 0, 0, 1]\<rparr>]"
proof -
  let ?x = "\<lparr>octet = [0, 0, 0, 0, 0, 1]\<rparr>" and ?z = osw_hwaddr_zero
  have ne: "?x \<noteq> ?z" by code_simp
  then have "distinct [?x, ?z]" "distinct [?z, ?x]" "distinct [[97 :: u8], [98]]" "distinct [[98 :: u8], [97]]"
    by auto
  from osw_list_compare_sets [OF this, of ?x ?z "[]"] ne show ?thesis by auto
qed

text \<open>Two entries agree when their addresses, keys and identifiers do.\<close>

definition same_neigh :: "osw_neigh_ft \<Rightarrow> osw_neigh_ft \<Rightarrow> bool" where
  "same_neigh x y \<longleftrightarrow> bssid x = bssid y \<and>
     cstr (take 65 (ft_encr_key x)) = cstr (take 65 (ft_encr_key y)) \<and>
     cstr (take 49 (nas_identifier x)) = cstr (take 49 (nas_identifier y))"

lemma neigh_ft_cmp_zero: "osw_neigh_ft_cmp (Some x) (Some y) = 0 \<longleftrightarrow> same_neigh x y"
  by (simp add: osw_neigh_ft_cmp_def Let_def same_neigh_def osw_hwaddr_cmp_zero
      osw_ft_encr_key_cmp_def osw_nas_id_cmp_def strncmp_zero)

lemma neigh_lookup_distinct:
  "distinct (map bssid b) \<Longrightarrow> y \<in> set b \<Longrightarrow> osw_neigh_ft_list_lookup b (bssid y) = Some y"
  by (induction b) (auto simp: image_iff)

lemma neigh_lookup_None: "osw_neigh_ft_list_lookup b m = None \<longleftrightarrow> m \<notin> bssid ` set b"
  by (induction b) auto

lemma neigh_lookup_Some: "osw_neigh_ft_list_lookup b m = Some y \<Longrightarrow> y \<in> set b \<and> bssid y = m"
  by (induction b) (auto split: if_splits)

lemma neigh_entry_zero:
  assumes "distinct (map bssid b)"
  shows "osw_neigh_ft_cmp (Some x) (osw_neigh_ft_list_lookup b (bssid x)) = 0 \<longleftrightarrow> (\<exists>y\<in>set b. same_neigh x y)"
proof (cases "osw_neigh_ft_list_lookup b (bssid x)")
  case None
  then show ?thesis
    using neigh_lookup_None [of b "bssid x"] by (auto simp: osw_neigh_ft_cmp_def same_neigh_def image_iff)
next
  case (Some y)
  then have y: "y \<in> set b" "bssid y = bssid x" using neigh_lookup_Some by auto
  have "same_neigh x z \<Longrightarrow> z \<in> set b \<Longrightarrow> z = y" for z
    using neigh_lookup_distinct [OF assms, of z] Some by (auto simp: same_neigh_def)
  then show ?thesis using Some y by (auto simp: neigh_ft_cmp_zero)
qed

lemma neigh_ft_cmp_loop_zero:
  "distinct (map bssid b) \<Longrightarrow>
     neigh_ft_cmp_loop a b = 0 \<longleftrightarrow> (\<forall>x\<in>set a. \<exists>y\<in>set b. same_neigh x y)"
  by (induction a) (auto simp: Let_def neigh_entry_zero)

text \<open>
  Two lists of neighbours with one entry per address compare equal exactly when they have the
  same length and every entry of either has an entry of the other with the same address, key and
  identifier, whatever the order of the entries.
\<close>

lemma osw_neigh_ft_list_cmp_zero:
  assumes "distinct (map bssid a)" "distinct (map bssid b)"
  shows "osw_neigh_ft_list_cmp (Some a) (Some b) = 0 \<longleftrightarrow>
           length a = length b \<and> (\<forall>x\<in>set a. \<exists>y\<in>set b. same_neigh x y) \<and>
           (\<forall>y\<in>set b. \<exists>x\<in>set a. same_neigh x y)"
proof -
  have *: "\<forall>y\<in>set b. \<exists>x\<in>set a. same_neigh x y"
    if len: "length a = length b" and all: "\<forall>x\<in>set a. \<exists>y\<in>set b. same_neigh x y"
  proof
    fix y assume y: "y \<in> set b"
    have "set (map bssid a) \<subseteq> set (map bssid b)" using all by (auto simp: same_neigh_def)
    then have "set (map bssid a) = set (map bssid b)"
      using distinct_same_length_subset [OF assms] len by simp
    then obtain x where x: "x \<in> set a" "bssid x = bssid y" using y by force
    then obtain z where z: "z \<in> set b" "same_neigh x z" using all by auto
    have "bssid z = bssid y" using z(2) x(2) by (simp add: same_neigh_def)
    then have "Some z = Some y"
      unfolding neigh_lookup_distinct [OF assms(2) z(1), symmetric]
        neigh_lookup_distinct [OF assms(2) y, symmetric] by (rule arg_cong)
    then have "same_neigh x y" using z(2) by simp
    then show "\<exists>x\<in>set a. same_neigh x y" using x(1) by (rule bexI)
  qed
  have "osw_neigh_ft_list_cmp (Some a) (Some b) = 0 \<longleftrightarrow>
      length a = length b \<and> (\<forall>x\<in>set a. \<exists>y\<in>set b. same_neigh x y)"
    using neigh_ft_cmp_loop_zero [OF assms(2), of a] by (simp add: osw_neigh_ft_list_cmp_def Let_def)
  then show ?thesis using * by blast
qed

definition neigh_1 :: osw_neigh_ft where
  "neigh_1 = \<lparr>bssid = osw_hwaddr_zero, ft_encr_key = [97, 0], nas_identifier = [98, 0]\<rparr>"

definition neigh_2 :: osw_neigh_ft where
  "neigh_2 = \<lparr>bssid = \<lparr>octet = [2, 0, 0, 0, 0, 1]\<rparr>, ft_encr_key = [97, 0], nas_identifier = [99, 0]\<rparr>"

lemma osw_neigh_ft_list_cmp_zero_witness:
  "osw_neigh_ft_list_cmp (Some [neigh_1, neigh_2]) (Some [neigh_2, neigh_1]) = 0"
proof -
  have "distinct (map bssid [neigh_1, neigh_2])" "distinct (map bssid [neigh_2, neigh_1])"
    "same_neigh neigh_1 neigh_1" "same_neigh neigh_2 neigh_2"
    by code_simp+
  then show ?thesis using osw_neigh_ft_list_cmp_zero [of "[neigh_1, neigh_2]" "[neigh_2, neigh_1]"] by simp
qed

lemma radius_equal_refl: "osw_radius_is_equal (Some x) (Some x)"
  by (simp add: osw_radius_is_equal_def osw_radius_cmp_def strcmp_def Let_def)

lemma radius_equal_loop_eq:
  "i + n \<le> length a \<Longrightarrow> i + n \<le> length b \<Longrightarrow>
     radius_equal_loop (Some a) (Some b) i n =
       Some (\<forall>j\<in>{i..<i + n}. osw_radius_is_equal (Some (a ! j)) (Some (b ! j)))"
proof (induction n arbitrary: i)
  case (Suc n)
  have "{i..<i + Suc n} = insert i {i + 1..<i + 1 + n}" by auto
  then show ?case using Suc.IH [of "i + 1"] Suc.prems by (simp add: elem_at_def)
qed simp

lemma radius_copy_loop_eq:
  "i + n \<le> length src \<Longrightarrow> \<forall>r\<in>set src. server r \<noteq> None \<and> passphrase r \<noteq> None \<Longrightarrow>
     radius_copy_loop src i n = Some (take n (drop i src))"
proof (induction n arbitrary: i)
  case (Suc n)
  then have "drop i src = src ! i # drop (i + 1) src" by (simp add: Cons_nth_drop_Suc)
  then show ?case using Suc by simp
qed simp


definition radius_1 :: osw_radius where
  "radius_1 = \<lparr>server = Some [49], passphrase = Some [97, 98], port = 1812\<rparr>"


end
