(* ===== verification/Osw_Passpoint.thy ===== *)
theory Osw_Passpoint
  imports Osw_Types
begin

text \<open>
  The Passpoint configuration of \<open>src/src/lib/osw/src/osw_types.c\<close>: comparison, deep copy and release.
  A \<open>char *\<close> is an optional string, a \<open>char **\<close> an optional list of them with its length kept in a
  field of its own; \<open>None\<close> as the result of an operation is a read through NULL or past an array.
\<close>

section \<open>Model\<close>

type_synonym str_array = "u8 list option list option"

record osw_passpoint =
  hs20_enabled :: bool
  adv_wan_status :: bool
  adv_wan_symmetric :: bool
  adv_wan_at_capacity :: bool
  osen :: bool
  asra :: bool
  ant :: int
  venue_group :: int
  venue_type :: int
  anqp_domain_id :: int
  pps_mo_id :: int
  t_c_timestamp :: int
  t_c_filename :: "u8 list option"
  anqp_elem :: "u8 list option"
  hessid :: osw_hwaddr
  osu_ssid :: osw_ssid
  domain_list :: str_array
  domain_list_len :: nat
  nairealm_list :: str_array
  nairealm_list_len :: nat
  roamc_list :: str_array
  roamc_list_len :: nat
  oper_fname_list :: str_array
  oper_fname_list_len :: nat
  venue_name_list :: str_array
  venue_name_list_len :: nat
  venue_url_list :: str_array
  venue_url_list_len :: nat
  list_3gpp_list :: str_array
  list_3gpp_list_len :: nat
  net_auth_type_list :: "int list option"
  net_auth_type_list_len :: nat

definition STRSCMP :: "u8 list option \<Rightarrow> u8 list option \<Rightarrow> int" where
  "STRSCMP a b = strcmp (or_empty a) (or_empty b)"

fun str_list_loop :: "str_array \<Rightarrow> str_array \<Rightarrow> nat \<Rightarrow> nat \<Rightarrow> bool option" where
  "str_list_loop a b i 0 = Some True"
| "str_list_loop a b i (Suc n) =
     (case (elem_at a i, elem_at b i) of
        (Some x, Some y) \<Rightarrow> if STRSCMP x y \<noteq> 0 then Some False else str_list_loop a b (i + 1) n
      | _ \<Rightarrow> None)"

definition osw_passpoint_str_list_is_equal :: "str_array \<Rightarrow> str_array \<Rightarrow> nat \<Rightarrow> nat \<Rightarrow> bool option" where
  "osw_passpoint_str_list_is_equal a b a_len b_len =
     (if a = None \<and> b = None then Some True
      else if a = None \<or> b = None then Some False
      else if a_len \<noteq> b_len then Some False
      else str_list_loop a b 0 a_len)"

text \<open>\<open>memcmp\<close> of \<open>n\<close> integers is 0 when they are equal; comparing none reads nothing.\<close>

definition ints_equal :: "int list option \<Rightarrow> int list option \<Rightarrow> nat \<Rightarrow> bool option" where
  "ints_equal a b n =
     (if n = 0 then Some True
      else
        case (a, b) of
          (Some x, Some y) \<Rightarrow>
            if n \<le> length x \<and> n \<le> length y then Some (take n x = take n y) else None
        | _ \<Rightarrow> None)"

text \<open>\<open>if (!x) return false;\<close> before what follows.\<close>

definition and_then :: "bool option \<Rightarrow> bool option \<Rightarrow> bool option" where
  "and_then x rest = (case x of None \<Rightarrow> None | Some False \<Rightarrow> Some False | Some True \<Rightarrow> rest)"

definition osw_passpoint_is_equal :: "osw_passpoint \<Rightarrow> osw_passpoint \<Rightarrow> bool option" where
  "osw_passpoint_is_equal a b =
    (if hs20_enabled a \<noteq> hs20_enabled b then Some False else
     if \<not> osw_hwaddr_is_equal (hessid a) (hessid b) then Some False else
     if ssid_len (osu_ssid a) \<noteq> ssid_len (osu_ssid b) then Some False else
     if strcmp (cstr (ssid_buf (osu_ssid a))) (cstr (ssid_buf (osu_ssid b))) \<noteq> 0 then Some False else
     if STRSCMP (t_c_filename a) (t_c_filename b) \<noteq> 0 then Some False else
     if STRSCMP (anqp_elem a) (anqp_elem b) \<noteq> 0 then Some False else
     if adv_wan_status a \<noteq> adv_wan_status b then Some False else
     if adv_wan_symmetric a \<noteq> adv_wan_symmetric b then Some False else
     if adv_wan_at_capacity a \<noteq> adv_wan_at_capacity b then Some False else
     if osen a \<noteq> osen b then Some False else
     if asra a \<noteq> asra b then Some False else
     if ant a \<noteq> ant b then Some False else
     if venue_group a \<noteq> venue_group b then Some False else
     if venue_type a \<noteq> venue_type b then Some False else
     if anqp_domain_id a \<noteq> anqp_domain_id b then Some False else
     if pps_mo_id a \<noteq> pps_mo_id b then Some False else
     if t_c_timestamp a \<noteq> t_c_timestamp b then Some False else
     and_then (osw_passpoint_str_list_is_equal (domain_list a) (domain_list b) (domain_list_len a) (domain_list_len b)) (
     and_then (osw_passpoint_str_list_is_equal (nairealm_list a) (nairealm_list b) (nairealm_list_len a) (nairealm_list_len b)) (
     and_then (osw_passpoint_str_list_is_equal (roamc_list a) (roamc_list b) (roamc_list_len a) (roamc_list_len b)) (
     and_then (osw_passpoint_str_list_is_equal (oper_fname_list a) (oper_fname_list b) (oper_fname_list_len a) (oper_fname_list_len b)) (
     and_then (osw_passpoint_str_list_is_equal (venue_name_list a) (venue_name_list b) (venue_name_list_len a) (venue_name_list_len b)) (
     and_then (osw_passpoint_str_list_is_equal (venue_url_list a) (venue_url_list b) (venue_url_list_len a) (venue_url_list_len b)) (
     and_then (osw_passpoint_str_list_is_equal (list_3gpp_list a) (list_3gpp_list b) (list_3gpp_list_len a) (list_3gpp_list_len b)) (
     if net_auth_type_list_len a \<noteq> net_auth_type_list_len b then Some False else
     ints_equal (net_auth_type_list a) (net_auth_type_list b) (net_auth_type_list_len a)))))))))"

text \<open>\<open>STRDUP\<close> of every element; a NULL element or a missing one is a fault.\<close>

definition str_array_dup :: "u8 list option list \<Rightarrow> nat \<Rightarrow> u8 list option list option" where
  "str_array_dup src n =
     (if n \<le> length src \<and> list_all (\<lambda>s. s \<noteq> None) (take n src) then Some (take n src)
      else None)"

text \<open>One \<open>if (src->list != NULL) ... else ...\<close> of the copy: the new pointer and length.\<close>

definition dup_list :: "str_array \<Rightarrow> nat \<Rightarrow> (str_array \<times> nat) option" where
  "dup_list l n =
     (case l of
        None \<Rightarrow> Some (None, 0)
      | Some xs \<Rightarrow> map_option (\<lambda>ys. (Some ys, n)) (str_array_dup xs n))"

definition dup_ints :: "int list option \<Rightarrow> nat \<Rightarrow> (int list option \<times> nat) option" where
  "dup_ints l n =
     (case l of
        None \<Rightarrow> Some (None, 0)
      | Some xs \<Rightarrow> if n \<le> length xs then Some (Some (take n xs), n) else None)"

text \<open>The new contents of \<open>*dst\<close>, for pointers that are not NULL.\<close>

definition osw_passpoint_copy :: "osw_passpoint \<Rightarrow> osw_passpoint option" where
  "osw_passpoint_copy src =
    (let dst = src in
     Option.bind (dup_list (domain_list src) (domain_list_len src)) (\<lambda>(l, n).
     let dst = dst\<lparr>domain_list := l, domain_list_len := n\<rparr> in
     Option.bind (dup_list (nairealm_list src) (nairealm_list_len src)) (\<lambda>(l, n).
     let dst = dst\<lparr>nairealm_list := l, nairealm_list_len := n\<rparr> in
     Option.bind (dup_list (roamc_list src) (roamc_list_len src)) (\<lambda>(l, n).
     let dst = dst\<lparr>roamc_list := l, roamc_list_len := n\<rparr> in
     Option.bind (dup_list (oper_fname_list src) (oper_fname_list_len src)) (\<lambda>(l, n).
     let dst = dst\<lparr>oper_fname_list := l, oper_fname_list_len := n\<rparr> in
     Option.bind (dup_list (venue_name_list src) (venue_name_list_len src)) (\<lambda>(l, n).
     let dst = dst\<lparr>venue_name_list := l, venue_name_list_len := n\<rparr> in
     Option.bind (dup_list (venue_url_list src) (venue_url_list_len src)) (\<lambda>(l, n).
     let dst = dst\<lparr>venue_url_list := l, venue_url_list_len := n\<rparr> in
     Option.bind (dup_list (list_3gpp_list src) (list_3gpp_list_len src)) (\<lambda>(l, n).
     let dst = dst\<lparr>list_3gpp_list := l, list_3gpp_list_len := n\<rparr> in
     Option.bind (dup_ints (net_auth_type_list src) (net_auth_type_list_len src)) (\<lambda>(l, n).
     Some (dst\<lparr>net_auth_type_list := l, net_auth_type_list_len := n\<rparr>))))))))))"

text \<open>What \<open>memset\<close> leaves.\<close>

definition passpoint_zero :: osw_passpoint where
  "passpoint_zero = \<lparr>hs20_enabled = False, adv_wan_status = False, adv_wan_symmetric = False,
     adv_wan_at_capacity = False, osen = False, asra = False, ant = 0, venue_group = 0,
     venue_type = 0, anqp_domain_id = 0, pps_mo_id = 0, t_c_timestamp = 0, t_c_filename = None,
     anqp_elem = None, hessid = osw_hwaddr_zero,
     osu_ssid = \<lparr>ssid_buf = replicate 33 0, ssid_len = 0\<rparr>,
     domain_list = None, domain_list_len = 0, nairealm_list = None, nairealm_list_len = 0,
     roamc_list = None, roamc_list_len = 0, oper_fname_list = None, oper_fname_list_len = 0,
     venue_name_list = None, venue_name_list_len = 0, venue_url_list = None, venue_url_list_len = 0,
     list_3gpp_list = None, list_3gpp_list_len = 0,
     net_auth_type_list = None, net_auth_type_list_len = 0\<rparr>"

definition osw_passpoint_free_internal :: "osw_passpoint \<Rightarrow> osw_passpoint" where
  "osw_passpoint_free_internal p = passpoint_zero"

section \<open>Properties\<close>

text \<open>Arrays as long as their length field, without NULL strings.\<close>

definition array_ok :: "str_array \<Rightarrow> nat \<Rightarrow> bool" where
  "array_ok l n = (case l of None \<Rightarrow> True | Some xs \<Rightarrow> n \<le> length xs \<and> list_all (\<lambda>s. s \<noteq> None) (take n xs))"

definition passpoint_ok :: "osw_passpoint \<Rightarrow> bool" where
  "passpoint_ok p \<longleftrightarrow>
     array_ok (domain_list p) (domain_list_len p) \<and>
     array_ok (nairealm_list p) (nairealm_list_len p) \<and>
     array_ok (roamc_list p) (roamc_list_len p) \<and>
     array_ok (oper_fname_list p) (oper_fname_list_len p) \<and>
     array_ok (venue_name_list p) (venue_name_list_len p) \<and>
     array_ok (venue_url_list p) (venue_url_list_len p) \<and>
     array_ok (list_3gpp_list p) (list_3gpp_list_len p) \<and>
     (case net_auth_type_list p of
        None \<Rightarrow> net_auth_type_list_len p = 0
      | Some xs \<Rightarrow> net_auth_type_list_len p \<le> length xs)"

lemma str_list_loop_refl:
  "i + n \<le> length ys \<Longrightarrow> i + n \<le> length xs \<Longrightarrow> (\<forall>j\<in>{i..<i + n}. xs ! j = ys ! j) \<Longrightarrow>
     str_list_loop (Some xs) (Some ys) i n = Some True"
proof (induction n arbitrary: i)
  case (Suc n)
  have "{i..<i + Suc n} = insert i {i + 1..<i + 1 + n}" by auto
  then show ?case using Suc.IH [of "i + 1"] Suc.prems by (simp add: elem_at_def STRSCMP_def strcmp_def)
qed simp

lemma dup_list_ok:
  assumes "array_ok l n"
  shows "\<exists>l' n'. dup_list l n = Some (l', n') \<and> osw_passpoint_str_list_is_equal l' l n' n = Some True"
proof (cases l)
  case (Some xs)
  have "str_list_loop (Some (take n xs)) (Some xs) 0 n = Some True"
    using assms Some by (intro str_list_loop_refl) (auto simp: array_ok_def)
  then show ?thesis
    using assms Some
    by (simp add: dup_list_def array_ok_def str_array_dup_def osw_passpoint_str_list_is_equal_def)
qed (simp add: dup_list_def osw_passpoint_str_list_is_equal_def)

lemma dup_ints_ok:
  assumes "case l of None \<Rightarrow> n = 0 | Some xs \<Rightarrow> n \<le> length xs"
  shows "\<exists>l'. dup_ints l n = Some (l', n) \<and> ints_equal l' l n = Some True"
  using assms by (cases l) (auto simp: dup_ints_def ints_equal_def)

text \<open>
  Copying a Passpoint configuration whose arrays match their lengths succeeds, and the copy compares
  equal to the original; a released configuration compares equal to a released one.
\<close>

lemma osw_passpoint_copy_equal:
  assumes "passpoint_ok p"
  shows "(\<exists>d. osw_passpoint_copy p = Some d \<and> osw_passpoint_is_equal d p = Some True) \<and>
         osw_passpoint_is_equal (osw_passpoint_free_internal p) (osw_passpoint_free_internal q) = Some True"
proof -
  obtain l0 n0 where e0: "dup_list (domain_list p) (domain_list_len p) = Some (l0, n0)"
    "osw_passpoint_str_list_is_equal l0 (domain_list p) n0 (domain_list_len p) = Some True"
    using dup_list_ok [of "domain_list p" "domain_list_len p"] assms by (auto simp: passpoint_ok_def)
  obtain l1 n1 where e1: "dup_list (nairealm_list p) (nairealm_list_len p) = Some (l1, n1)"
    "osw_passpoint_str_list_is_equal l1 (nairealm_list p) n1 (nairealm_list_len p) = Some True"
    using dup_list_ok [of "nairealm_list p" "nairealm_list_len p"] assms by (auto simp: passpoint_ok_def)
  obtain l2 n2 where e2: "dup_list (roamc_list p) (roamc_list_len p) = Some (l2, n2)"
    "osw_passpoint_str_list_is_equal l2 (roamc_list p) n2 (roamc_list_len p) = Some True"
    using dup_list_ok [of "roamc_list p" "roamc_list_len p"] assms by (auto simp: passpoint_ok_def)
  obtain l3 n3 where e3: "dup_list (oper_fname_list p) (oper_fname_list_len p) = Some (l3, n3)"
    "osw_passpoint_str_list_is_equal l3 (oper_fname_list p) n3 (oper_fname_list_len p) = Some True"
    using dup_list_ok [of "oper_fname_list p" "oper_fname_list_len p"] assms by (auto simp: passpoint_ok_def)
  obtain l4 n4 where e4: "dup_list (venue_name_list p) (venue_name_list_len p) = Some (l4, n4)"
    "osw_passpoint_str_list_is_equal l4 (venue_name_list p) n4 (venue_name_list_len p) = Some True"
    using dup_list_ok [of "venue_name_list p" "venue_name_list_len p"] assms by (auto simp: passpoint_ok_def)
  obtain l5 n5 where e5: "dup_list (venue_url_list p) (venue_url_list_len p) = Some (l5, n5)"
    "osw_passpoint_str_list_is_equal l5 (venue_url_list p) n5 (venue_url_list_len p) = Some True"
    using dup_list_ok [of "venue_url_list p" "venue_url_list_len p"] assms by (auto simp: passpoint_ok_def)
  obtain l6 n6 where e6: "dup_list (list_3gpp_list p) (list_3gpp_list_len p) = Some (l6, n6)"
    "osw_passpoint_str_list_is_equal l6 (list_3gpp_list p) n6 (list_3gpp_list_len p) = Some True"
    using dup_list_ok [of "list_3gpp_list p" "list_3gpp_list_len p"] assms by (auto simp: passpoint_ok_def)
  obtain li where ei: "dup_ints (net_auth_type_list p) (net_auth_type_list_len p) = Some (li, net_auth_type_list_len p)"
    "ints_equal li (net_auth_type_list p) (net_auth_type_list_len p) = Some True"
    using dup_ints_ok [where l = "net_auth_type_list p" and n = "net_auth_type_list_len p"] assms
    by (auto simp: passpoint_ok_def)
  have r: "strcmp x x = 0" "STRSCMP y y = 0" for x y by (simp_all add: strcmp_def STRSCMP_def)
  have c: "\<exists>d. osw_passpoint_copy p = Some d \<and> osw_passpoint_is_equal d p = Some True"
    by (simp add: osw_passpoint_copy_def Let_def e0(1) e1(1) e2(1) e3(1) e4(1) e5(1) e6(1) ei(1) osw_passpoint_is_equal_def r and_then_def
        e0(2) e1(2) e2(2) e3(2) e4(2) e5(2) e6(2) ei(2))
  show ?thesis
    using c by (simp add: osw_passpoint_is_equal_def osw_passpoint_free_internal_def passpoint_zero_def r and_then_def
        osw_passpoint_str_list_is_equal_def ints_equal_def)
qed

definition passpoint_1 :: osw_passpoint where
  "passpoint_1 = passpoint_zero\<lparr>domain_list := Some [Some [97], Some [98]], domain_list_len := 2,
     net_auth_type_list := Some [3], net_auth_type_list_len := 1\<rparr>"

lemma osw_passpoint_copy_equal_witness:
  "\<exists>d. osw_passpoint_copy passpoint_1 = Some d \<and> osw_passpoint_is_equal d passpoint_1 = Some True"
proof -
  have "passpoint_ok passpoint_1" by code_simp
  from osw_passpoint_copy_equal [OF this] show ?thesis by blast
qed

end
