(* ===== verification/Bytes.thy ===== *)
theory Bytes
  imports Opensync_Prelude
begin

unbundle bit_operations_syntax

text \<open>
  Integers in memory. The program runs on little-endian machines: a 32-bit integer is the list of
  its four bytes, the least significant first. Network headers are read in big-endian order.
\<close>

section \<open>Little-endian words\<close>

definition le32 :: "u32 \<Rightarrow> u8 list" where
  "le32 x = [ucast x, ucast (drop_bit 8 x), ucast (drop_bit 16 x), ucast (drop_bit 24 x)]"

definition of_le32 :: "u8 list \<Rightarrow> u32" where
  "of_le32 bs = word_of_int (uint (bs ! 0) + 2 ^ 8 * uint (bs ! 1) + 2 ^ 16 * uint (bs ! 2) + 2 ^ 24 * uint (bs ! 3))"

lemma le32_length [simp]: "length (le32 x) = 4"
  by (simp add: le32_def)

lemma byte_sum:
  fixes v :: int
  assumes "0 \<le> v" "v < 2 ^ 32"
  shows "v mod 256 + 2 ^ 8 * (v div 2 ^ 8 mod 256) + 2 ^ 16 * (v div 2 ^ 16 mod 256) + 2 ^ 24 * (v div 2 ^ 24 mod 256) = v"
proof -
  have d: "v div 2 ^ 8 = v div 256" "v div 2 ^ 16 = v div 256 div 256" "v div 2 ^ 24 = v div 256 div 256 div 256"
    using zdiv_zmult2_eq [of 256 v 256] zdiv_zmult2_eq [of 256 v 65536] zdiv_zmult2_eq [of 256 "v div 256" 256]
    by simp_all
  have "v div 2 ^ 24 < 256" "0 \<le> v div 2 ^ 24" using assms by simp_all
  then have top: "v div 2 ^ 24 mod 256 = v div 2 ^ 24" by (simp only: mod_pos_pos_trivial)
  have "r0 + 2 ^ 8 * r1 + 2 ^ 16 * r2 + 2 ^ 24 * c = v"
    if "256 * a + r0 = v" "256 * b + r1 = a" "256 * c + r2 = b" for a b c r0 r1 r2 :: int
    using that by simp
  from this [OF mult_div_mod_eq mult_div_mod_eq mult_div_mod_eq] show ?thesis
    unfolding top unfolding d .
qed

lemma uint_byte: "uint (ucast (drop_bit n (x :: u32)) :: u8) = uint x div 2 ^ n mod 256"
proof -
  have "uint (drop_bit n x) = uint x div 2 ^ n"
    unfolding drop_bit_eq_div [of n "uint x", symmetric]
    using uint_lt2p [of x] by (simp add: unsigned_drop_bit_eq take_bit_int_eq_self)
  then show ?thesis by (simp add: unsigned_ucast_eq take_bit_eq_mod)
qed

lemma of_le32_le32 [simp]: "of_le32 (le32 x @ bs) = x"
proof -
  have "uint x < 2 ^ 32" using uint_lt2p [of x] by simp
  note v = byte_sum [OF uint_ge_0 this]
  have "uint (ucast x :: u8) = uint x mod 256" using uint_byte [of 0 x] by simp
  then have "uint (ucast x :: u8) + 2 ^ 8 * uint (ucast (drop_bit 8 x) :: u8) +
      2 ^ 16 * uint (ucast (drop_bit 16 x) :: u8) + 2 ^ 24 * uint (ucast (drop_bit 24 x) :: u8) = uint x"
    using v by (simp only: uint_byte)
  moreover have "(le32 x @ bs) ! 0 = ucast x" "(le32 x @ bs) ! 1 = ucast (drop_bit 8 x)"
    "(le32 x @ bs) ! 2 = ucast (drop_bit 16 x)" "(le32 x @ bs) ! 3 = ucast (drop_bit 24 x)"
    by (simp_all add: le32_def)
  ultimately show ?thesis by (simp only: of_le32_def word_of_int_uint)
qed

lemma of_le32_le32' [simp]: "of_le32 (le32 x) = x"
  using of_le32_le32 [of x "[]"] by simp


text \<open>The sum of shifted bytes that C code writes for the same value.\<close>

lemma shifted_bytes_eq_of_le32:
  "ucast (bs ! 0) + push_bit 8 (ucast (bs ! 1)) + push_bit 16 (ucast (bs ! 2)) + push_bit 24 (ucast (bs ! 3)) = of_le32 bs"
proof -
  have u: "(ucast (b :: u8) :: u32) = word_of_int (uint b)" for b by transfer simp
  show ?thesis
    unfolding of_le32_def u by (simp add: push_bit_eq_mult)
qed

section \<open>Big-endian reads\<close>

definition be16 :: "u8 \<Rightarrow> u8 \<Rightarrow> u16" where
  "be16 hi lo = push_bit 8 (ucast hi) OR ucast lo"

definition be32 :: "u8 list \<Rightarrow> u32" where
  "be32 bs = of_le32 (rev (take 4 bs))"

end
