(* ===== verification/Osw_Tlv.thy ===== *)
theory Osw_Tlv
  imports Bytes
begin

text \<open>
  The type-length-value buffers of \<open>src/src/lib/osw/src/osw_tlv.c\<close> and \<open>src/src/lib/osw/inc/osw_tlv.h\<close>, at
  the level of bytes. A buffer is the list of its allocated bytes, so that \<open>size\<close> is its length; a
  header pointer is the offset of the header in the bytes, and \<open>None\<close> is NULL. Reading outside the
  allocated bytes is a fault, the outer \<open>None\<close> of a result. Header fields are stored
  in little-endian order.
\<close>

section \<open>Reading and writing bytes\<close>

definition rd32 :: "u8 list \<Rightarrow> nat \<Rightarrow> u32 option" where
  "rd32 data off = (if off + 4 \<le> length data then Some (of_le32 (take 4 (drop off data))) else None)"

definition write_at :: "u8 list \<Rightarrow> nat \<Rightarrow> u8 list \<Rightarrow> u8 list" where
  "write_at data off bs = take off data @ bs @ drop (off + length bs) data"

section \<open>Types\<close>

datatype osw_tlv_type =
  OSW_TLV_UNSPEC | OSW_TLV_U32 | OSW_TLV_FLOAT | OSW_TLV_STRING | OSW_TLV_NESTED | OSW_TLV_HWADDR

primrec tlv_type_num :: "osw_tlv_type \<Rightarrow> u32" where
  "tlv_type_num OSW_TLV_UNSPEC = 0"
| "tlv_type_num OSW_TLV_U32 = 1"
| "tlv_type_num OSW_TLV_FLOAT = 2"
| "tlv_type_num OSW_TLV_STRING = 3"
| "tlv_type_num OSW_TLV_NESTED = 4"
| "tlv_type_num OSW_TLV_HWADDR = 5"

record osw_tlv =
  tlv_data :: "u8 list"
  used :: nat

record osw_tlv_hdr =
  hdr_id :: u32
  hdr_type :: u32
  hdr_len :: u32
  hdr_flags :: u32

text \<open>The members \<open>nested\<close> and \<open>tb_size\<close> of a policy are read by \<open>osw_tlv_merge\<close> only.\<close>

record osw_tlv_policy =
  policy_type :: osw_tlv_type
  min_len :: u32
  max_len :: u32

definition OSW_TLV_TAILROOM :: nat where
  "OSW_TLV_TAILROOM = 4096"

definition OSW_TLV_ALIGN :: "nat \<Rightarrow> nat" where
  "OSW_TLV_ALIGN x = (x + 3) div 4 * 4"

abbreviation (input) osw_tlv_hdr_len :: nat where
  "osw_tlv_hdr_len \<equiv> 16"

text \<open>The whole header, and its length field alone.\<close>

definition read_hdr :: "u8 list \<Rightarrow> nat \<Rightarrow> osw_tlv_hdr option" where
  "read_hdr data off =
     (case (rd32 data off, rd32 data (off + 4), rd32 data (off + 8), rd32 data (off + 12)) of
        (Some i, Some t, Some l, Some f) \<Rightarrow>
          Some \<lparr>hdr_id = i, hdr_type = t, hdr_len = l, hdr_flags = f\<rparr>
      | _ \<Rightarrow> None)"

section \<open>Walking\<close>

definition osw_tlv_len :: "u8 list \<Rightarrow> nat \<Rightarrow> nat option" where
  "osw_tlv_len data hdr = map_option (\<lambda>len. osw_tlv_hdr_len + unat len) (rd32 data (hdr + 8))"

definition osw_tlv_ok :: "u8 list \<Rightarrow> nat option \<Rightarrow> nat \<Rightarrow> bool option" where
  "osw_tlv_ok data hdr remaining =
     (case hdr of
        None \<Rightarrow> Some False
      | Some h \<Rightarrow> map_option (\<lambda>len. len \<le> remaining) (osw_tlv_len data h))"

text \<open>The next header and the new value of \<open>*remaining\<close>.\<close>

definition osw_tlv_next :: "u8 list \<Rightarrow> nat option \<Rightarrow> nat \<Rightarrow> (nat option \<times> nat) option" where
  "osw_tlv_next data hdr remaining =
     (case hdr of
        None \<Rightarrow> Some (None, remaining)
      | Some h \<Rightarrow>
          (case osw_tlv_len data h of
             None \<Rightarrow> None
           | Some off \<Rightarrow>
               let padding = OSW_TLV_ALIGN off - off in
               if off > remaining then Some (None, remaining)
               else
                 let remaining = remaining - off in
                 if padding > remaining then Some (None, remaining)
                 else Some (Some (h + off + padding), remaining - padding)))"

lemma osw_tlv_next_decreases:
  "osw_tlv_ok data (Some h) rem = Some True \<Longrightarrow> osw_tlv_next data (Some h) rem = Some (i, rem') \<Longrightarrow> rem' < rem"
  by (auto simp: osw_tlv_ok_def osw_tlv_next_def osw_tlv_len_def Let_def split: option.splits if_splits)

text \<open>
  The headers that \<open>osw_tlv_for_each\<close> visits after its first test and the final value of \<open>rem\<close>, for a
  body that neither leaves the loop nor writes to the bytes.
\<close>

function for_each_loop :: "u8 list \<Rightarrow> nat option \<Rightarrow> nat \<Rightarrow> (nat list \<times> nat) option" where
  "for_each_loop data None rem = Some ([], rem)"
| "for_each_loop data (Some h) rem =
     (case osw_tlv_ok data (Some h) rem of
        None \<Rightarrow> None
      | Some False \<Rightarrow> Some ([], rem)
      | Some True \<Rightarrow>
          (case osw_tlv_next data (Some h) rem of
             None \<Rightarrow> None
           | Some (i, rem') \<Rightarrow> map_option (apfst (\<lambda>hs. h # hs)) (for_each_loop data i rem')))"
  by pat_completeness auto

termination
  by (relation "measure (\<lambda>(data, i, rem). rem)") (auto intro: osw_tlv_next_decreases)

text \<open>The first test, which reads the length at the head once more.\<close>

definition osw_tlv_for_each :: "u8 list \<Rightarrow> nat option \<Rightarrow> nat \<Rightarrow> (nat list \<times> nat) option" where
  "osw_tlv_for_each data head rem =
     (case osw_tlv_ok data head rem of
        None \<Rightarrow> None
      | Some ok \<Rightarrow> for_each_loop data (if ok then head else None) rem)"

function find_loop :: "u8 list \<Rightarrow> nat option \<Rightarrow> nat \<Rightarrow> u32 \<Rightarrow> nat option option" where
  "find_loop data None rem i = Some None"
| "find_loop data (Some h) rem i =
     (case osw_tlv_ok data (Some h) rem of
        None \<Rightarrow> None
      | Some False \<Rightarrow> Some None
      | Some True \<Rightarrow>
          (case read_hdr data h of
             None \<Rightarrow> None
           | Some hdr \<Rightarrow>
               if hdr_id hdr = i then Some (Some h)
               else
                 (case osw_tlv_next data (Some h) rem of
                    None \<Rightarrow> None
                  | Some (h', rem') \<Rightarrow> find_loop data h' rem' i)))"
  by pat_completeness auto

termination
  by (relation "measure (\<lambda>(data, h, rem, i). rem)") (auto intro: osw_tlv_next_decreases)

definition osw_tlv_find :: "u8 list \<Rightarrow> nat option \<Rightarrow> nat \<Rightarrow> u32 \<Rightarrow> nat option option" where
  "osw_tlv_find data head len i =
     (case osw_tlv_ok data head len of
        None \<Rightarrow> None
      | Some ok \<Rightarrow> find_loop data (if ok then head else None) len i)"

section \<open>Parsing\<close>

text \<open>The policy of an attribute is the element of the array at its number.\<close>

definition osw_tlv_policy_ok :: "osw_tlv_hdr \<Rightarrow> osw_tlv_policy list option \<Rightarrow> bool option" where
  "osw_tlv_policy_ok hdr policy =
     (case policy of
        None \<Rightarrow> Some True
      | Some ps \<Rightarrow>
          if unat (hdr_id hdr) < length ps then
            let p = ps ! unat (hdr_id hdr) in
            Some (if hdr_type hdr \<noteq> tlv_type_num (policy_type p) then False
                  else
                    (case policy_type p of
                       OSW_TLV_HWADDR \<Rightarrow> hdr_len hdr = 6
                     | OSW_TLV_U32 \<Rightarrow> hdr_len hdr = 4
                     | OSW_TLV_FLOAT \<Rightarrow> hdr_len hdr = 4
                     | OSW_TLV_STRING \<Rightarrow>
                         hdr_len hdr \<ge> min_len p \<and> (max_len p = 0 \<or> max_len p \<ge> hdr_len hdr)
                     | OSW_TLV_UNSPEC \<Rightarrow>
                         hdr_len hdr \<ge> min_len p \<and> (max_len p = 0 \<or> max_len p \<ge> hdr_len hdr)
                     | OSW_TLV_NESTED \<Rightarrow> True))
          else None)"

text \<open>The body of the loop over the headers; \<open>tb\<close> has \<open>size\<close> elements.\<close>

definition parse_body ::
    "u8 list \<Rightarrow> osw_tlv_policy list option \<Rightarrow> nat \<Rightarrow> nat option list option \<Rightarrow> nat option list option" where
  "parse_body data policy h acc =
     (case acc of
        None \<Rightarrow> None
      | Some tb \<Rightarrow>
          (case read_hdr data h of
             None \<Rightarrow> None
           | Some hdr \<Rightarrow>
               if unat (hdr_id hdr) \<ge> length tb then Some tb
               else
                 (case osw_tlv_policy_ok hdr policy of
                    None \<Rightarrow> None
                  | Some ok \<Rightarrow> Some (if \<not> ok then tb else tb[unat (hdr_id hdr) := Some h]))))"

definition osw_tlv_parse ::
    "u8 list \<Rightarrow> nat option \<Rightarrow> nat \<Rightarrow> osw_tlv_policy list option \<Rightarrow> nat option list \<Rightarrow>
       (nat option list \<times> nat) option" where
  "osw_tlv_parse data head len policy tb =
     (case osw_tlv_for_each data head len of
        None \<Rightarrow> None
      | Some (hs, len) \<Rightarrow> map_option (\<lambda>tb. (tb, len)) (fold (parse_body data policy) hs (Some tb)))"

section \<open>Building\<close>

text \<open>\<open>size_t\<close> subtraction wraps.\<close>

definition size_t_sub :: "nat \<Rightarrow> nat \<Rightarrow> nat" where
  "size_t_sub a b = nat ((int a - int b) mod 2 ^ 64)"

definition osw_tlv_new :: osw_tlv where
  "osw_tlv_new = \<lparr>tlv_data = [], used = 0\<rparr>"

definition osw_tlv_fini :: "osw_tlv \<Rightarrow> osw_tlv" where
  "osw_tlv_fini tlv = (if tlv_data tlv = [] then tlv else \<lparr>tlv_data = [], used = 0\<rparr>)"

definition osw_tlv_grow :: "osw_tlv \<Rightarrow> nat \<Rightarrow> osw_tlv" where
  "osw_tlv_grow tlv needed =
     (let remaining = size_t_sub (length (tlv_data tlv)) (OSW_TLV_ALIGN (used tlv)) in
      if needed \<le> remaining then tlv
      else tlv\<lparr>tlv_data := tlv_data tlv @ replicate (OSW_TLV_ALIGN (needed + OSW_TLV_TAILROOM)) 0\<rparr>)"

text \<open>The offset of the reserved bytes and the new state.\<close>

definition osw_tlv_reserve :: "osw_tlv \<Rightarrow> nat \<Rightarrow> nat \<times> osw_tlv" where
  "osw_tlv_reserve tlv len =
     (let tlv = osw_tlv_grow tlv len;
          aused = OSW_TLV_ALIGN (used tlv)
      in (aused, tlv\<lparr>used := aused + len\<rparr>))"

text \<open>
  The offset of the data. The length is stored in 32 bits. The header is at an aligned offset, so that
  the assertion of \<open>osw_tlv_get_data\<close> holds.
\<close>

definition osw_tlv_put :: "osw_tlv \<Rightarrow> u32 \<Rightarrow> u32 \<Rightarrow> nat \<Rightarrow> nat \<times> osw_tlv" where
  "osw_tlv_put tlv i type len =
     (let (hdr, tlv) = osw_tlv_reserve tlv (osw_tlv_hdr_len + len)
      in (hdr + osw_tlv_hdr_len,
          tlv\<lparr>tlv_data := write_at (tlv_data tlv) hdr (le32 i @ le32 type @ le32 (of_nat len) @ le32 0)\<rparr>))"

definition osw_tlv_put_off :: "osw_tlv \<Rightarrow> u32 \<Rightarrow> u32 \<Rightarrow> nat \<Rightarrow> nat \<times> osw_tlv" where
  "osw_tlv_put_off tlv i type len = osw_tlv_put tlv i type len"

text \<open>
  \<open>osw_tlv_put_data\<close> and the macros over it copy the data to the place \<open>osw_tlv_put\<close> returns, and
  return that place.
\<close>

definition osw_tlv_put_data :: "osw_tlv \<Rightarrow> u32 \<Rightarrow> u32 \<Rightarrow> u8 list \<Rightarrow> nat \<times> osw_tlv" where
  "osw_tlv_put_data tlv i type x =
     (let (off, tlv) = osw_tlv_put tlv i type (length x)
      in (off, tlv\<lparr>tlv_data := write_at (tlv_data tlv) off x\<rparr>))"

definition osw_tlv_put_u32 :: "osw_tlv \<Rightarrow> u32 \<Rightarrow> u32 \<Rightarrow> nat \<times> osw_tlv" where
  "osw_tlv_put_u32 tlv i x = osw_tlv_put_data tlv i (tlv_type_num OSW_TLV_U32) (le32 x)"

definition osw_tlv_put_buf :: "osw_tlv \<Rightarrow> u32 \<Rightarrow> u8 list \<Rightarrow> nat \<times> osw_tlv" where
  "osw_tlv_put_buf tlv i x = osw_tlv_put_data tlv i (tlv_type_num OSW_TLV_UNSPEC) x"

definition osw_tlv_put_string :: "osw_tlv \<Rightarrow> u32 \<Rightarrow> u8 list \<Rightarrow> nat \<times> osw_tlv" where
  "osw_tlv_put_string tlv i x = osw_tlv_put_data tlv i (tlv_type_num OSW_TLV_STRING) (x @ [0])"

definition osw_tlv_put_hwaddr :: "osw_tlv \<Rightarrow> u32 \<Rightarrow> u8 list \<Rightarrow> nat \<times> osw_tlv" where
  "osw_tlv_put_hwaddr tlv i octet = osw_tlv_put_data tlv i (tlv_type_num OSW_TLV_HWADDR) octet"

definition osw_tlv_put_same :: "osw_tlv \<Rightarrow> osw_tlv_hdr \<Rightarrow> u8 list \<Rightarrow> nat \<times> osw_tlv" where
  "osw_tlv_put_same tlv hdr x = osw_tlv_put_data tlv (hdr_id hdr) (hdr_type hdr) x"

text \<open>The flags of the header before the data at an offset; the offset has to be aligned.\<close>

definition osw_tlv_set_flags :: "osw_tlv \<Rightarrow> nat \<Rightarrow> u32 \<Rightarrow> osw_tlv option" where
  "osw_tlv_set_flags tlv off flags =
     (if off mod 4 = 0 \<and> 16 \<le> off \<and> off \<le> length (tlv_data tlv)
      then Some (tlv\<lparr>tlv_data := write_at (tlv_data tlv) (off - 16 + 12) (le32 flags)\<rparr>)
      else None)"

definition OSW_TLV_F_DELTA :: u32 where
  "OSW_TLV_F_DELTA = 1"

definition osw_tlv_put_u32_delta :: "osw_tlv \<Rightarrow> u32 \<Rightarrow> u32 \<Rightarrow> osw_tlv option" where
  "osw_tlv_put_u32_delta tlv i x =
     (let (off, tlv) = osw_tlv_put_u32 tlv i x in osw_tlv_set_flags tlv off OSW_TLV_F_DELTA)"

definition osw_tlv_put_nested :: "osw_tlv \<Rightarrow> u32 \<Rightarrow> nat \<times> osw_tlv" where
  "osw_tlv_put_nested tlv i = osw_tlv_put_off tlv i (tlv_type_num OSW_TLV_NESTED) 0"

definition osw_tlv_end_nested :: "osw_tlv \<Rightarrow> nat \<Rightarrow> osw_tlv option" where
  "osw_tlv_end_nested tlv off =
     (if off mod 4 = 0 \<and> 16 \<le> off \<and> off \<le> length (tlv_data tlv)
      then Some (tlv\<lparr>tlv_data := write_at (tlv_data tlv) (off - 16 + 8) (le32 (of_nat (used tlv - off)))\<rparr>)
      else None)"

definition osw_tlv_copy :: "osw_tlv \<Rightarrow> osw_tlv \<Rightarrow> osw_tlv" where
  "osw_tlv_copy dst src =
     (let (off, dst) = osw_tlv_reserve (osw_tlv_fini dst) (used src)
      in dst\<lparr>tlv_data := write_at (tlv_data dst) off (take (used src) (tlv_data src))\<rparr>)"

definition osw_tlv_reset :: "osw_tlv \<Rightarrow> osw_tlv" where
  "osw_tlv_reset t = \<lparr>tlv_data = replicate (length (tlv_data t)) 0, used = 0\<rparr>"

text \<open>The head of a buffer: NULL as long as nothing was allocated.\<close>

definition tlv_head :: "osw_tlv \<Rightarrow> nat option" where
  "tlv_head tlv = (if tlv_data tlv = [] then None else Some 0)"

section \<open>Layout\<close>

lemma rd32_le32: "off = length A \<Longrightarrow> rd32 (A @ le32 x @ B) off = Some x"
  by (simp add: rd32_def)

text \<open>An attribute and its bytes; a buffer holds attributes at aligned offsets.\<close>

type_synonym attr = "u32 \<times> u32 \<times> u32 \<times> u8 list"

fun enc :: "attr \<Rightarrow> u8 list" where
  "enc (i, t, f, bs) = le32 i @ le32 t @ le32 (of_nat (length bs)) @ le32 f @ bs"

definition pad4 :: "u8 list \<Rightarrow> u8 list" where
  "pad4 bs = bs @ replicate (OSW_TLV_ALIGN (length bs) - length bs) 0"

fun lay :: "attr list \<Rightarrow> u8 list" where
  "lay [] = []"
| "lay [a] = enc a"
| "lay (a # b # as) = pad4 (enc a) @ lay (b # as)"

fun attr_len :: "attr \<Rightarrow> nat" where
  "attr_len (i, t, f, bs) = length bs"

lemma enc_length [simp]: "length (enc a) = 16 + attr_len a"
  by (cases a rule: enc.cases) simp

lemma align_bounds: "x \<le> OSW_TLV_ALIGN x \<and> OSW_TLV_ALIGN x < x + 4 \<and> 4 dvd OSW_TLV_ALIGN x"
  unfolding OSW_TLV_ALIGN_def by presburger

lemma align_fixed [simp]: "4 dvd x \<Longrightarrow> OSW_TLV_ALIGN x = x"
  unfolding OSW_TLV_ALIGN_def by presburger

lemma align_add: "4 dvd x \<Longrightarrow> OSW_TLV_ALIGN (x + y) = x + OSW_TLV_ALIGN y"
  unfolding OSW_TLV_ALIGN_def by presburger

lemma align_least: "4 dvd y \<Longrightarrow> x \<le> y \<Longrightarrow> OSW_TLV_ALIGN x \<le> y"
  unfolding OSW_TLV_ALIGN_def by presburger

lemma pad4_length [simp]: "length (pad4 bs) = OSW_TLV_ALIGN (length bs)"
  using align_bounds [of "length bs"] by (simp add: pad4_def)

lemma pad4_append: "4 dvd length a \<Longrightarrow> pad4 (a @ b) = a @ pad4 b"
  by (simp add: pad4_def align_add)

lemma lay_append: "bs \<noteq> [] \<Longrightarrow> lay (as @ bs) = pad4 (lay as) @ lay bs"
proof (induction as rule: lay.induct)
  case 1
  show ?case by (simp add: pad4_def)
next
  case (2 a)
  then show ?case by (cases bs) simp_all
next
  case (3 a b as)
  have "4 dvd length (pad4 (enc a))" using align_bounds [of "length (enc a)"] by simp
  then show ?case using 3 by (simp add: pad4_append)
qed

lemma lay_snoc: "lay (as @ [a]) = pad4 (lay as) @ enc a"
  by (simp add: lay_append)

lemma lay_nonempty: "as \<noteq> [] \<Longrightarrow> length (lay as) \<ge> 16"
proof (cases as rule: lay.cases)
  case (3 a b as')
  then show ?thesis using align_bounds [of "16 + attr_len a"] by simp
qed simp_all

text \<open>The buffer holds the attributes \<open>as\<close>, and zeros after them.\<close>

definition tlv_rep :: "attr list \<Rightarrow> osw_tlv \<Rightarrow> bool" where
  "tlv_rep as tlv \<longleftrightarrow>
     used tlv = length (lay as) \<and> 4 dvd length (tlv_data tlv) \<and>
     (\<exists>k. tlv_data tlv = lay as @ replicate k 0)"

lemma write_zeros:
  "length bs \<le> k \<Longrightarrow> write_at (P @ replicate k 0) (length P) bs = P @ bs @ replicate (k - length bs) 0"
  by (simp add: write_at_def)

lemma size_t_sub_eq: "b \<le> a \<Longrightarrow> a < 2 ^ 64 \<Longrightarrow> size_t_sub a b = a - b"
  by (simp add: size_t_sub_def nat_diff_distrib)

text \<open>After a reservation the padding and the new bytes are zeros.\<close>

lemma reserve_zeros:
  assumes "tlv_rep as tlv" "length (tlv_data tlv) < 2 ^ 64"
  shows "\<exists>k. osw_tlv_reserve tlv len =
      (length (pad4 (lay as)), \<lparr>tlv_data = pad4 (lay as) @ replicate k 0, used = length (pad4 (lay as)) + len\<rparr>) \<and>
      len \<le> k \<and> 4 dvd length (pad4 (lay as)) + k"
proof -
  let ?U = "length (lay as)" and ?A = "OSW_TLV_ALIGN (length (lay as))"
  obtain k where d: "tlv_data tlv = lay as @ replicate k 0" and u: "used tlv = ?U" and dvd: "4 dvd ?U + k"
    using assms(1) by (auto simp: tlv_rep_def)
  have A: "?U \<le> ?A" "?A \<le> ?U + k" "4 dvd ?A" using align_bounds [of ?U] align_least [OF dvd, of ?U] by auto
  have rem: "size_t_sub (length (tlv_data tlv)) (OSW_TLV_ALIGN (used tlv)) = ?U + k - ?A"
    using assms(2) A u d by (simp add: size_t_sub_eq)
  let ?n = "OSW_TLV_ALIGN (len + OSW_TLV_TAILROOM)"
  define k' where "k' = (if len \<le> ?U + k - ?A then k else k + ?n)"
  have n: "len \<le> ?n" "4 dvd ?n"
    using align_bounds [of "len + OSW_TLV_TAILROOM"] by (auto intro: le_trans [of _ "len + OSW_TLV_TAILROOM"])
  have g: "osw_tlv_grow tlv len = \<lparr>tlv_data = lay as @ replicate k' 0, used = ?U\<rparr>"
    using rem u d by (cases tlv) (auto simp: osw_tlv_grow_def Let_def k'_def replicate_add)
  have k': "?A - ?U \<le> k'" "len \<le> k' - (?A - ?U)" "4 dvd ?U + k'" using A n dvd dvd_add [OF dvd n(2)] by (auto simp: k'_def add.assoc)
  have "lay as @ replicate k' 0 = pad4 (lay as) @ replicate (k' - (?A - ?U)) 0"
    using k'(1) by (simp add: pad4_def replicate_add [symmetric])
  then show ?thesis
    using g k' A by (intro exI [of _ "k' - (?A - ?U)"]) (simp add: osw_tlv_reserve_def Let_def add.commute)
qed

lemma put_data_rep:
  assumes "tlv_rep as tlv" "length (tlv_data tlv) < 2 ^ 64"
  obtains tlv' where "osw_tlv_put_data tlv i t bs = (length (pad4 (lay as)) + 16, tlv')"
    and "tlv_rep (as @ [(i, t, 0, bs)]) tlv'"
proof -
  let ?P = "pad4 (lay as)" and ?h = "le32 i @ le32 t @ le32 (of_nat (length bs)) @ le32 0"
  obtain k where r: "osw_tlv_reserve tlv (16 + length bs) =
      (length ?P, \<lparr>tlv_data = ?P @ replicate k 0, used = length ?P + (16 + length bs)\<rparr>)"
    and k: "16 + length bs \<le> k" "4 dvd length ?P + k"
    using reserve_zeros [OF assms] by blast
  have h: "write_at (?P @ replicate k 0) (length ?P) ?h = (?P @ ?h) @ replicate (k - 16) 0"
    using write_zeros [of ?h k ?P] k by simp
  have b: "write_at ((?P @ ?h) @ replicate (k - 16) 0) (length (?P @ ?h)) bs =
      (?P @ ?h) @ bs @ replicate (k - 16 - length bs) 0"
    using write_zeros [of bs "k - 16" "?P @ ?h"] k by simp
  let ?as = "as @ [(i, t, 0, bs)]"
  let ?tlv = "\<lparr>tlv_data = lay ?as @ replicate (k - 16 - length bs) 0, used = length (lay ?as)\<rparr>"
  have "osw_tlv_put_data tlv i t bs = (length ?P + 16, ?tlv)"
    using r h b by (simp add: osw_tlv_put_data_def osw_tlv_put_def Let_def lay_snoc)
  moreover have "tlv_rep ?as ?tlv" using k by (auto simp: tlv_rep_def lay_snoc)
  ultimately show thesis by (rule that)
qed

section \<open>Walking a layout\<close>

fun offs :: "nat \<Rightarrow> attr list \<Rightarrow> nat list" where
  "offs off [] = []"
| "offs off (a # as) = off # offs (off + OSW_TLV_ALIGN (16 + attr_len a)) as"

text \<open>The attribute whose header is at an offset.\<close>

definition attr_at :: "u8 list \<Rightarrow> nat \<Rightarrow> attr option" where
  "attr_at data h =
     map_option (\<lambda>hdr. (hdr_id hdr, hdr_type hdr, hdr_flags hdr, take (unat (hdr_len hdr)) (drop (h + 16) data)))
       (read_hdr data h)"

definition small :: "attr \<Rightarrow> bool" where
  "small a \<longleftrightarrow> attr_len a < 2 ^ 32"

lemma rd32_enc:
  shows "rd32 (A @ enc (i, t, f, bs) @ B) (length A) = Some i"
    "rd32 (A @ enc (i, t, f, bs) @ B) (length A + 4) = Some t"
    "rd32 (A @ enc (i, t, f, bs) @ B) (length A + 8) = Some (of_nat (length bs))"
    "rd32 (A @ enc (i, t, f, bs) @ B) (length A + 12) = Some f"
  using rd32_le32 [of "length A" A i "le32 t @ le32 (of_nat (length bs)) @ le32 f @ bs @ B"]
    rd32_le32 [of "length A + 4" "A @ le32 i" t "le32 (of_nat (length bs)) @ le32 f @ bs @ B"]
    rd32_le32 [of "length A + 8" "A @ le32 i @ le32 t" "of_nat (length bs)" "le32 f @ bs @ B"]
    rd32_le32 [of "length A + 12" "A @ le32 i @ le32 t @ le32 (of_nat (length bs))" f "bs @ B"]
  by simp_all

lemma read_hdr_enc:
  "read_hdr (A @ enc (i, t, f, bs) @ B) (length A) =
     Some \<lparr>hdr_id = i, hdr_type = t, hdr_len = of_nat (length bs), hdr_flags = f\<rparr>"
  by (simp only: read_hdr_def rd32_enc) simp

lemma attr_at_enc:
  "small a \<Longrightarrow> attr_at (A @ enc a @ B) (length A) = Some a"
  by (cases a rule: enc.cases)
    (simp add: attr_at_def read_hdr_enc small_def unat_of_nat del: enc.simps, simp)

lemma tlv_len_enc: "small a \<Longrightarrow> osw_tlv_len (A @ enc a @ B) (length A) = Some (16 + attr_len a)"
  by (cases a rule: enc.cases) (simp add: osw_tlv_len_def rd32_enc small_def unat_of_nat del: enc.simps)

text \<open>At the end of the attributes the loop still reads a length, 8 to 12 bytes past them.\<close>

definition slack :: "attr list \<Rightarrow> nat \<Rightarrow> bool" where
  "slack as n \<longleftrightarrow> 12 \<le> n \<or> (as \<noteq> [] \<and> \<not> 4 dvd attr_len (last as))"

lemma ok_past_end:
  "osw_tlv_ok (A @ B) (Some (length A)) 0 = (if 12 \<le> length B then Some False else None)"
  by (simp add: osw_tlv_ok_def osw_tlv_len_def rd32_def)

lemma for_each_end:
  "for_each_loop (A @ B) (Some (length A)) 0 = (if 12 \<le> length B then Some ([], 0) else None)"
  using ok_past_end [of A B] by (simp split: if_splits)

lemma for_each_step:
  "osw_tlv_len data h = Some n \<Longrightarrow> n \<le> rem \<Longrightarrow> osw_tlv_next data (Some h) rem = Some (i, rem') \<Longrightarrow>
     for_each_loop data (Some h) rem = map_option (apfst (\<lambda>hs. h # hs)) (for_each_loop data i rem')"
  by (simp add: osw_tlv_ok_def)

lemma for_each_lay:
  "\<forall>a\<in>set as. small a \<Longrightarrow> as \<noteq> [] \<Longrightarrow> 4 dvd length A \<Longrightarrow>
     for_each_loop (A @ lay as @ B) (Some (length A)) (length (lay as)) =
       (if slack as (length B) then Some (offs (length A) as, 0) else None)"
proof (induction as arbitrary: A rule: lay.induct)
  case (2 a)
  have a: "small a" using 2 by simp
  note l = tlv_len_enc [OF a, of A B]
  show ?case
  proof (cases "4 dvd attr_len a")
    case True
    have "for_each_loop (A @ enc a @ B) (Some (length A + (16 + attr_len a))) 0 =
        (if 12 \<le> length B then Some ([], 0) else None)"
      using for_each_end [of "A @ enc a" B] by simp
    moreover have "osw_tlv_next (A @ enc a @ B) (Some (length A)) (16 + attr_len a) =
        Some (Some (length A + (16 + attr_len a)), 0)"
      using l True by (simp add: osw_tlv_next_def Let_def)
    note for_each_step [OF l order_refl this]
    ultimately show ?thesis
      using True by (simp add: slack_def del: for_each_loop.simps)
  next
    case False
    then have "OSW_TLV_ALIGN (16 + attr_len a) \<noteq> 16 + attr_len a"
      unfolding OSW_TLV_ALIGN_def by presburger
    then have "OSW_TLV_ALIGN (16 + attr_len a) > 16 + attr_len a"
      using align_bounds [of "16 + attr_len a"] by linarith
    then have "osw_tlv_next (A @ enc a @ B) (Some (length A)) (16 + attr_len a) = Some (None, 0)"
      using l by (simp add: osw_tlv_next_def Let_def)
    from for_each_step [OF l order_refl this] show ?thesis
      using False by (simp add: slack_def del: for_each_loop.simps(2))
  qed
next
  case (3 a b as)
  have a: "small a" using 3 by simp
  let ?A = "A @ pad4 (enc a)" and ?n = "OSW_TLV_ALIGN (16 + attr_len a)"
  have n: "16 + attr_len a \<le> ?n" "4 dvd ?n" using align_bounds [of "16 + attr_len a"] by auto
  have l: "osw_tlv_len (A @ lay (a # b # as) @ B) (length A) = Some (16 + attr_len a)"
    using tlv_len_enc [OF a, of A "replicate (?n - (16 + attr_len a)) 0 @ lay (b # as) @ B"]
    by (simp add: pad4_def)
  have IH: "for_each_loop (?A @ lay (b # as) @ B) (Some (length ?A)) (length (lay (b # as))) =
      (if slack (b # as) (length B) then Some (offs (length ?A) (b # as), 0) else None)"
    using 3 n by (intro "3.IH") auto
  have "osw_tlv_next (A @ lay (a # b # as) @ B) (Some (length A)) (length (lay (a # b # as))) =
      Some (Some (length ?A), length (lay (b # as)))"
    using l n by (simp add: osw_tlv_next_def Let_def)
  note step = for_each_step [OF l _ this]
  have "for_each_loop (A @ lay (a # b # as) @ B) (Some (length A)) (length (lay (a # b # as))) =
      map_option (apfst (\<lambda>hs. length A # hs))
        (for_each_loop (A @ lay (a # b # as) @ B) (Some (length ?A)) (length (lay (b # as))))"
    using n by (intro step) simp
  then show ?case using IH by (simp add: slack_def del: for_each_loop.simps)
qed simp

lemma attr_at_offs:
  "\<forall>a\<in>set as. small a \<Longrightarrow> 4 dvd length A \<Longrightarrow>
     map (attr_at (A @ lay as @ B)) (offs (length A) as) = map Some as"
proof (induction as arbitrary: A rule: lay.induct)
  case (2 a)
  then show ?case using attr_at_enc [of a A B] by simp
next
  case (3 a b as)
  let ?A = "A @ pad4 (enc a)" and ?n = "OSW_TLV_ALIGN (16 + attr_len a)"
  have n: "16 + attr_len a \<le> ?n" "4 dvd ?n" using align_bounds [of "16 + attr_len a"] by auto
  have "attr_at (A @ lay (a # b # as) @ B) (length A) = Some a"
    using attr_at_enc [of a A "replicate (?n - (16 + attr_len a)) 0 @ lay (b # as) @ B"] 3
    by (simp add: pad4_def)
  moreover have "map (attr_at (?A @ lay (b # as) @ B)) (offs (length ?A) (b # as)) =
      map Some (b # as)"
    using 3 n by (intro "3.IH") auto
  ultimately show ?case by simp
qed simp

section \<open>Nested attributes and flags\<close>

lemma write_field: "write_at (P @ le32 x @ S) (length P) (le32 y) = P @ le32 y @ S"
  by (simp add: write_at_def)

lemma lay_nested:
  "lay (as @ (i, t, f, []) # inner) = pad4 (lay as) @ enc (i, t, f, []) @ lay inner"
proof -
  have "pad4 (enc (i, t, f, [])) = enc (i, t, f, [])" by (simp add: pad4_def)
  then have "lay ((i, t, f, []) # inner) = enc (i, t, f, []) @ lay inner"
    by (cases inner) (simp_all del: enc.simps)
  then show ?thesis by (simp add: lay_append)
qed

lemma end_nested_rep:
  assumes "tlv_rep (as @ (i, t, f, []) # inner) tlv"
  obtains tlv' where "osw_tlv_end_nested tlv (length (pad4 (lay as)) + 16) = Some tlv'"
    and "tlv_rep (as @ [(i, t, f, lay inner)]) tlv'" and "length (tlv_data tlv') = length (tlv_data tlv)"
proof -
  let ?P = "pad4 (lay as)" and ?n = "length (lay inner)"
  obtain k where d: "tlv_data tlv = ?P @ enc (i, t, f, []) @ lay inner @ replicate k 0"
    and u: "used tlv = length ?P + (16 + ?n)" and dvd: "4 dvd length ?P + (16 + (?n + k))"
    using assms by (auto simp: tlv_rep_def lay_nested simp del: enc.simps)
  have al: "(length ?P + 16) mod 4 = 0" using align_bounds [of "length (lay as)"] by auto
  have "write_at (tlv_data tlv) (length ?P + 8) (le32 (of_nat ?n)) =
      (?P @ le32 i @ le32 t) @ le32 (of_nat ?n) @ le32 f @ lay inner @ replicate k 0"
    using write_field [of "?P @ le32 i @ le32 t" 0 "le32 f @ lay inner @ replicate k 0" "of_nat ?n"] d by simp
  then have "osw_tlv_end_nested tlv (length ?P + 16) =
      Some \<lparr>tlv_data = lay (as @ [(i, t, f, lay inner)]) @ replicate k 0, used = used tlv\<rparr>"
    using al d u by (simp add: osw_tlv_end_nested_def lay_snoc)
  moreover have "tlv_rep (as @ [(i, t, f, lay inner)])
      \<lparr>tlv_data = lay (as @ [(i, t, f, lay inner)]) @ replicate k 0, used = used tlv\<rparr>"
    using u dvd by (auto simp: tlv_rep_def lay_snoc add.assoc)
  moreover have "length (lay (as @ [(i, t, f, lay inner)]) @ replicate k 0) = length (tlv_data tlv)"
    using d by (simp add: lay_snoc)
  ultimately show thesis
    by (intro that [of "\<lparr>tlv_data = lay (as @ [(i, t, f, lay inner)]) @ replicate k 0, used = used tlv\<rparr>"]) simp_all
qed

lemma set_flags_rep:
  assumes "tlv_rep (as @ [(i, t, f, bs)]) tlv"
  obtains tlv' where "osw_tlv_set_flags tlv (length (pad4 (lay as)) + 16) f' = Some tlv'"
    and "tlv_rep (as @ [(i, t, f', bs)]) tlv'"
proof -
  let ?P = "pad4 (lay as)"
  obtain k where d: "tlv_data tlv = ?P @ enc (i, t, f, bs) @ replicate k 0"
    and u: "used tlv = length ?P + (16 + length bs)" and dvd: "4 dvd length ?P + (16 + length bs + k)"
    using assms by (auto simp: tlv_rep_def lay_snoc simp del: enc.simps)
  have al: "(length ?P + 16) mod 4 = 0" using align_bounds [of "length (lay as)"] by auto
  let ?h = "?P @ le32 i @ le32 t @ le32 (of_nat (length bs))"
  have "write_at (tlv_data tlv) (length ?P + 12) (le32 f') = ?h @ le32 f' @ bs @ replicate k 0"
    using write_field [of ?h f "bs @ replicate k 0" f'] d by simp
  then have "osw_tlv_set_flags tlv (length ?P + 16) f' =
      Some \<lparr>tlv_data = lay (as @ [(i, t, f', bs)]) @ replicate k 0, used = used tlv\<rparr>"
    using al d u by (simp add: osw_tlv_set_flags_def lay_snoc)
  moreover have "tlv_rep (as @ [(i, t, f', bs)])
      \<lparr>tlv_data = lay (as @ [(i, t, f', bs)]) @ replicate k 0, used = used tlv\<rparr>"
    using u dvd by (auto simp: tlv_rep_def lay_snoc add.assoc)
  ultimately show thesis by (rule that)
qed

section \<open>Walking what was built\<close>

lemma tlv_rep_new: "tlv_rep [] osw_tlv_new"
  by (simp add: tlv_rep_def osw_tlv_new_def)

lemma put_data_size:
  assumes "tlv_rep as tlv" "length (tlv_data tlv) < 2 ^ 64"
  shows "length (tlv_data (snd (osw_tlv_put_data tlv i t x))) \<le> length (tlv_data tlv) + length x + 8192"
proof -
  let ?g = "osw_tlv_grow tlv (16 + length x)"
  have g: "length (tlv_data ?g) \<le> length (tlv_data tlv) + length x + 8192"
    using align_bounds [of "16 + length x + OSW_TLV_TAILROOM"]
    by (simp add: osw_tlv_grow_def Let_def OSW_TLV_TAILROOM_def)
  obtain k where r: "osw_tlv_reserve tlv (16 + length x) =
      (length (pad4 (lay as)), \<lparr>tlv_data = pad4 (lay as) @ replicate k 0, used = length (pad4 (lay as)) + (16 + length x)\<rparr>)"
    and k: "16 + length x \<le> k"
    using reserve_zeros [OF assms, of "16 + length x"] by blast
  then have "tlv_data ?g = pad4 (lay as) @ replicate k 0"
    by (cases ?g) (simp add: osw_tlv_reserve_def Let_def)
  with g r k show ?thesis
    by (simp add: osw_tlv_put_data_def osw_tlv_put_def Let_def write_at_def)
qed

text \<open>Attributes put one after another.\<close>

fun put_list :: "(u32 \<times> u32 \<times> u8 list) list \<Rightarrow> osw_tlv \<Rightarrow> osw_tlv" where
  "put_list [] tlv = tlv"
| "put_list ((i, t, x) # ps) tlv = put_list ps (snd (osw_tlv_put_data tlv i t x))"

abbreviation flagless :: "u32 \<times> u32 \<times> u8 list \<Rightarrow> attr" where
  "flagless p \<equiv> (case p of (i, t, x) \<Rightarrow> (i, t, 0, x))"

fun put_bytes :: "(u32 \<times> u32 \<times> u8 list) list \<Rightarrow> nat" where
  "put_bytes [] = 0"
| "put_bytes ((i, t, x) # ps) = length x + 8192 + put_bytes ps"

lemma put_list_rep:
  "tlv_rep as tlv \<Longrightarrow> length (tlv_data tlv) + put_bytes ps < 2 ^ 64 \<Longrightarrow>
     tlv_rep (as @ map flagless ps) (put_list ps tlv) \<and>
     length (tlv_data (put_list ps tlv)) \<le> length (tlv_data tlv) + put_bytes ps"
proof (induction ps arbitrary: as tlv rule: put_bytes.induct)
  case (2 i t x ps)
  have s: "length (tlv_data tlv) < 2 ^ 64" using 2 by simp
  obtain tlv' where p: "osw_tlv_put_data tlv i t x = (length (pad4 (lay as)) + 16, tlv')"
    and r: "tlv_rep (as @ [(i, t, 0, x)]) tlv'"
    by (rule put_data_rep [OF 2(2) s])
  have "length (tlv_data tlv') \<le> length (tlv_data tlv) + length x + 8192"
    using put_data_size [OF 2(2) s, of i t x] p by simp
  then show ?case using 2(1) [OF r] 2(3) p by simp
qed simp

lemma for_each_at:
  assumes "as \<noteq> []" "\<forall>a\<in>set as. small a" "4 dvd length A"
  shows "osw_tlv_for_each (A @ lay as @ B) (Some (length A)) (length (lay as)) =
           (if slack as (length B) then Some (offs (length A) as, 0) else None)"
proof -
  obtain a as' where as: "as = a # as'" using assms(1) by (cases as) auto
  obtain R where R: "lay as = enc a @ R"
    by (cases as') (auto simp: as pad4_def)
  have sa: "small a" using assms(2) as by simp
  have "osw_tlv_ok (A @ lay as @ B) (Some (length A)) (length (lay as)) = Some True"
    using tlv_len_enc [OF sa, of A "R @ B"] by (simp add: R osw_tlv_ok_def)
  then show ?thesis
    using for_each_lay [OF assms(2,1,3), of B] by (simp add: osw_tlv_for_each_def del: for_each_loop.simps)
qed

lemma for_each_rep:
  assumes "tlv_rep as tlv" "as \<noteq> []" "\<forall>a\<in>set as. small a"
  shows "osw_tlv_for_each (tlv_data tlv) (tlv_head tlv) (used tlv) =
           (if slack as (length (tlv_data tlv) - used tlv) then Some (offs 0 as, 0) else None)"
    and "map (attr_at (tlv_data tlv)) (offs 0 as) = map Some as"
proof -
  obtain k where d: "tlv_data tlv = lay as @ replicate k 0" and u: "used tlv = length (lay as)"
    using assms by (auto simp: tlv_rep_def)
  have "tlv_head tlv = Some 0" using lay_nonempty [OF assms(2)] d by (auto simp: tlv_head_def)
  then show "osw_tlv_for_each (tlv_data tlv) (tlv_head tlv) (used tlv) =
      (if slack as (length (tlv_data tlv) - used tlv) then Some (offs 0 as, 0) else None)"
    using for_each_at [OF assms(2,3), of "[]" "replicate k 0"] d u by simp
  show "map (attr_at (tlv_data tlv)) (offs 0 as) = map Some as"
    using attr_at_offs [OF assms(3), of "[]" "replicate k 0"] d by simp
qed

text \<open>A buffer that is filled to its last byte: no data at first and then 4080 bytes of data.\<close>

lemma full_buffer_faults:
  assumes "tlv = put_list [(0, 0, []), (1, 0, replicate 4080 x)] osw_tlv_new"
  shows "osw_tlv_for_each (tlv_data tlv) (tlv_head tlv) (used tlv) = None"
proof -
  have "length (tlv_data tlv) = used tlv"
    by (simp add: assms osw_tlv_put_data_def osw_tlv_put_def osw_tlv_reserve_def osw_tlv_grow_def osw_tlv_new_def
        size_t_sub_def write_at_def OSW_TLV_TAILROOM_def Let_def)
  moreover have "tlv_rep [(0, 0, 0, []), (1, 0, 0, replicate 4080 x)] tlv"
    using put_list_rep [OF tlv_rep_new, of "[(0, 0, []), (1, 0, replicate 4080 x)]"] assms
    by (simp add: osw_tlv_new_def)
  ultimately show ?thesis using for_each_rep(1) by (simp add: slack_def small_def)
qed

text \<open>
  C24. Attributes put one after another into an empty buffer are what a walk over the buffer visits: in
  order, each with its number, type and data. The walk goes on to the length of an attribute after the
  last one, so that this holds only when 12 more bytes are allocated or the last data is not a
  multiple of four long; otherwise the walk reads outside the buffer.
\<close>

theorem osw_tlv_put_roundtrip:
  assumes "ps \<noteq> []" "\<forall>p\<in>set ps. small (flagless p)" "put_bytes ps < 2 ^ 64"
    and "tlv = put_list ps osw_tlv_new"
  shows "if 12 \<le> length (tlv_data tlv) - used tlv \<or> \<not> 4 dvd attr_len (flagless (last ps))
         then \<exists>hs. osw_tlv_for_each (tlv_data tlv) (tlv_head tlv) (used tlv) = Some (hs, 0) \<and>
           map (attr_at (tlv_data tlv)) hs = map (\<lambda>p. Some (flagless p)) ps
         else osw_tlv_for_each (tlv_data tlv) (tlv_head tlv) (used tlv) = None"
proof -
  have "length (tlv_data osw_tlv_new) + put_bytes ps < 2 ^ 64" using assms(3) by (simp add: osw_tlv_new_def)
  then have r: "tlv_rep (map flagless ps) tlv" using put_list_rep [OF tlv_rep_new] assms(4) by simp
  have "map flagless ps \<noteq> []" "\<forall>a\<in>set (map flagless ps). small a" using assms(1,2) by auto
  note w = for_each_rep [OF r this]
  have "map (attr_at (tlv_data tlv)) (offs 0 (map flagless ps)) = map (\<lambda>p. Some (flagless p)) ps"
    using w(2) by simp
  with w(1) show ?thesis using assms(1) by (simp add: slack_def last_map)
qed

theorem osw_tlv_put_roundtrip_witness:
  "\<exists>hs. osw_tlv_for_each (tlv_data (put_list [(3, 1, le32 7), (9, 3, [104, 105, 0])] osw_tlv_new))
      (tlv_head (put_list [(3, 1, le32 7), (9, 3, [104, 105, 0])] osw_tlv_new))
      (used (put_list [(3, 1, le32 7), (9, 3, [104, 105, 0])] osw_tlv_new)) = Some (hs, 0) \<and>
    map (attr_at (tlv_data (put_list [(3, 1, le32 7), (9, 3, [104, 105, 0])] osw_tlv_new))) hs =
      [Some (3, 1, 0, le32 7), Some (9, 3, 0, [104, 105, 0])]"
proof -
  have "\<not> 4 dvd Suc (Suc (Suc 0))" by presburger
  then show ?thesis
    using osw_tlv_put_roundtrip [of "[(3, 1, le32 7), (9, 3, [104, 105, 0])]", OF _ _ _ refl]
    by (simp add: small_def del: put_list.simps)
qed

lemma put_nested_empty:
  "osw_tlv_put_nested tlv i = osw_tlv_put_data tlv i (tlv_type_num OSW_TLV_NESTED) []"
  by (simp add: osw_tlv_put_nested_def osw_tlv_put_off_def osw_tlv_put_data_def osw_tlv_put_def Let_def write_at_def
      split: prod.splits)

lemma nested_rep:
  assumes "put_bytes ps + put_bytes qs + 8192 < 2 ^ 32"
    and "osw_tlv_put_nested (put_list ps osw_tlv_new) i = (off, tlv)"
  obtains tlv' where "off = length (pad4 (lay (map flagless ps))) + 16"
    and "osw_tlv_end_nested (put_list qs tlv) off = Some tlv'"
    and "tlv_rep (map flagless ps @ [(i, tlv_type_num OSW_TLV_NESTED, 0, lay (map flagless qs))]) tlv'"
    and "length (tlv_data tlv') < 2 ^ 32"
proof -
  let ?ps = "map flagless ps" and ?qs = "map flagless qs" and ?N = "tlv_type_num OSW_TLV_NESTED"
  let ?t0 = "put_list ps osw_tlv_new"
  have t0: "tlv_rep ?ps ?t0" "length (tlv_data ?t0) \<le> put_bytes ps"
    using put_list_rep [OF tlv_rep_new, of ps] assms(1) by (simp_all add: osw_tlv_new_def)
  then have s0: "length (tlv_data ?t0) < 2 ^ 64" using assms(1) by simp
  have p: "osw_tlv_put_data ?t0 i ?N [] = (off, tlv)" using put_nested_empty [of ?t0 i] assms(2) by simp
  from put_data_rep [OF t0(1) s0, of i ?N "[]"]
  have off: "off = length (pad4 (lay ?ps)) + 16" and r1: "tlv_rep (?ps @ [(i, ?N, 0, [])]) tlv"
    unfolding p by blast+
  have s1: "length (tlv_data tlv) \<le> put_bytes ps + 8192"
    using put_data_size [OF t0(1) s0, of i ?N "[]"] t0(2) unfolding p by simp
  have r2: "tlv_rep (?ps @ (i, ?N, 0, []) # ?qs) (put_list qs tlv)"
    and s2: "length (tlv_data (put_list qs tlv)) \<le> put_bytes ps + put_bytes qs + 8192"
    using put_list_rep [OF r1, of qs] s1 assms(1) by simp_all
  from r2 obtain tlv' where e: "osw_tlv_end_nested (put_list qs tlv) off = Some tlv'"
    and r: "tlv_rep (?ps @ [(i, ?N, 0, lay ?qs)]) tlv'"
    and l: "length (tlv_data tlv') = length (tlv_data (put_list qs tlv))"
    unfolding off by (rule end_nested_rep)
  have "length (tlv_data tlv') < 2 ^ 32" using l s2 assms(1) by simp
  from that [OF off e r this] show thesis .
qed



section \<open>Walking arbitrary bytes\<close>

lemma rd32_in: "off + 4 \<le> length data \<Longrightarrow> \<exists>x. rd32 data off = Some x"
  by (simp add: rd32_def)

lemma for_each_loop_within:
  "h + rem + 12 \<le> length data \<Longrightarrow>
     \<exists>hs rem'. for_each_loop data (Some h) rem = Some (hs, rem') \<and>
       (\<forall>x\<in>set hs. h \<le> x \<and> (\<exists>n. osw_tlv_len data x = Some n \<and> x + n \<le> h + rem))"
proof (induction rem arbitrary: h rule: less_induct)
  case (less rem)
  obtain n where n: "osw_tlv_len data h = Some n" "16 \<le> n"
    using rd32_in [of "h + 8" data] less.prems by (auto simp: osw_tlv_len_def)
  show ?case
  proof (cases "n \<le> rem")
    case False
    then show ?thesis using n by (simp add: osw_tlv_ok_def)
  next
    case True
    let ?pad = "OSW_TLV_ALIGN n - n"
    show ?thesis
    proof (cases "?pad \<le> rem - n")
      case False
      then have "osw_tlv_next data (Some h) rem = Some (None, rem - n)"
        using n True by (simp add: osw_tlv_next_def Let_def)
      from for_each_step [OF n(1) True this] show ?thesis
        using n(1) True by (intro exI [of _ "[h]"] exI [of _ "rem - n"]) simp
    next
      case pad: True
      then have nx: "osw_tlv_next data (Some h) rem = Some (Some (h + n + ?pad), rem - n - ?pad)"
        using n True by (simp add: osw_tlv_next_def Let_def)
      have "rem - n - ?pad < rem" "h + n + ?pad + (rem - n - ?pad) + 12 \<le> length data"
        "h + n + ?pad + (rem - n - ?pad) = h + rem"
        using n True pad less.prems by simp_all
      from less.IH [OF this(1,2)] this(3) obtain hs rem'
        where "for_each_loop data (Some (h + n + ?pad)) (rem - n - ?pad) = Some (hs, rem')"
          and hs: "\<forall>x\<in>set hs. h + n + ?pad \<le> x \<and> (\<exists>n. osw_tlv_len data x = Some n \<and> x + n \<le> h + rem)"
        by auto
      with for_each_step [OF n(1) True nx]
      have "for_each_loop data (Some h) rem = Some (h # hs, rem')" by simp
      moreover have "\<forall>x\<in>set (h # hs). h \<le> x \<and> (\<exists>n. osw_tlv_len data x = Some n \<and> x + n \<le> h + rem)"
        using hs n(1) True by auto
      ultimately show ?thesis by blast
    qed
  qed
qed

text \<open>The headers that \<open>osw_tlv_parse\<close> stores at a number.\<close>

definition accepts :: "u8 list \<Rightarrow> osw_tlv_policy list option \<Rightarrow> nat \<Rightarrow> nat \<Rightarrow> bool" where
  "accepts data policy i x =
     (case read_hdr data x of
        None \<Rightarrow> False
      | Some hdr \<Rightarrow> unat (hdr_id hdr) = i \<and> osw_tlv_policy_ok hdr policy = Some True)"

definition covers :: "osw_tlv_policy list option \<Rightarrow> nat \<Rightarrow> bool" where
  "covers policy n = (case policy of None \<Rightarrow> True | Some ps \<Rightarrow> n \<le> length ps)"

lemma policy_ok_covers:
  "covers policy n \<Longrightarrow> unat (hdr_id hdr) < n \<Longrightarrow> \<exists>ok. osw_tlv_policy_ok hdr policy = Some ok"
  by (auto simp: osw_tlv_policy_ok_def covers_def Let_def split: option.splits)

lemma parse_body_step:
  assumes "covers policy (length tb)" "read_hdr data x \<noteq> None"
  shows "\<exists>tb'. parse_body data policy x (Some tb) = Some tb' \<and> length tb' = length tb \<and>
    (\<forall>i<length tb. tb' ! i = (if accepts data policy i x then Some x else tb ! i))"
proof -
  obtain hdr where h: "read_hdr data x = Some hdr" using assms(2) by auto
  show ?thesis
  proof (cases "unat (hdr_id hdr) < length tb")
    case True
    then obtain ok where "osw_tlv_policy_ok hdr policy = Some ok" using policy_ok_covers [OF assms(1)] by auto
    then show ?thesis using h True by (auto simp: parse_body_def accepts_def)
  next
    case False
    then show ?thesis using h by (auto simp: parse_body_def accepts_def)
  qed
qed

lemma parse_fold:
  "covers policy (length tb) \<Longrightarrow> \<forall>x\<in>set hs. read_hdr data x \<noteq> None \<Longrightarrow>
     \<exists>tb'. fold (parse_body data policy) hs (Some tb) = Some tb' \<and> length tb' = length tb \<and>
       (\<forall>i<length tb. tb' ! i =
          (case rev (filter (accepts data policy i) hs) of [] \<Rightarrow> tb ! i | x # _ \<Rightarrow> Some x))"
proof (induction hs arbitrary: tb)
  case (Cons x hs)
  then obtain tb1 where b: "parse_body data policy x (Some tb) = Some tb1" "length tb1 = length tb"
    and t1: "\<forall>i<length tb. tb1 ! i = (if accepts data policy i x then Some x else tb ! i)"
    using parse_body_step [of policy tb data x] by auto
  obtain tb' where f: "fold (parse_body data policy) hs (Some tb1) = Some tb'" "length tb' = length tb1"
    and t': "\<forall>i<length tb1. tb' ! i =
      (case rev (filter (accepts data policy i) hs) of [] \<Rightarrow> tb1 ! i | x # _ \<Rightarrow> Some x)"
    using Cons.IH [of tb1] Cons.prems b(2) by auto
  show ?case
  proof (intro exI conjI allI impI)
    show "fold (parse_body data policy) (x # hs) (Some tb) = Some tb'" using b f by simp
    show "length tb' = length tb" using b f by simp
    fix i assume "i < length tb"
    then show "tb' ! i = (case rev (filter (accepts data policy i) (x # hs)) of [] \<Rightarrow> tb ! i | x # _ \<Rightarrow> Some x)"
      using t1 t' b(2) by (cases "rev (filter (accepts data policy i) hs)") auto
  qed
qed simp

lemma read_hdr_in: "h + 16 \<le> length data \<Longrightarrow> read_hdr data h \<noteq> None"
  using rd32_in [of h data] rd32_in [of "h + 4" data] rd32_in [of "h + 8" data] rd32_in [of "h + 12" data]
  by (auto simp: read_hdr_def)

definition has_id :: "u8 list \<Rightarrow> u32 \<Rightarrow> nat \<Rightarrow> bool" where
  "has_id data i x = (case read_hdr data x of None \<Rightarrow> False | Some hdr \<Rightarrow> hdr_id hdr = i)"

lemma find_loop_first:
  "for_each_loop data h rem = Some (hs, rem') \<Longrightarrow> \<forall>x\<in>set hs. read_hdr data x \<noteq> None \<Longrightarrow>
     find_loop data h rem i = Some (List.find (has_id data i) hs)"
  by (induction data h rem i arbitrary: hs rule: find_loop.induct)
    (auto simp: has_id_def split: option.splits bool.splits prod.splits)

text \<open>
  C26. Parsing bytes from anywhere is safe when the 12 bytes after them are allocated: the walk ends
  inside them, each header it visits and its data lie between the start and the end, and
  \<open>osw_tlv_parse\<close> fills each element of the table with the last header of that number which the policy
  accepts, and leaves it as it was when there is none; \<open>osw_tlv_find\<close> returns the first header of a
  number.
\<close>

theorem osw_tlv_parse_correct:
  assumes "h + len + 12 \<le> length data" "covers policy (length tb)"
  shows "\<exists>hs rem tb'. osw_tlv_for_each data (Some h) len = Some (hs, rem) \<and>
    (\<forall>x\<in>set hs. h \<le> x \<and> (\<exists>n. osw_tlv_len data x = Some n \<and> x + n \<le> h + len)) \<and>
    osw_tlv_parse data (Some h) len policy tb = Some (tb', rem) \<and> length tb' = length tb \<and>
    (\<forall>i<length tb. tb' ! i =
       (case rev (filter (accepts data policy i) hs) of [] \<Rightarrow> tb ! i | x # _ \<Rightarrow> Some x)) \<and>
    osw_tlv_find data (Some h) len k = Some (List.find (has_id data k) hs)"
proof -
  obtain ok where ok: "osw_tlv_ok data (Some h) len = Some ok"
    using rd32_in [of "h + 8" data] assms(1) by (auto simp: osw_tlv_ok_def osw_tlv_len_def)
  obtain hs rem where w: "osw_tlv_for_each data (Some h) len = Some (hs, rem)"
    and hs: "\<forall>x\<in>set hs. h \<le> x \<and> (\<exists>n. osw_tlv_len data x = Some n \<and> x + n \<le> h + len)"
    using for_each_loop_within [OF assms(1)] ok
    by (cases ok) (auto simp: osw_tlv_for_each_def simp del: for_each_loop.simps(2))
  have rd: "read_hdr data x \<noteq> None" if "x \<in> set hs" for x
  proof -
    obtain n where n: "osw_tlv_len data x = Some n" "x + n \<le> h + len" using hs \<open>x \<in> set hs\<close> by auto
    then have "16 \<le> n" by (auto simp: osw_tlv_len_def)
    then show ?thesis using n assms(1) by (intro read_hdr_in) simp
  qed
  then obtain tb' where t: "fold (parse_body data policy) hs (Some tb) = Some tb'" "length tb' = length tb"
    and "\<forall>i<length tb. tb' ! i =
       (case rev (filter (accepts data policy i) hs) of [] \<Rightarrow> tb ! i | x # _ \<Rightarrow> Some x)"
    using parse_fold [OF assms(2), of hs data] by blast
  moreover have "for_each_loop data (if ok then Some h else None) len = Some (hs, rem)"
    using w ok by (simp add: osw_tlv_for_each_def del: for_each_loop.simps)
  then have "osw_tlv_find data (Some h) len k = Some (List.find (has_id data k) hs)"
    using find_loop_first [of data "if ok then Some h else None" len hs rem k] rd ok
    by (simp add: osw_tlv_find_def del: find_loop.simps for_each_loop.simps)
  moreover have "osw_tlv_parse data (Some h) len policy tb = Some (tb', rem)"
    using w t by (simp add: osw_tlv_parse_def)
  ultimately show ?thesis using w hs by blast
qed

theorem osw_tlv_parse_correct_witness:
  "\<exists>tb' rem hs. osw_tlv_parse (enc (1, 1, 0, le32 5) @ enc (1, 1, 0, le32 6) @ replicate 12 9) (Some 0) 40
      (Some (replicate 2 \<lparr>policy_type = OSW_TLV_U32, min_len = 0, max_len = 0\<rparr>)) [None, None] = Some (tb', rem) \<and>
    length tb' = 2 \<and>
    osw_tlv_find (enc (1, 1, 0, le32 5) @ enc (1, 1, 0, le32 6) @ replicate 12 9) (Some 0) 40 1 =
      Some (List.find (has_id (enc (1, 1, 0, le32 5) @ enc (1, 1, 0, le32 6) @ replicate 12 9) 1) hs)"
  using osw_tlv_parse_correct [of 0 40 "enc (1, 1, 0, le32 5) @ enc (1, 1, 0, le32 6) @ replicate 12 9"
      "Some (replicate 2 \<lparr>policy_type = OSW_TLV_U32, min_len = 0, max_len = 0\<rparr>)" "[None, None]" 1]
  by (auto simp: covers_def simp del: enc.simps)

end
