(* ===== verification/Jhash.thy ===== *)
theory Jhash
  imports Bytes
begin

text \<open>
  The hash functions of \<open>src/src/lib/nfe/inc/jhash.h\<close>. The key is the list of the bytes (or words)
  that \<open>length\<close> counts. The general version works on bytes, the optimised one on 32-bit words.
\<close>

definition JHASH_GOLDEN_RATIO :: u32 where
  "JHASH_GOLDEN_RATIO = 0x9e3779b9"

definition jhash_mix :: "u32 \<times> u32 \<times> u32 \<Rightarrow> u32 \<times> u32 \<times> u32" where
  "jhash_mix s =
     (let (a, b, c) = s;
          a = (a - b - c) XOR drop_bit 13 c;
          b = (b - c - a) XOR push_bit 8 a;
          c = (c - a - b) XOR drop_bit 13 b;
          a = (a - b - c) XOR drop_bit 12 c;
          b = (b - c - a) XOR push_bit 16 a;
          c = (c - a - b) XOR drop_bit 5 b;
          a = (a - b - c) XOR drop_bit 3 c;
          b = (b - c - a) XOR push_bit 10 a;
          c = (c - a - b) XOR drop_bit 15 b
      in (a, b, c))"

definition byte_at :: "u8 list \<Rightarrow> nat \<Rightarrow> nat \<Rightarrow> u32" where
  "byte_at k i sh = push_bit sh (ucast (k ! i))"

text \<open>The loop over blocks of twelve bytes, and the state and the bytes it leaves.\<close>

function jhash_loop :: "u8 list \<Rightarrow> u32 \<times> u32 \<times> u32 \<Rightarrow> u8 list \<times> (u32 \<times> u32 \<times> u32)" where
  "jhash_loop k (a, b, c) =
     (if length k \<ge> 12 then
        jhash_loop (drop 12 k)
          (jhash_mix (a + (byte_at k 0 0 + byte_at k 1 8 + byte_at k 2 16 + byte_at k 3 24),
                      b + (byte_at k 4 0 + byte_at k 5 8 + byte_at k 6 16 + byte_at k 7 24),
                      c + (byte_at k 8 0 + byte_at k 9 8 + byte_at k 10 16 + byte_at k 11 24)))
      else (k, (a, b, c)))"
  by pat_completeness auto

termination
  by (relation "measure (\<lambda>(k, s). length k)") auto

text \<open>A case label of the final switch is passed when at least that many bytes are left.\<close>

definition tail_byte :: "u8 list \<Rightarrow> nat \<Rightarrow> nat \<Rightarrow> u32" where
  "tail_byte k i sh = (if i < length k then byte_at k i sh else 0)"

definition jhash :: "u8 list \<Rightarrow> u32 \<Rightarrow> u32" where
  "jhash key initval =
     (let (k, (a, b, c)) = jhash_loop key (JHASH_GOLDEN_RATIO, JHASH_GOLDEN_RATIO, initval);
          c = c + of_nat (length key);
          c = c + tail_byte k 10 24 + tail_byte k 9 16 + tail_byte k 8 8;
          b = b + tail_byte k 7 24 + tail_byte k 6 16 + tail_byte k 5 8 + tail_byte k 4 0;
          a = a + tail_byte k 3 24 + tail_byte k 2 16 + tail_byte k 1 8 + tail_byte k 0 0
      in snd (snd (jhash_mix (a, b, c))))"

fun jhash2_loop :: "u32 list \<Rightarrow> u32 \<times> u32 \<times> u32 \<Rightarrow> u32 list \<times> (u32 \<times> u32 \<times> u32)" where
  "jhash2_loop (k0 # k1 # k2 # k) (a, b, c) = jhash2_loop k (jhash_mix (a + k0, b + k1, c + k2))"
| "jhash2_loop k s = (k, s)"

definition jhash2 :: "u32 list \<Rightarrow> u32 \<Rightarrow> u32" where
  "jhash2 key initval =
     (let (k, (a, b, c)) = jhash2_loop key (JHASH_GOLDEN_RATIO, JHASH_GOLDEN_RATIO, initval);
          c = c + of_nat (length key) * 4;
          (a, b) = (case k of
                      [k0, k1] \<Rightarrow> (a + k0, b + k1)
                    | [k0] \<Rightarrow> (a + k0, b)
                    | _ \<Rightarrow> (a, b))
      in snd (snd (jhash_mix (a, b, c))))"

definition jhash_3words :: "u32 \<Rightarrow> u32 \<Rightarrow> u32 \<Rightarrow> u32 \<Rightarrow> u32" where
  "jhash_3words a b c initval =
     snd (snd (jhash_mix (a + JHASH_GOLDEN_RATIO, b + JHASH_GOLDEN_RATIO, c + initval)))"

definition jhash_2words :: "u32 \<Rightarrow> u32 \<Rightarrow> u32 \<Rightarrow> u32" where
  "jhash_2words a b initval = jhash_3words a b 0 initval"

definition jhash_1word :: "u32 \<Rightarrow> u32 \<Rightarrow> u32" where
  "jhash_1word a initval = jhash_3words a 0 0 initval"

section \<open>The optimised version hashes the bytes of its words\<close>

lemma word_bytes:
  "byte_at (le32 w @ k) 0 0 + byte_at (le32 w @ k) 1 8 + byte_at (le32 w @ k) 2 16 + byte_at (le32 w @ k) 3 24 = w"
  using shifted_bytes_eq_of_le32 [of "le32 w @ k"] by (simp add: byte_at_def)

lemma byte_at_skip: "4 \<le> i \<Longrightarrow> byte_at (le32 w @ k) i sh = byte_at k (i - 4) sh"
  by (simp add: byte_at_def nth_append)

lemma byte_at_blocks:
  fixes w0 w1 w2 :: u32 and k :: "u8 list"
  defines "K \<equiv> le32 w0 @ le32 w1 @ le32 w2 @ k"
  shows "byte_at K 0 0 + byte_at K 1 8 + byte_at K 2 16 + byte_at K 3 24 = w0"
    "byte_at K 4 0 + byte_at K 5 8 + byte_at K 6 16 + byte_at K 7 24 = w1"
    "byte_at K 8 0 + byte_at K 9 8 + byte_at K 10 16 + byte_at K 11 24 = w2"
  using word_bytes [of w0] word_bytes [of w1] word_bytes [of w2]
  by (simp_all add: K_def byte_at_skip)

declare jhash_loop.simps [simp del]

lemma jhash_loop_words:
  "jhash_loop (concat (map le32 ws)) s = (case jhash2_loop ws s of (k, s') \<Rightarrow> (concat (map le32 k), s'))"
proof (induction ws s rule: jhash2_loop.induct)
  case (1 k0 k1 k2 k a b c)
  have "drop 12 (le32 k0 @ le32 k1 @ le32 k2 @ X) = X" for X by simp
  with 1 show ?case
    by (subst jhash_loop.simps) (simp add: byte_at_blocks del: One_nat_def)
qed (auto simp: jhash_loop.simps)

lemma jhash2_loop_rest: "length (fst (jhash2_loop ws s)) < 3"
  by (induction ws s rule: jhash2_loop.induct) auto

lemma tail_byte_skip: "4 \<le> i \<Longrightarrow> tail_byte (le32 w @ k) i sh = tail_byte k (i - 4) sh"
  by (auto simp: tail_byte_def byte_at_skip)

lemma tail_byte_end: "length k \<le> i \<Longrightarrow> tail_byte k i sh = 0"
  by (simp add: tail_byte_def)

lemma tail_word:
  "x + tail_byte (le32 w @ k) 3 24 + tail_byte (le32 w @ k) 2 16 + tail_byte (le32 w @ k) 1 8 + tail_byte (le32 w @ k) 0 0 = x + w"
  using word_bytes [of w k] by (simp add: tail_byte_def ac_simps)

lemmas tail_word_last = tail_word [where k = "[]", unfolded append_Nil2]

text \<open>
  C27. The optimised \<open>jhash2\<close> over words is the general \<open>jhash\<close> over the bytes of the words.
\<close>

theorem jhash2_eq_jhash: "jhash2 ws initval = jhash (concat (map le32 ws)) initval"
proof -
  obtain k a b c where l: "jhash2_loop ws (JHASH_GOLDEN_RATIO, JHASH_GOLDEN_RATIO, initval) = (k, a, b, c)"
    by (metis surj_pair)
  have len: "(of_nat (length (concat (map le32 ws))) :: u32) = of_nat (length ws) * 4"
    by (simp add: length_concat o_def sum_list_triv)
  consider "k = []" | k0 where "k = [k0]" | k0 k1 where "k = [k0, k1]"
    using jhash2_loop_rest [of ws "(JHASH_GOLDEN_RATIO, JHASH_GOLDEN_RATIO, initval)"] l
    by (cases k rule: remdups_adj.cases) auto
  then show ?thesis
  proof cases
    case 1
    then show ?thesis using l len by (simp add: jhash_def jhash2_def jhash_loop_words tail_byte_def)
  next
    case 2
    then show ?thesis using l len
      by (simp add: jhash_def jhash2_def jhash_loop_words Let_def tail_byte_end tail_word_last del: One_nat_def)
  next
    case 3
    then show ?thesis using l len
      by (simp add: jhash_def jhash2_def jhash_loop_words Let_def tail_byte_skip tail_byte_end tail_word
          tail_word_last [unfolded One_nat_def] del: One_nat_def)
  qed
qed

end
