(* ===== verification/Nfe_Flow.thy ===== *)
theory Nfe_Flow
  imports Jhash
begin

text \<open>
  Addresses and flow tuples of the packet inspection library: \<open>nfe_types.h\<close>, \<open>nfe_priv.h\<close>,
  \<open>nfe_ipaddr.h\<close>, \<open>nfe_flow.h\<close> and \<open>nfe_flow.c\<close> under \<open>src/src/lib/nfe\<close>. An address is the list of its 16
  bytes; a port is the 16-bit integer that the two bytes of the packet make in memory.
\<close>

section \<open>Helpers\<close>

definition read16 :: "u8 list \<Rightarrow> nat \<Rightarrow> u16" where
  "read16 src off = be16 (src ! off) (src ! (off + 1))"

definition NFE_AF_NONE :: u8 where "NFE_AF_NONE = 0"

definition NFE_AF_INET :: u8 where "NFE_AF_INET = 1"

definition NFE_AF_INET6 :: u8 where "NFE_AF_INET6 = 2"

definition domain_len :: "u8 \<Rightarrow> nat" where
  "domain_len domain = (if domain = NFE_AF_INET then 4 else if domain = NFE_AF_INET6 then 16 else 0)"

section \<open>Addresses\<close>

type_synonym nfe_ipaddr = "u8 list"

definition ipaddr_unspec :: "nfe_ipaddr \<Rightarrow> bool" where
  "ipaddr_unspec addr \<longleftrightarrow> addr = replicate 16 0"

definition ipaddr_v4_multicast :: "nfe_ipaddr \<Rightarrow> bool" where
  "ipaddr_v4_multicast addr \<longleftrightarrow> (addr ! 0) AND 0xf0 = 0xe0"

definition ipaddr_v6_multicast :: "nfe_ipaddr \<Rightarrow> bool" where
  "ipaddr_v6_multicast addr \<longleftrightarrow> addr ! 0 = 0xff"

definition ipaddr_v4_unicast :: "nfe_ipaddr \<Rightarrow> bool" where
  "ipaddr_v4_unicast addr \<longleftrightarrow> \<not> (ipaddr_v4_multicast addr \<or> ipaddr_unspec addr)"

definition ipaddr_v6_unicast :: "nfe_ipaddr \<Rightarrow> bool" where
  "ipaddr_v6_unicast addr \<longleftrightarrow> \<not> (ipaddr_v6_multicast addr \<or> ipaddr_unspec addr)"

definition ipaddr_copy_in4 :: "u8 list \<Rightarrow> nfe_ipaddr" where
  "ipaddr_copy_in4 in4 = take 4 in4 @ replicate 12 0"

definition ipaddr_copy_in6 :: "u8 list \<Rightarrow> nfe_ipaddr" where
  "ipaddr_copy_in6 in6 = take 16 in6"

definition ipaddr_equal :: "nfe_ipaddr \<Rightarrow> nfe_ipaddr \<Rightarrow> bool" where
  "ipaddr_equal lhs rhs \<longleftrightarrow> lhs = rhs"

section \<open>Tuples\<close>

record nfe_tuple =
  addr0 :: nfe_ipaddr
  addr1 :: nfe_ipaddr
  port0 :: u16
  port1 :: u16
  proto :: u8
  domain :: u8
  vlan :: u16

definition nfe_tuple_equal :: "nfe_tuple \<Rightarrow> nfe_tuple \<Rightarrow> bool" where
  "nfe_tuple_equal lhs rhs \<longleftrightarrow>
     domain lhs = domain rhs \<and> proto lhs = proto rhs \<and> vlan lhs = vlan rhs \<and>
     (ipaddr_equal (addr0 lhs) (addr0 rhs) \<and> ipaddr_equal (addr1 lhs) (addr1 rhs) \<and>
      port0 lhs = port0 rhs \<and> port1 lhs = port1 rhs \<or>
      ipaddr_equal (addr0 lhs) (addr1 rhs) \<and> ipaddr_equal (addr1 lhs) (addr0 rhs) \<and>
      port0 lhs = port1 rhs \<and> port1 lhs = port0 rhs)"

definition nfe_tuple_copy :: "nfe_tuple \<Rightarrow> bool \<Rightarrow> nfe_tuple" where
  "nfe_tuple_copy src invert =
     (if invert
      then \<lparr>addr0 = addr1 src, addr1 = addr0 src, port0 = port1 src, port1 = port0 src,
            proto = proto src, domain = domain src, vlan = vlan src\<rparr>
      else \<lparr>addr0 = addr0 src, addr1 = addr1 src, port0 = port0 src, port1 = port1 src,
            proto = proto src, domain = domain src, vlan = vlan src\<rparr>)"

text \<open>The nine words of memory that start at \<open>addr[0]\<close>: both addresses and both ports.\<close>

definition addr32 :: "nfe_ipaddr \<Rightarrow> u32 list" where
  "addr32 a = map (\<lambda>i. of_le32 (drop (4 * i) a)) [0, 1, 2, 3]"

definition tuple_words :: "nfe_tuple \<Rightarrow> u32 list" where
  "tuple_words t = addr32 (addr0 t) @ addr32 (addr1 t) @ [ucast (port0 t) OR push_bit 16 (ucast (port1 t))]"

definition hash_reversed :: "nfe_tuple \<Rightarrow> bool" where
  "hash_reversed t \<longleftrightarrow>
     port0 t > port1 t \<or>
     (port0 t = port1 t \<and> memcmp (take (domain_len (domain t)) (addr0 t)) (take (domain_len (domain t)) (addr1 t)) > 0)"

definition nfe_tuple_hash :: "nfe_tuple \<Rightarrow> u32" where
  "nfe_tuple_hash tuple =
     (let t = (if hash_reversed tuple then nfe_tuple_copy tuple True else tuple)
      in jhash2 (tuple_words t)
           (push_bit 24 (ucast (domain t)) OR push_bit 16 (ucast (proto t)) OR ucast (vlan t)))"

section \<open>Both directions of a flow\<close>

text \<open>What the parser produces: the bytes of an address that its domain does not use are zero.\<close>

definition wf_tuple :: "nfe_tuple \<Rightarrow> bool" where
  "wf_tuple t \<longleftrightarrow>
     length (addr0 t) = 16 \<and> length (addr1 t) = 16 \<and>
     drop (domain_len (domain t)) (addr0 t) = replicate (16 - domain_len (domain t)) 0 \<and>
     drop (domain_len (domain t)) (addr1 t) = replicate (16 - domain_len (domain t)) 0"

lemma copy_copy [simp]: "nfe_tuple_copy (nfe_tuple_copy t b) b = t"
  by (cases t) (simp add: nfe_tuple_copy_def)

lemma copy_False [simp]: "nfe_tuple_copy t False = t"
  by (simp add: nfe_tuple_copy_def)

lemma nfe_tuple_equal_iff: "nfe_tuple_equal t u \<longleftrightarrow> u = t \<or> u = nfe_tuple_copy t True"
  by (cases t; cases u) (auto simp: nfe_tuple_equal_def nfe_tuple_copy_def ipaddr_equal_def)

lemma wf_tuple_invert: "wf_tuple (nfe_tuple_copy t True) \<longleftrightarrow> wf_tuple t"
  by (auto simp: wf_tuple_def nfe_tuple_copy_def)

lemma hash_reversed_invert:
  assumes "wf_tuple t" "nfe_tuple_copy t True \<noteq> t"
  shows "hash_reversed (nfe_tuple_copy t True) \<longleftrightarrow> \<not> hash_reversed t"
proof (cases "port0 t = port1 t")
  case False
  then show ?thesis by (auto simp: hash_reversed_def nfe_tuple_copy_def)
next
  case ports: True
  let ?n = "domain_len (domain t)"
  let ?a = "take ?n (addr0 t)" and ?b = "take ?n (addr1 t)"
  have "addr0 t = ?a @ replicate (16 - ?n) 0" "addr1 t = ?b @ replicate (16 - ?n) 0"
    using assms(1) by (metis append_take_drop_id wf_tuple_def)+
  moreover have "addr0 t \<noteq> addr1 t"
    using assms(2) ports by (cases t) (auto simp: nfe_tuple_copy_def)
  ultimately have "?a \<noteq> ?b" by metis
  then have "memcmp ?a ?b \<noteq> 0" "memcmp ?b ?a = - memcmp ?a ?b"
    using lex_cmp_swap by (auto simp: memcmp_def)
  then show ?thesis using ports by (auto simp: hash_reversed_def nfe_tuple_copy_def)
qed

lemma nfe_tuple_hash_equal:
  assumes "wf_tuple t" "nfe_tuple_equal t u"
  shows "nfe_tuple_hash t = nfe_tuple_hash u"
proof (cases "u = t")
  case False
  then have u: "u = nfe_tuple_copy t True" using assms(2) by (simp add: nfe_tuple_equal_iff)
  then have "hash_reversed u \<longleftrightarrow> \<not> hash_reversed t" using hash_reversed_invert [OF assms(1)] False by simp
  then show ?thesis by (auto simp: nfe_tuple_hash_def u)
qed simp



end
