(* ===== verification/Nfe_Parse.thy ===== *)
theory Nfe_Parse
  imports Nfe_Flow
begin

text \<open>
  The packet parser of \<open>src/src/lib/nfe\<close>: \<open>nfe_packet_hash\<close> of \<open>nfe.c\<close> and the handlers of \<open>nfe_input.c\<close>,
  \<open>nfe_proto.c\<close>, \<open>nfe_vlan.c\<close>, \<open>nfe_ether.c\<close>, \<open>nfe_ipv4.c\<close>, \<open>nfe_ipv6.c\<close>, \<open>nfe_gre.c\<close>, \<open>nfe_tcp.c\<close>, \<open>nfe_udp.c\<close> and
  \<open>nfe_icmp.c\<close>. The packet is the list of its bytes and a pointer into it is an offset, an \<open>int\<close> because
  \<open>data\<close> can pass \<open>tail\<close>. Reading outside the bytes is a \<open>Fault\<close>. The handlers call each other through
  function pointers without a bound on the depth, so that the tie of the recursion counts calls;
  \<open>NoReturn\<close> means that the count was used up.
\<close>

section \<open>Packets\<close>

datatype nfe_next =
  NEXT_NONE | NEXT_BYPASS_ICMP | NEXT_LOOKUP_ICMP | NEXT_LOOKUP_TCP | NEXT_LOOKUP_UDP | NEXT_BYPASS_ETH

datatype nfe_packet_type =
  NFE_PACKET_TYPE_UNKNOWN | NFE_PACKET_TYPE_HOST | NFE_PACKET_TYPE_BROADCAST | NFE_PACKET_TYPE_MULTICAST

text \<open>\<open>head\<close> is the offset 0; the opaque \<open>user\<close> pointer is left out.\<close>

record nfe_packet =
  tuple :: nfe_tuple
  timestamp :: u64
  direction :: nat
  ptype :: nfe_packet_type
  next_op :: nfe_next
  hash :: u32
  tail :: int
  data :: int
  prot :: "int option"

datatype parse_result = Fault | NoReturn | Returned int nfe_packet

definition with_bytes :: "u8 list \<Rightarrow> int \<Rightarrow> nat \<Rightarrow> (u8 list \<Rightarrow> parse_result) \<Rightarrow> parse_result" where
  "with_bytes buf off n f =
     (if 0 \<le> off \<and> off + int n \<le> int (length buf) then f (take n (drop (nat off) buf)) else Fault)"

text \<open>\<open>(size_t)(p->tail - p->data) < n\<close>: a negative difference is a large \<open>size_t\<close>.\<close>

definition size_lt :: "nfe_packet \<Rightarrow> nat \<Rightarrow> bool" where
  "size_lt p n \<longleftrightarrow> 0 \<le> tail p - data p \<and> tail p - data p < int n"

definition ETH_P_IP :: u16 where "ETH_P_IP = 0x0800"

definition ETH_P_IPV6 :: u16 where "ETH_P_IPV6 = 0x86DD"

definition ETH_P_8021Q :: u16 where "ETH_P_8021Q = 0x8100"

definition ETH_P_ARP :: u16 where "ETH_P_ARP = 0x0806"

type_synonym input_handler = "u16 \<Rightarrow> nfe_packet \<Rightarrow> parse_result"

type_synonym proto_handler = "u8 \<Rightarrow> nfe_packet \<Rightarrow> parse_result"

section \<open>Link layer\<close>

definition nfe_input_unknown :: "nfe_packet \<Rightarrow> parse_result" where
  "nfe_input_unknown p = Returned 0 (p\<lparr>next_op := NEXT_BYPASS_ETH\<rparr>)"

definition IPPROTO_ETHERIP :: u8 where "IPPROTO_ETHERIP = 97"

definition nfe_proto_eth :: "nfe_packet \<Rightarrow> parse_result" where
  "nfe_proto_eth p =
     Returned 0 (p\<lparr>tuple := (tuple p)\<lparr>proto := IPPROTO_ETHERIP\<rparr>, next_op := NEXT_BYPASS_ETH, data := 0\<rparr>)"

definition nfe_input_eth :: "nfe_packet \<Rightarrow> parse_result" where
  "nfe_input_eth p = nfe_proto_eth p"

definition vlan_id :: "u16 \<Rightarrow> u16" where
  "vlan_id tci = tci AND 0x0fff"

function nfe_input_vlan :: "input_handler \<Rightarrow> u8 list \<Rightarrow> nfe_packet \<Rightarrow> parse_result" where
  "nfe_input_vlan handoff buf p =
     (if size_lt p 4 then Returned (- 1) p
      else if 0 \<le> data p \<and> data p + 4 \<le> int (length buf) then
        (let tci = read16 buf (nat (data p));
             tpid = read16 buf (nat (data p) + 2);
             p = p\<lparr>data := data p + 4\<rparr>
         in if tpid = ETH_P_8021Q then nfe_input_vlan handoff buf p
            else handoff tpid (p\<lparr>tuple := (tuple p)\<lparr>vlan := vlan_id tci\<rparr>\<rparr>))
      else Fault)"
  by pat_completeness auto

termination
  by (relation "measure (\<lambda>(h, buf, p). nat (int (length buf) - data p))") auto

declare nfe_input_vlan.simps [simp del]

section \<open>Network layer\<close>

definition set_type :: "(nfe_ipaddr \<Rightarrow> bool) \<Rightarrow> nfe_packet \<Rightarrow> nfe_packet" where
  "set_type multicast p =
     (if ptype p = NFE_PACKET_TYPE_UNKNOWN then
        if multicast (addr1 (tuple p)) then p\<lparr>ptype := NFE_PACKET_TYPE_MULTICAST\<rparr>
        else if \<not> ipaddr_unspec (addr1 (tuple p)) then p\<lparr>ptype := NFE_PACKET_TYPE_HOST\<rparr>
        else p
      else p)"

text \<open>The header length in bytes, \<open>IPV4_IHL(ip4) << 2\<close>.\<close>

definition IPV4_IHL :: "u8 list \<Rightarrow> nat" where
  "IPV4_IHL ip4 = 4 * unat (ip4 ! 0 AND 0x0f)"

definition nfe_input_ipv4 :: "proto_handler \<Rightarrow> u8 list \<Rightarrow> nfe_packet \<Rightarrow> parse_result" where
  "nfe_input_ipv4 handoff buf p =
     (if size_lt p 20 then Returned (- 1) p
      else
        with_bytes buf (data p) 20 (\<lambda>ip4.
          if read16 ip4 6 AND (0x2000 OR 0x1FFF) \<noteq> 0 then Returned (- 1) p
          else
            let correct_len = uint (read16 ip4 2);
                p = p\<lparr>tail := data p + min correct_len ((tail p - data p) mod 2 ^ 16)\<rparr>;
                p = p\<lparr>data := data p + int (IPV4_IHL ip4)\<rparr>;
                p = p\<lparr>prot := Some (data p)\<rparr>;
                p = p\<lparr>tuple := (tuple p)
                      \<lparr>addr0 := ipaddr_copy_in4 (drop 12 ip4), addr1 := ipaddr_copy_in4 (drop 16 ip4),
                       domain := NFE_AF_INET, proto := ip4 ! 9\<rparr>\<rparr>;
                p = set_type ipaddr_v4_multicast p
            in handoff (ip4 ! 9) p))"

definition NEXTHDR_ESP :: u8 where "NEXTHDR_ESP = 50"

definition NEXTHDR_AUTH :: u8 where "NEXTHDR_AUTH = 51"

definition NEXTHDR_FRAGMENT :: u8 where "NEXTHDR_FRAGMENT = 44"

definition NEXTHDR_NONE :: u8 where "NEXTHDR_NONE = 59"

definition NEXTHDR_INVALID :: u8 where "NEXTHDR_INVALID = 255"

definition ipv6_extension :: "u8 \<Rightarrow> bool" where
  "ipv6_extension value \<longleftrightarrow> value \<in> {0, 43, 50, 51, 60, 135}"

text \<open>
  The next header and the new offset. The kind of the extension is taken from the fixed header
  (\<open>ip6->nhdr\<close>) on every call. \<open>None\<close> is a read outside the packet. The 32-bit sum does not wrap, since
  the offset is inside the packet and an extension has at most 2048 bytes.
\<close>

definition ipv6_skip_extension :: "u8 list \<Rightarrow> int \<Rightarrow> u8 \<Rightarrow> nat \<Rightarrow> nat \<Rightarrow> (u8 \<times> nat) option" where
  "ipv6_skip_extension buf base ip6_nhdr len off =
     (if ip6_nhdr \<noteq> NEXTHDR_ESP then
        if 0 \<le> base \<and> base + int off + 2 \<le> int (length buf) then
          (let ext_nhdr = buf ! nat (base + int off);
               ext_elen = unat (buf ! nat (base + int off + 1));
               elen = (if ip6_nhdr = NEXTHDR_AUTH then (ext_elen + 2) * 4 else (ext_elen + 1) * 8)
           in if off + elen > len then Some (NEXTHDR_INVALID, off)
              else Some (ext_nhdr, off + elen))
        else None
      else Some (NEXTHDR_ESP, off))"

lemma ipv6_skip_extension_progress:
  "ipv6_skip_extension buf base h len off = Some (nhdr, off') \<Longrightarrow>
     nhdr = NEXTHDR_ESP \<or> nhdr = NEXTHDR_INVALID \<or> (off < off' \<and> 0 \<le> base \<and> base + int off + 2 \<le> int (length buf))"
  by (auto simp: ipv6_skip_extension_def Let_def split: if_splits)

text \<open>
  The loop over the extension headers: \<open>None\<close> is a read outside the packet, \<open>Some None\<close> the return of
  an error.
\<close>

function extension_loop ::
    "u8 list \<Rightarrow> int \<Rightarrow> u8 \<Rightarrow> nat \<Rightarrow> u8 \<Rightarrow> nat \<Rightarrow> (u8 \<times> nat) option option" where
  "extension_loop buf base ip6_nhdr len nhdr off =
     (if ipv6_extension nhdr then
        (case ipv6_skip_extension buf base ip6_nhdr len off of
           None \<Rightarrow> None
         | Some (nhdr', off') \<Rightarrow>
             if nhdr' = NEXTHDR_ESP then Some (Some (nhdr', off'))
             else if nhdr' = NEXTHDR_INVALID then Some None
             else extension_loop buf base ip6_nhdr len nhdr' off')
      else Some (Some (nhdr, off)))"
  by pat_completeness auto

termination
  by (relation "measure (\<lambda>(buf, base, h, len, nhdr, off). nat (int (length buf) - base - int off))")
    (auto dest: ipv6_skip_extension_progress)

declare extension_loop.simps [simp del]

definition nfe_input_ipv6 :: "proto_handler \<Rightarrow> u8 list \<Rightarrow> nfe_packet \<Rightarrow> parse_result" where
  "nfe_input_ipv6 handoff buf p =
     (let len = nat ((tail p - data p) mod 2 ^ 32) in
      if len < 40 then Returned (- 1) p
      else
        with_bytes buf (data p) 40 (\<lambda>ip6.
          let p = p\<lparr>tuple := (tuple p)
                    \<lparr>addr0 := ipaddr_copy_in6 (drop 8 ip6), addr1 := ipaddr_copy_in6 (drop 24 ip6),
                     domain := NFE_AF_INET6\<rparr>\<rparr>
          in case extension_loop buf (data p) (ip6 ! 6) len (ip6 ! 6) 40 of
               None \<Rightarrow> Fault
             | Some None \<Rightarrow> Returned (- 1) p
             | Some (Some (nhdr, off)) \<Rightarrow>
                 if nhdr = NEXTHDR_FRAGMENT \<or> nhdr = NEXTHDR_NONE then Returned 0 p
                 else
                   let p = p\<lparr>data := data p + int off\<rparr>;
                       p = p\<lparr>tail := data p + min (int len - int off) ((tail p - data p) mod 2 ^ 32)\<rparr>;
                       p = p\<lparr>prot := Some (data p)\<rparr>;
                       p = p\<lparr>tuple := (tuple p)\<lparr>proto := nhdr\<rparr>\<rparr>;
                       p = set_type ipaddr_v6_multicast p
                   in handoff nhdr p))"

section \<open>Transport layer\<close>

lemma unat_pos_uint: "0 < unat x \<Longrightarrow> 0 < uint x"
  by (metis unat_eq_nat_uint zero_less_nat_eq)

text \<open>The variable length fields of a routed GRE header: \<open>None\<close> is a fault, \<open>Some None\<close> an error.\<close>

function sre_loop :: "u8 list \<Rightarrow> nfe_packet \<Rightarrow> nat \<Rightarrow> nat option option" where
  "sre_loop buf p off =
     (if data p + int (off + 4) > tail p then Some None
      else if 0 \<le> data p \<and> data p + int off + 4 \<le> int (length buf) then
        (let n = unat (buf ! nat (data p + int off + 3))
         in if n = 0 then Some (Some off) else sre_loop buf p (off + n))
      else None)"
  by pat_completeness auto

termination
  by (relation "measure (\<lambda>(buf, p, off). nat (tail p - data p - int off))") (auto intro: unat_pos_uint)

declare sre_loop.simps [simp del]

definition nfe_proto_gre :: "input_handler \<Rightarrow> u8 list \<Rightarrow> nfe_packet \<Rightarrow> parse_result" where
  "nfe_proto_gre handoff buf p =
     (if size_lt p 4 then Returned (- 1) p
      else
        with_bytes buf (data p) 4 (\<lambda>gre.
          let flag = read16 gre 0; type = read16 gre 2 in
          if flag AND 0x0003 \<noteq> 0 then Returned 0 p
          else
            let off = 4 + (if flag AND (0x8000 OR 0x4000) \<noteq> 0 then 4 else 0)
                        + (if flag AND 0x2000 \<noteq> 0 then 4 else 0)
                        + (if flag AND 0x1000 \<noteq> 0 then 4 else 0)
            in case (if flag AND 0x4000 \<noteq> 0 then sre_loop buf p off else Some (Some off)) of
                 None \<Rightarrow> Fault
               | Some None \<Rightarrow> Returned (- 1) p
               | Some (Some off) \<Rightarrow> handoff type (p\<lparr>data := data p + int off\<rparr>)))"

text \<open>The ports as they lie in memory.\<close>

definition set_ports :: "u8 list \<Rightarrow> nfe_packet \<Rightarrow> nfe_packet" where
  "set_ports bs p =
     p\<lparr>tuple := (tuple p)\<lparr>port0 := be16 (bs ! 1) (bs ! 0), port1 := be16 (bs ! 3) (bs ! 2)\<rparr>\<rparr>"

text \<open>\<open>TH_OFF(th) << 2\<close>, stored in eight bits.\<close>

definition TH_OFF :: "u8 \<Rightarrow> nat" where
  "TH_OFF offres = 4 * unat (drop_bit 4 (offres AND 0xf0))"

definition nfe_proto_tcp :: "u8 list \<Rightarrow> nfe_packet \<Rightarrow> parse_result" where
  "nfe_proto_tcp buf p =
     (if prot p \<noteq> Some (data p) then Fault
      else
        with_bytes buf (data p + 12) 1 (\<lambda>offres.
          let th_len = TH_OFF (offres ! 0) in
          if tail p - data p < int th_len then Returned (- 1) p
          else
            with_bytes buf (data p) 4 (\<lambda>ports.
              Returned 0 ((set_ports ports p)\<lparr>data := data p + int th_len, next_op := NEXT_LOOKUP_TCP\<rparr>))))"

definition nfe_proto_udp :: "u8 list \<Rightarrow> nfe_packet \<Rightarrow> parse_result" where
  "nfe_proto_udp buf p =
     (if tail p - data p < 8 then Returned (- 1) p
      else if prot p \<noteq> Some (data p) then Fault
      else
        with_bytes buf (data p) 4 (\<lambda>ports.
          Returned 0 ((set_ports ports p)\<lparr>next_op := NEXT_LOOKUP_UDP, data := data p + 8\<rparr>)))"

definition nfe_proto_icmp :: "u8 list \<Rightarrow> nfe_packet \<Rightarrow> parse_result" where
  "nfe_proto_icmp buf p =
     (if size_lt p 8 then Returned (- 1) p
      else
        with_bytes buf (data p) 1 (\<lambda>bs.
          Returned 0 (p\<lparr>next_op :=
            (if bs ! 0 \<ge> 3 \<and> bs ! 0 \<le> 5 then NEXT_BYPASS_ICMP else NEXT_LOOKUP_ICMP)\<rparr>)))"

definition nfe_proto_icmp6 :: "nfe_packet \<Rightarrow> parse_result" where
  "nfe_proto_icmp6 p =
     (if size_lt p 8 then Returned (- 1) p else Returned 0 (p\<lparr>next_op := NEXT_LOOKUP_ICMP\<rparr>))"

definition nfe_proto_unknown :: "nfe_packet \<Rightarrow> parse_result" where
  "nfe_proto_unknown p = Returned 0 p"

section \<open>Dispatch\<close>

text \<open>\<open>nfe_proto_ipv4\<close> and \<open>nfe_proto_ipv6\<close> are \<open>nfe_input_ipv4\<close> and \<open>nfe_input_ipv6\<close>.\<close>

fun nfe_input_handoff :: "nat \<Rightarrow> u8 list \<Rightarrow> u16 \<Rightarrow> nfe_packet \<Rightarrow> parse_result"
  and nfe_proto_handoff :: "nat \<Rightarrow> u8 list \<Rightarrow> u8 \<Rightarrow> nfe_packet \<Rightarrow> parse_result" where
  "nfe_input_handoff 0 buf type p = NoReturn"
| "nfe_input_handoff (Suc n) buf type p =
     (if type = ETH_P_8021Q then nfe_input_vlan (\<lambda>t q. nfe_input_handoff n buf t q) buf p
      else if type = ETH_P_IP then nfe_input_ipv4 (\<lambda>t q. nfe_proto_handoff n buf t q) buf p
      else if type = ETH_P_IPV6 then nfe_input_ipv6 (\<lambda>t q. nfe_proto_handoff n buf t q) buf p
      else if type = ETH_P_ARP then nfe_input_eth p
      else nfe_input_unknown p)"
| "nfe_proto_handoff 0 buf pr p = NoReturn"
| "nfe_proto_handoff (Suc n) buf pr p =
     (if pr = 4 then nfe_input_ipv4 (\<lambda>t q. nfe_proto_handoff n buf t q) buf p
      else if pr = 6 then nfe_proto_tcp buf p
      else if pr = 17 then nfe_proto_udp buf p
      else if pr = 41 then nfe_input_ipv6 (\<lambda>t q. nfe_proto_handoff n buf t q) buf p
      else if pr = 47 then nfe_proto_gre (\<lambda>t q. nfe_input_handoff n buf t q) buf p
      else if pr = 1 then nfe_proto_icmp buf p
      else if pr = 58 then nfe_proto_icmp6 p
      else nfe_proto_unknown p)"

definition empty_tuple :: nfe_tuple where
  "empty_tuple = \<lparr>addr0 = replicate 16 0, addr1 = replicate 16 0, port0 = 0, port1 = 0,
                  proto = 0, domain = NFE_AF_NONE, vlan = 0\<rparr>"

definition init_packet :: "nat \<Rightarrow> u64 \<Rightarrow> nfe_packet" where
  "init_packet len ts =
     \<lparr>tuple = empty_tuple, timestamp = ts, direction = 0, ptype = NFE_PACKET_TYPE_UNKNOWN,
      next_op = NEXT_NONE, hash = 0, tail = int len, data = 0, prot = None\<rparr>"

definition link_type :: "u8 \<Rightarrow> nfe_packet_type" where
  "link_type b =
     (if b AND 0x01 \<noteq> 0
      then if b = 0xff then NFE_PACKET_TYPE_BROADCAST else NFE_PACKET_TYPE_MULTICAST
      else NFE_PACKET_TYPE_HOST)"

text \<open>
  The frame is not NULL (else \<open>-EINVAL\<close>) and has \<open>len\<close> bytes. The first argument bounds the number of
  nested calls.
\<close>

definition nfe_packet_hash :: "nat \<Rightarrow> u16 \<Rightarrow> u8 list \<Rightarrow> u64 \<Rightarrow> parse_result" where
  "nfe_packet_hash n ethertype frame ts =
     (let p = init_packet (length frame) ts in
      if length frame < 14 then Returned (- 1) p
      else
        let (p, ethertype) =
              (if ethertype = 0
               then (p\<lparr>ptype := link_type (frame ! 0), data := 14\<rparr>, read16 frame 12)
               else (p, ethertype))
        in case nfe_input_handoff n frame ethertype p of
             Returned err p \<Rightarrow>
               Returned err (if err = 0 then p\<lparr>hash := nfe_tuple_hash (tuple p)\<rparr> else p)
           | r \<Rightarrow> r)"

section \<open>Handlers\<close>

definition wf_result :: "parse_result \<Rightarrow> bool" where
  "wf_result r \<longleftrightarrow> (\<forall>err p. r = Returned err p \<longrightarrow> wf_tuple (tuple p))"

lemma wf_result_simps [simp]:
  "wf_result Fault" "wf_result NoReturn" "wf_result (Returned err p) \<longleftrightarrow> wf_tuple (tuple p)"
  by (simp_all add: wf_result_def)

text \<open>
  A handler returns by itself, or its last action is a call of the next handler. Both keep the
  tuple well-formed.
\<close>

definition steps ::
    "(('t \<Rightarrow> nfe_packet \<Rightarrow> parse_result) \<Rightarrow> parse_result) \<Rightarrow> nfe_packet \<Rightarrow> ('t \<Rightarrow> nfe_packet \<Rightarrow> bool) \<Rightarrow> bool" where
  "steps f p R \<longleftrightarrow>
     (\<exists>r. r \<noteq> NoReturn \<and> (wf_tuple (tuple p) \<longrightarrow> wf_result r) \<and> (\<forall>h. f h = r)) \<or>
     (\<exists>t q. (\<forall>h. f h = h t q) \<and> R t q \<and> (wf_tuple (tuple p) \<longrightarrow> wf_tuple (tuple q)))"

lemma steps_returnI: "(\<And>h. f h = r) \<Longrightarrow> r \<noteq> NoReturn \<Longrightarrow> (wf_tuple (tuple p) \<Longrightarrow> wf_result r) \<Longrightarrow> steps f p R"
  by (auto simp: steps_def)

lemma steps_callI:
  "(\<And>h. f h = h t q) \<Longrightarrow> R t q \<Longrightarrow> (wf_tuple (tuple p) \<Longrightarrow> wf_tuple (tuple q)) \<Longrightarrow> steps f p R"
  by (auto simp: steps_def)

lemma steps_cases:
  assumes "steps f p R"
  obtains r where "r \<noteq> NoReturn" "wf_tuple (tuple p) \<longrightarrow> wf_result r" "\<And>h. f h = r"
    | t q where "\<And>h. f h = h t q" "R t q" "wf_tuple (tuple p) \<longrightarrow> wf_tuple (tuple q)"
  using assms by (auto simp: steps_def)

lemma steps_mono:
  assumes "steps f p R" "tuple p = tuple p'" "\<And>t q. R t q \<Longrightarrow> R' t q"
  shows "steps f p' R'"
  using assms(1)
proof (cases rule: steps_cases)
  case (1 r)
  show ?thesis by (rule steps_returnI [OF 1(3,1)]) (use 1(2) assms(2) in simp)
next
  case (2 t q)
  show ?thesis by (rule steps_callI [of f t q R' p', OF 2(1) assms(3) [OF 2(2)]]) (use 2(3) assms(2) in simp)
qed

text \<open>A call that leaves at least \<open>n\<close> bytes of the packet behind.\<close>

definition ahead :: "u8 list \<Rightarrow> nfe_packet \<Rightarrow> nat \<Rightarrow> 't \<Rightarrow> nfe_packet \<Rightarrow> bool" where
  "ahead buf p n t q \<longleftrightarrow> data p + int n \<le> data q \<and> 0 \<le> data p \<and> data p + int n \<le> int (length buf)"

lemma wf_vlan [simp]: "wf_tuple (t\<lparr>vlan := v\<rparr>) = wf_tuple t"
  by (simp add: wf_tuple_def)

lemma wf_proto [simp]: "wf_tuple (t\<lparr>proto := v\<rparr>) = wf_tuple t"
  by (simp add: wf_tuple_def)

lemma wf_ports [simp]: "wf_tuple (t\<lparr>port0 := v, port1 := w\<rparr>) = wf_tuple t"
  by (simp add: wf_tuple_def)

lemma tuple_set_type [simp]: "tuple (set_type m p) = tuple p" "data (set_type m p) = data p" "tail (set_type m p) = tail p"
    "prot (set_type m p) = prot p"
  by (simp_all add: set_type_def)

lemma vlan_steps: "steps (\<lambda>h. nfe_input_vlan h buf p) p (ahead buf p 4)"
proof (induction "nat (int (length buf) - data p)" arbitrary: p rule: less_induct)
  case less
  show ?case
  proof (cases "size_lt p 4 \<or> \<not> (0 \<le> data p \<and> data p + 4 \<le> int (length buf))")
    case True
    then have "nfe_input_vlan h buf p = (if size_lt p 4 then Returned (- 1) p else Fault)" for h
      by (subst nfe_input_vlan.simps) auto
    then show ?thesis by (rule steps_returnI) auto
  next
    case False
    let ?tci = "read16 buf (nat (data p))" and ?tpid = "read16 buf (nat (data p) + 2)"
    let ?p = "p\<lparr>data := data p + 4\<rparr>"
    show ?thesis
    proof (cases "?tpid = ETH_P_8021Q")
      case tag: True
      have "nat (int (length buf) - data ?p) < nat (int (length buf) - data p)" using False by simp
      from less [OF this] have ih: "steps (\<lambda>h. nfe_input_vlan h buf ?p) ?p (ahead buf ?p 4)" .
      have eq: "nfe_input_vlan h buf p = nfe_input_vlan h buf ?p" for h
        using False tag by (subst nfe_input_vlan.simps) (simp add: Let_def)
      show ?thesis unfolding eq
        by (rule steps_mono [OF ih]) (use False in \<open>simp_all add: ahead_def\<close>)
    next
      case last: False
      have "nfe_input_vlan h buf p = h ?tpid (?p\<lparr>tuple := (tuple p)\<lparr>vlan := vlan_id ?tci\<rparr>\<rparr>)" for h
        using False last by (subst nfe_input_vlan.simps) (simp add: Let_def)
      then show ?thesis by (rule steps_callI) (use False in \<open>simp_all add: ahead_def\<close>)
    qed
  qed
qed

lemma with_bytes_steps:
  assumes "\<And>bs. 0 \<le> off \<Longrightarrow> off + int n \<le> int (length buf) \<Longrightarrow> length bs = n \<Longrightarrow>
      \<forall>i<n. bs ! i = buf ! (nat off + i) \<Longrightarrow> steps (\<lambda>h. f h bs) p R"
  shows "steps (\<lambda>h. with_bytes buf off n (f h)) p R"
proof (cases "0 \<le> off \<and> off + int n \<le> int (length buf)")
  case True
  then have "nat off + n \<le> length buf" by linarith
  then have "steps (\<lambda>h. f h (take n (drop (nat off) buf))) p R"
    using True by (intro assms) simp_all
  then show ?thesis using True by (simp add: with_bytes_def)
next
  case False
  then have "with_bytes buf off n (f h) = Fault" for h by (auto simp: with_bytes_def)
  then show ?thesis by (rule steps_returnI) simp_all
qed

lemma steps_if: "(b \<Longrightarrow> steps f p R) \<Longrightarrow> (\<not> b \<Longrightarrow> steps g p R) \<Longrightarrow> steps (\<lambda>h. if b then f h else g h) p R"
  by (cases b) simp_all

lemma steps_Returned: "(wf_tuple (tuple p) \<Longrightarrow> wf_tuple (tuple q)) \<Longrightarrow> steps (\<lambda>h. Returned e q) p R"
  by (rule steps_returnI, rule refl) simp_all

lemma steps_Fault: "steps (\<lambda>h. Fault) p R"
  by (rule steps_returnI, rule refl) simp_all

lemma steps_call: "R t q \<Longrightarrow> (wf_tuple (tuple p) \<Longrightarrow> wf_tuple (tuple q)) \<Longrightarrow> steps (\<lambda>h. h t q) p R"
  by (rule steps_callI) simp_all

lemmas steps_intros = with_bytes_steps steps_if steps_Returned steps_Fault

lemma ipv4_steps:
  "steps (\<lambda>h. nfe_input_ipv4 h buf p) p
     (\<lambda>t q. 0 \<le> data p \<and> data p + 20 \<le> int (length buf) \<and> t = buf ! (nat (data p) + 9) \<and>
        data q = data p + 4 * int (unat (buf ! nat (data p) AND 15)))"
  unfolding nfe_input_ipv4_def Let_def
  by (intro steps_intros steps_call)
    (simp_all add: IPV4_IHL_def wf_tuple_def ipaddr_copy_in4_def domain_len_def NFE_AF_INET_def min_def)

lemma extension_loop_ge: "extension_loop buf base h len nhdr off = Some (Some (nhdr', off')) \<Longrightarrow> off \<le> off'"
proof (induction buf base h len nhdr off rule: extension_loop.induct)
  case (1 buf base h len nhdr off)
  show ?case
  proof (cases "ipv6_extension nhdr")
    case True
    then obtain n1 o1 where s: "ipv6_skip_extension buf base h len off = Some (n1, o1)"
      using 1(2) by (subst (asm) extension_loop.simps) (auto split: option.splits)
    then have "off \<le> o1" by (auto simp: ipv6_skip_extension_def Let_def split: if_splits)
    moreover have "extension_loop buf base h len nhdr off =
        (if n1 = NEXTHDR_ESP then Some (Some (n1, o1)) else if n1 = NEXTHDR_INVALID then Some None
         else extension_loop buf base h len n1 o1)"
      using True s by (subst extension_loop.simps) simp
    ultimately show ?thesis using 1(1) [OF True s refl] 1(2) by (auto split: if_splits)
  next
    case False
    then show ?thesis using 1(2) by (subst (asm) extension_loop.simps) simp
  qed
qed

lemma steps_extension:
  assumes "\<And>nhdr' off'. off \<le> off' \<Longrightarrow> steps (\<lambda>h. f h nhdr' off') p R" "wf_tuple (tuple p) \<Longrightarrow> wf_tuple (tuple q)"
  shows "steps (\<lambda>h. case extension_loop buf base nh len nhdr off of
      None \<Rightarrow> Fault | Some None \<Rightarrow> Returned e q | Some (Some (n, off')) \<Rightarrow> f h n off') p R"
proof (cases "extension_loop buf base nh len nhdr off")
  case None
  then show ?thesis by (simp add: steps_Fault)
next
  case (Some r)
  show ?thesis
  proof (cases r)
    case None
    then show ?thesis using Some assms(2) by (simp add: steps_Returned)
  next
    case (Some e)
    obtain n off' where e: "e = (n, off')" by (cases e)
    have l: "extension_loop buf base nh len nhdr off = Some (Some (n, off'))"
      using \<open>extension_loop buf base nh len nhdr off = Some r\<close> Some e by simp
    from assms(1) [OF extension_loop_ge [OF l]] show ?thesis unfolding l by simp
  qed
qed

lemma ipv6_steps: "steps (\<lambda>h. nfe_input_ipv6 h buf p) p (ahead buf p 40)"
  unfolding nfe_input_ipv6_def Let_def
  by (intro steps_intros steps_extension steps_call)
    (simp_all add: ahead_def wf_tuple_def ipaddr_copy_in6_def domain_len_def NFE_AF_INET_def NFE_AF_INET6_def)

lemma sre_loop_ge: "sre_loop buf p off = Some (Some off') \<Longrightarrow> off \<le> off'"
proof (induction buf p off rule: sre_loop.induct)
  case (1 buf p off)
  let ?n = "unat (buf ! nat (data p + int off + 3))"
  show ?case
  proof (cases "data p + int (off + 4) > tail p \<or> \<not> (0 \<le> data p \<and> data p + int off + 4 \<le> int (length buf)) \<or> ?n = 0")
    case True
    then show ?thesis using 1(2) by (subst (asm) sre_loop.simps) (auto simp: Let_def split: if_splits)
  next
    case False
    then have "sre_loop buf p (off + ?n) = Some (Some off')"
      using 1(2) by (subst (asm) sre_loop.simps) (simp add: Let_def)
    then show ?thesis using 1(1) False by fastforce
  qed
qed

lemma steps_sre:
  assumes "\<And>off'. off \<le> off' \<Longrightarrow> steps (\<lambda>h. f h off') p R"
  shows "steps (\<lambda>h. case (if b then sre_loop buf p off else Some (Some off)) of
      None \<Rightarrow> Fault | Some None \<Rightarrow> Returned e p | Some (Some off') \<Rightarrow> f h off') p R"
proof -
  consider "(if b then sre_loop buf p off else Some (Some off)) = None"
    | "(if b then sre_loop buf p off else Some (Some off)) = Some None"
    | off' where "(if b then sre_loop buf p off else Some (Some off)) = Some (Some off')" "off \<le> off'"
    by (cases b; cases "sre_loop buf p off"; cases "the (sre_loop buf p off)") (auto dest: sre_loop_ge)
  then show ?thesis
  proof cases
    case 1
    then show ?thesis by (simp add: steps_Fault)
  next
    case 2
    then show ?thesis by (simp add: steps_Returned)
  next
    case 3
    show ?thesis unfolding 3(1) by (simp add: assms [OF 3(2)])
  qed
qed

lemma gre_steps: "steps (\<lambda>h. nfe_proto_gre h buf p) p (ahead buf p 4)"
  unfolding nfe_proto_gre_def Let_def
  by (intro steps_intros steps_sre steps_call) (simp_all add: ahead_def)

section \<open>More calls change nothing\<close>

text \<open>Handlers that agree wherever the first one returns.\<close>

definition extends :: "('t \<Rightarrow> nfe_packet \<Rightarrow> parse_result) \<Rightarrow> ('t \<Rightarrow> nfe_packet \<Rightarrow> parse_result) \<Rightarrow> bool" where
  "extends h h' \<longleftrightarrow> (\<forall>t q. h t q \<noteq> NoReturn \<longrightarrow> h' t q = h t q)"

lemma steps_extends: "steps f p R \<Longrightarrow> extends h h' \<Longrightarrow> f h \<noteq> NoReturn \<Longrightarrow> f h' = f h"
  by (erule steps_cases) (simp_all add: extends_def)

lemma steps_NoReturn: "steps f p R \<Longrightarrow> f h = NoReturn \<Longrightarrow> \<exists>t q. R t q \<and> h t q = NoReturn"
  by (erule steps_cases) auto

lemma steps_wf:
  "steps f p R \<Longrightarrow> wf_tuple (tuple p) \<Longrightarrow> (\<And>t q. wf_tuple (tuple q) \<Longrightarrow> wf_result (h t q)) \<Longrightarrow> wf_result (f h)"
  by (erule steps_cases) simp_all

lemmas handler_steps = vlan_steps ipv4_steps ipv6_steps gre_steps

lemma handoff_extends:
  "extends (nfe_input_handoff n buf) (nfe_input_handoff (n + k) buf) \<and>
   extends (nfe_proto_handoff n buf) (nfe_proto_handoff (n + k) buf)"
proof (induction n)
  case 0
  show ?case by (simp add: extends_def)
next
  case (Suc n)
  then have i: "extends (nfe_input_handoff n buf) (nfe_input_handoff (n + k) buf)"
    and p: "extends (nfe_proto_handoff n buf) (nfe_proto_handoff (n + k) buf)" by auto
  show ?case
    using steps_extends [OF vlan_steps i] steps_extends [OF ipv4_steps p] steps_extends [OF ipv6_steps p]
      steps_extends [OF gre_steps i]
    by (simp add: extends_def)
qed

lemma handoff_wf:
  "wf_tuple (tuple p) \<Longrightarrow> wf_result (nfe_input_handoff n buf t p) \<and> wf_result (nfe_proto_handoff n buf pr p)"
proof (induction n arbitrary: t pr p)
  case (Suc n)
  have ih: "wf_result (nfe_input_handoff n buf t q)" "wf_result (nfe_proto_handoff n buf pr q)"
    if "wf_tuple (tuple q)" for t pr q
    using Suc.IH [OF that] by auto
  have "wf_result (nfe_input_vlan (nfe_input_handoff n buf) buf p)"
    by (rule steps_wf [OF vlan_steps Suc.prems ih(1)])
  moreover have "wf_result (nfe_input_ipv4 (nfe_proto_handoff n buf) buf p)"
    by (rule steps_wf [OF ipv4_steps Suc.prems ih(2)])
  moreover have "wf_result (nfe_input_ipv6 (nfe_proto_handoff n buf) buf p)"
    by (rule steps_wf [OF ipv6_steps Suc.prems ih(2)])
  moreover have "wf_result (nfe_proto_gre (nfe_input_handoff n buf) buf p)"
    by (rule steps_wf [OF gre_steps Suc.prems ih(1)])
  ultimately show ?case using Suc.prems
    by (simp add: nfe_input_eth_def nfe_proto_eth_def nfe_input_unknown_def nfe_proto_tcp_def nfe_proto_udp_def
        nfe_proto_icmp_def nfe_proto_icmp6_def nfe_proto_unknown_def with_bytes_def set_ports_def Let_def)
qed simp

section \<open>When the parser ends\<close>

text \<open>An IPv4 header of length zero that announces another IPv4 header.\<close>

definition ipip_loop :: "u8 list \<Rightarrow> nat \<Rightarrow> bool" where
  "ipip_loop buf o4 \<longleftrightarrow> o4 + 20 \<le> length buf \<and> buf ! o4 AND 15 = 0 \<and> buf ! (o4 + 9) = 4"

definition room :: "u8 list \<Rightarrow> nfe_packet \<Rightarrow> nat" where
  "room buf p = nat (int (length buf) - data p)"

lemma ahead_NoReturn:
  assumes "steps f p (ahead buf p n)" "4 \<le> n" "\<And>t q. room buf q + 4 \<le> room buf p \<Longrightarrow> h t q \<noteq> NoReturn"
  shows "f h \<noteq> NoReturn"
proof
  assume "f h = NoReturn"
  with steps_NoReturn [OF assms(1)] obtain t q where "ahead buf p n t q" "h t q = NoReturn" by blast
  moreover from this(1) have "room buf q + 4 \<le> room buf p" using assms(2) unfolding ahead_def room_def by arith
  ultimately show False using assms(3) by blast
qed

lemma ipv4_NoReturn:
  assumes "\<And>o4. \<not> ipip_loop buf o4"
    and "\<And>t q. room buf q + 4 \<le> room buf p \<or> (room buf q = room buf p \<and> t \<noteq> 4) \<Longrightarrow> h t q \<noteq> NoReturn"
  shows "nfe_input_ipv4 h buf p \<noteq> NoReturn"
proof
  assume "nfe_input_ipv4 h buf p = NoReturn"
  with steps_NoReturn [OF ipv4_steps] obtain t q
    where d: "0 \<le> data p" "data p + 20 \<le> int (length buf)" and t: "t = buf ! (nat (data p) + 9)"
      and q: "data q = data p + 4 * int (unat (buf ! nat (data p) AND 15))" and h: "h t q = NoReturn"
    by blast
  have "room buf q + 4 \<le> room buf p \<or> (room buf q = room buf p \<and> t \<noteq> 4)"
  proof (cases "unat (buf ! nat (data p) AND 15) = 0")
    case True
    then have "buf ! nat (data p) AND 15 = 0" by (simp add: unat_eq_0)
    then have "t \<noteq> 4" using assms(1) [of "nat (data p)"] d t by (simp add: ipip_loop_def nat_le_iff le_nat_iff)
    then show ?thesis using q True by (simp add: room_def)
  next
    case False
    define u where "u = unat (buf ! nat (data p) AND 15)"
    have "0 < u" "data q = data p + 4 * int u" using False q unfolding u_def by simp_all
    then have "room buf q + 4 \<le> room buf p" using d unfolding room_def by arith
    then show ?thesis by simp
  qed
  then show False using assms(2) h by blast
qed

lemma handoff_ends:
  assumes "\<And>o4. \<not> ipip_loop buf o4"
  shows "(2 * room buf p + 2 \<le> n \<longrightarrow> nfe_input_handoff n buf t p \<noteq> NoReturn) \<and>
    (2 * room buf p + (if pr = 4 then 2 else 1) \<le> n \<longrightarrow> nfe_proto_handoff n buf pr p \<noteq> NoReturn)"
proof (induction n arbitrary: t pr p)
  case (Suc n)
  have ih: "nfe_input_handoff n buf t q \<noteq> NoReturn" "nfe_proto_handoff n buf pr q \<noteq> NoReturn"
    if "2 * room buf q + 2 \<le> n" for t pr q
    using Suc that by auto
  have ih4: "nfe_proto_handoff n buf pr q \<noteq> NoReturn" if "2 * room buf q + 1 \<le> n" "pr \<noteq> 4" for pr q
    using Suc that by auto
  have v4: "nfe_input_ipv4 (nfe_proto_handoff n buf) buf p \<noteq> NoReturn" if "2 * room buf p + 1 \<le> n"
    by (rule ipv4_NoReturn [OF assms]) (use that ih(2) ih4 in force)
  have "nfe_input_vlan (nfe_input_handoff n buf) buf p \<noteq> NoReturn" if "2 * room buf p \<le> n"
    by (rule ahead_NoReturn [OF vlan_steps order_refl ih(1)]) (use that in simp)
  moreover have "nfe_input_ipv6 (nfe_proto_handoff n buf) buf p \<noteq> NoReturn" if "2 * room buf p \<le> n"
    by (rule ahead_NoReturn [OF ipv6_steps _ ih(2)]) (use that in simp_all)
  moreover have "nfe_proto_gre (nfe_input_handoff n buf) buf p \<noteq> NoReturn" if "2 * room buf p \<le> n"
    by (rule ahead_NoReturn [OF gre_steps order_refl ih(1)]) (use that in simp)
  ultimately show ?case using v4
    by (auto simp: nfe_input_eth_def nfe_proto_eth_def nfe_input_unknown_def nfe_proto_tcp_def nfe_proto_udp_def
        nfe_proto_icmp_def nfe_proto_icmp6_def nfe_proto_unknown_def with_bytes_def Let_def)
qed simp

text \<open>The packet that \<open>nfe_input_ipv4\<close> hands off.\<close>

definition ipv4_packet :: "u8 list \<Rightarrow> nfe_packet \<Rightarrow> nfe_packet" where
  "ipv4_packet buf p =
     (let d = nat (data p); d' = data p + 4 * int (unat (buf ! d AND 15))
      in set_type ipaddr_v4_multicast
           (p\<lparr>tail := data p + min (uint (read16 buf (d + 2))) ((tail p - data p) mod 2 ^ 16),
              data := d', prot := Some d',
              tuple := (tuple p)\<lparr>addr0 := take 4 (drop (d + 12) buf) @ replicate 12 0,
                addr1 := take 4 (drop (d + 16) buf) @ replicate 12 0,
                domain := NFE_AF_INET, proto := buf ! (d + 9)\<rparr>\<rparr>))"

lemma read16_sub: "i + 1 < n \<Longrightarrow> k + n \<le> length buf \<Longrightarrow> read16 (take n (drop k buf)) i = read16 buf (k + i)"
  by (simp add: read16_def)

lemma take4_sub: "i + 4 \<le> n \<Longrightarrow> take 4 (drop i (take n (drop k buf))) = take 4 (drop (k + i) buf)"
  by (simp add: drop_take min_def add.commute)

lemma drop16_sub: "drop 16 (take 20 (drop k buf)) = take 4 (drop (k + 16) buf)"
  by (simp add: drop_take add.commute)

lemma ipv4_call:
  assumes "\<not> size_lt p 20" "0 \<le> data p" "nat (data p) + 20 \<le> length buf"
    and "read16 buf (nat (data p) + 6) AND 0x3FFF = 0"
  shows "nfe_input_ipv4 h buf p = h (buf ! (nat (data p) + 9)) (ipv4_packet buf p)"
proof -
  have "data p + 20 \<le> int (length buf)" using assms(2,3) by linarith
  then show ?thesis using assms
    by (simp add: nfe_input_ipv4_def with_bytes_def read16_sub take4_sub drop16_sub Let_def ipv4_packet_def
        IPV4_IHL_def ipaddr_copy_in4_def)
qed

text \<open>The header is parsed again and again.\<close>

lemma ipv4_diverges:
  assumes "0 \<le> data p" "ipip_loop buf (nat (data p))" "\<not> size_lt p 20"
    "read16 buf (nat (data p) + 6) AND 0x3FFF = 0"
    "20 \<le> min (uint (read16 buf (nat (data p) + 2))) ((tail p - data p) mod 2 ^ 16)"
  shows "nfe_input_ipv4 (nfe_proto_handoff n buf) buf p = NoReturn"
  using assms
proof (induction n arbitrary: p)
  case 0
  then show ?case by (subst ipv4_call) (auto simp: ipip_loop_def)
next
  case (Suc n)
  let ?p = "ipv4_packet buf p"
  define l m where "l = uint (read16 buf (nat (data p) + 2))" and "m = min l ((tail p - data p) mod 2 ^ 16)"
  have c: "nfe_input_ipv4 (nfe_proto_handoff (Suc n) buf) buf p = nfe_input_ipv4 (nfe_proto_handoff n buf) buf ?p"
    using Suc.prems by (subst ipv4_call) (auto simp: ipip_loop_def)
  have d: "data ?p = data p" "tail ?p = data p + m"
    using Suc.prems(2) by (simp_all add: ipv4_packet_def Let_def ipip_loop_def l_def m_def)
  have m: "20 \<le> m" "m < 2 ^ 16" "m \<le> l"
    using pos_mod_bound [of "2 ^ 16 :: int" "tail p - data p"] Suc.prems(5)
    by (auto simp: min_less_iff_disj l_def m_def)
  have "nfe_input_ipv4 (nfe_proto_handoff n buf) buf ?p = NoReturn"
    using Suc.prems(1,2,4) m unfolding l_def
    by (intro Suc.IH) (simp_all add: d size_lt_def)
  with c show ?case by (simp only:)
qed

lemma packet_hash_handoff:
  assumes "14 \<le> length frame"
  shows "nfe_packet_hash n 0 frame ts =
    (case nfe_input_handoff n frame (read16 frame 12)
            ((init_packet (length frame) ts)\<lparr>ptype := link_type (frame ! 0), data := 14\<rparr>) of
       Returned err p \<Rightarrow> Returned err (if err = 0 then p\<lparr>hash := nfe_tuple_hash (tuple p)\<rparr> else p)
     | r \<Rightarrow> r)"
  using assms by (simp add: nfe_packet_hash_def)

text \<open>A frame whose IPv4 header has length zero, announces IPv4 again and is not a fragment.\<close>

definition ipip_frame :: "u8 list \<Rightarrow> bool" where
  "ipip_frame frame \<longleftrightarrow>
     length frame < 2 ^ 16 \<and> read16 frame 12 = ETH_P_IP \<and> ipip_loop frame 14 \<and>
     read16 frame 20 AND 0x3FFF = 0 \<and> 20 \<le> uint (read16 frame 16)"


definition udp_frame :: "u8 list" where
  "udp_frame = replicate 12 2 @ [8, 0] @
     [0x45, 0, 0, 28, 0, 0, 0, 0, 64, 17, 0, 0, 10, 0, 0, 1, 10, 0, 0, 2] @ [1, 2, 3, 5, 0, 8, 0, 0]"

definition ipip_zero_frame :: "u8 list" where
  "ipip_zero_frame = replicate 12 2 @ [8, 0] @
     [0x40, 0, 0, 20, 0, 0, 0, 0, 64, 4, 0, 0, 10, 0, 0, 1, 10, 0, 0, 2]"


section \<open>Frames with IPv4\<close>

definition be_bytes :: "u16 \<Rightarrow> u8 list" where
  "be_bytes x = [ucast (drop_bit 8 x), ucast x]"

lemma be16_be_bytes [simp]: "be16 (ucast (drop_bit 8 x)) (ucast x) = x"
  by (rule bit_word_eqI) (auto simp: be16_def bit_simps)

text \<open>The bytes from the type field on: any number of VLAN tags and then the type of IPv4.\<close>

fun ether_types :: "u16 list \<Rightarrow> u8 list" where
  "ether_types [] = [8, 0]"
| "ether_types (tci # tags) = [0x81, 0] @ be_bytes tci @ ether_types tags"

definition tag_vlan :: "u16 list \<Rightarrow> u16" where
  "tag_vlan tags = (if tags = [] then 0 else vlan_id (last tags))"

lemma read16_append: "k = length A \<Longrightarrow> read16 (A @ x # y # R) k = be16 x y"
  by (simp add: read16_def nth_append)

lemma read16_ether_types:
  "k = length A \<Longrightarrow> read16 (A @ ether_types tags @ R) k = (if tags = [] then ETH_P_IP else ETH_P_8021Q)"
  by (cases tags) (auto simp: read16_append be16_def ETH_P_IP_def ETH_P_8021Q_def)

lemma ether_types_distinct [simp]: "ETH_P_IP \<noteq> ETH_P_8021Q" "ETH_P_8021Q \<noteq> ETH_P_IP"
  by (simp_all add: ETH_P_IP_def ETH_P_8021Q_def)

lemma vlan_tags:
  "data p = int (length A) \<Longrightarrow> tail p = int (length A + 2 + length (ether_types tags @ R)) \<Longrightarrow>
   nfe_input_vlan h (A @ be_bytes tci @ ether_types tags @ R) p =
     h ETH_P_IP (p\<lparr>data := data p + 2 + int (length (ether_types tags)),
                  tuple := (tuple p)\<lparr>vlan := tag_vlan (tci # tags)\<rparr>\<rparr>)"
proof (induction tags arbitrary: A tci p)
  case Nil
  have "read16 (A @ be_bytes tci @ [8, 0] @ R) (length A) = tci"
    "read16 (A @ be_bytes tci @ [8, 0] @ R) (length A + 2) = ETH_P_IP"
    using read16_append [of "length A" A _ _ "[8, 0] @ R"] read16_ether_types [of "length A + 2" "A @ be_bytes tci" "[]" R]
    by (simp_all add: be_bytes_def)
  then show ?case using Nil
    by (subst nfe_input_vlan.simps)
      (simp add: size_lt_def be_bytes_def tag_vlan_def Let_def add.commute)
next
  case (Cons t tags)
  let ?A = "A @ be_bytes tci @ [0x81, 0]" and ?p = "p\<lparr>data := data p + 4\<rparr>"
  have "read16 (A @ be_bytes tci @ ether_types (t # tags) @ R) (length A + 2) = ETH_P_8021Q"
    using read16_ether_types [of "length A + 2" "A @ be_bytes tci" "t # tags" R] by (simp add: be_bytes_def)
  then have "nfe_input_vlan h (A @ be_bytes tci @ ether_types (t # tags) @ R) p =
      nfe_input_vlan h (?A @ be_bytes t @ ether_types tags @ R) ?p"
    using Cons.prems by (subst nfe_input_vlan.simps) (simp add: size_lt_def be_bytes_def Let_def)
  also have "\<dots> = h ETH_P_IP (?p\<lparr>data := data ?p + 2 + int (length (ether_types tags)),
                  tuple := (tuple ?p)\<lparr>vlan := tag_vlan (t # tags)\<rparr>\<rparr>)"
    using Cons.prems by (intro Cons.IH) (simp_all add: be_bytes_def)
  also have "\<dots> = h ETH_P_IP (p\<lparr>data := data p + 2 + int (length (ether_types (t # tags))),
                  tuple := (tuple p)\<lparr>vlan := tag_vlan (tci # t # tags)\<rparr>\<rparr>)"
    by (simp add: be_bytes_def tag_vlan_def add.assoc)
  finally show ?case .
qed

text \<open>What the parser knows of a flow, and the packet it hands to the transport layer.\<close>

definition flow_tuple :: "u8 list \<Rightarrow> u16 \<Rightarrow> u8 list \<Rightarrow> nfe_tuple" where
  "flow_tuple ip v payload =
     \<lparr>addr0 = take 4 (drop 12 ip) @ replicate 12 0, addr1 = take 4 (drop 16 ip) @ replicate 12 0,
      port0 = be16 (payload ! 1) (payload ! 0), port1 = be16 (payload ! 3) (payload ! 2),
      proto = ip ! 9, domain = NFE_AF_INET, vlan = v\<rparr>"

lemma ipv4_header_call:
  assumes "length ip = 20" "ip ! 0 AND 15 = 5" "read16 ip 6 AND 0x3FFF = 0"
    and "uint (read16 ip 2) = 20 + int (length payload)" "20 + length payload < 2 ^ 16"
    and "data p = int (length A)" "tail p = int (length (A @ ip @ payload))"
    and "tuple p = empty_tuple\<lparr>vlan := v\<rparr>"
  shows "\<exists>q. (\<forall>h. nfe_input_ipv4 h (A @ ip @ payload) p = h (ip ! 9) q) \<and>
    data q = int (length A + 20) \<and> tail q = tail p \<and> prot q = Some (data q) \<and>
    tuple q = (flow_tuple ip v payload)\<lparr>port0 := 0, port1 := 0\<rparr>"
proof (intro exI conjI allI)
  let ?buf = "A @ ip @ payload" and ?q = "ipv4_packet (A @ ip @ payload) p"
  have r: "read16 ?buf (length A + i) = read16 ip i" if "i + 1 < 20" for i
    using that assms(1) by (simp add: read16_def nth_append)
  have b: "?buf ! (length A + i) = ip ! i" if "i < 20" for i using that assms(1) by (simp add: nth_append)
  note b0 = b [of 0, simplified]
  show "nfe_input_ipv4 h ?buf p = h (ip ! 9) ?q" for h
    using assms by (subst ipv4_call) (simp_all add: size_lt_def r nth_append)
  show "data ?q = int (length A + 20)" "prot ?q = Some (data ?q)"
    using assms(2,6) by (simp_all add: ipv4_packet_def Let_def b0)
  show "tail ?q = tail p"
    using assms(1,4-7) r [of 2] by (simp add: ipv4_packet_def Let_def)
  show "tuple ?q = (flow_tuple ip v payload)\<lparr>port0 := 0, port1 := 0\<rparr>"
    using assms(1,6,8) by (simp add: ipv4_packet_def Let_def nth_append flow_tuple_def empty_tuple_def)
qed

lemma input_handoff_tags:
  assumes "length macs = 12" "frame = macs @ ether_types tags @ R"
  shows "nfe_input_handoff (Suc (Suc n)) frame (read16 frame 12) ((init_packet (length frame) ts)\<lparr>ptype := y, data := 14\<rparr>) =
    nfe_input_ipv4 (nfe_proto_handoff (if tags = [] then Suc n else n) frame) frame
      ((init_packet (length frame) ts)
        \<lparr>ptype := y, data := int (12 + length (ether_types tags)), tuple := empty_tuple\<lparr>vlan := tag_vlan tags\<rparr>\<rparr>)"
proof -
  have t: "read16 frame 12 = (if tags = [] then ETH_P_IP else ETH_P_8021Q)"
    using assms read16_ether_types [of 12 macs tags R] by simp
  show ?thesis
  proof (cases tags)
    case Nil
    then show ?thesis using t by (simp add: init_packet_def empty_tuple_def tag_vlan_def)
  next
    case (Cons tci tags')
    let ?p = "(init_packet (length frame) ts)\<lparr>ptype := y, data := 14\<rparr>"
    have f: "frame = (macs @ [0x81, 0]) @ be_bytes tci @ ether_types tags' @ R" using assms(2) Cons by simp
    have "nfe_input_vlan (nfe_input_handoff (Suc n) frame) frame ?p =
        nfe_input_handoff (Suc n) frame ETH_P_IP (?p\<lparr>data := data ?p + 2 + int (length (ether_types tags')),
          tuple := (tuple ?p)\<lparr>vlan := tag_vlan (tci # tags')\<rparr>\<rparr>)"
      unfolding f by (rule vlan_tags) (use assms(1) in \<open>simp_all add: init_packet_def be_bytes_def\<close>)
    then show ?thesis using t Cons by (simp add: init_packet_def be_bytes_def)
  qed
qed

lemma packet_hash_ipv4:
  assumes "length macs = 12" "length ip = 20" "ip ! 0 AND 15 = 5" "read16 ip 6 AND 0x3FFF = 0"
    and "uint (read16 ip 2) = 20 + int (length payload)" "20 + length payload < 2 ^ 16"
    and "frame = macs @ ether_types tags @ ip @ payload"
  obtains q m where "nfe_packet_hash (Suc (Suc (Suc n))) 0 frame ts =
      (case nfe_proto_handoff (Suc m) frame (ip ! 9) q of
         Returned err p \<Rightarrow> Returned err (if err = 0 then p\<lparr>hash := nfe_tuple_hash (tuple p)\<rparr> else p)
       | r \<Rightarrow> r)"
    and "data q = int (length frame - length payload)" "tail q = int (length frame)" "prot q = Some (data q)"
    and "tuple q = (flow_tuple ip (tag_vlan tags) payload)\<lparr>port0 := 0, port1 := 0\<rparr>"
proof -
  let ?A = "macs @ ether_types tags"
  let ?p = "(init_packet (length frame) ts)\<lparr>ptype := link_type (frame ! 0), data := int (12 + length (ether_types tags)),
      tuple := empty_tuple\<lparr>vlan := tag_vlan tags\<rparr>\<rparr>"
  have f: "frame = ?A @ ip @ payload" using assms(7) by simp
  have p: "data ?p = int (length ?A)" "tail ?p = int (length (?A @ ip @ payload))"
    "tuple ?p = empty_tuple\<lparr>vlan := tag_vlan tags\<rparr>"
    using assms(1) by (simp_all add: init_packet_def f)
  obtain q where q: "\<forall>h. nfe_input_ipv4 h (?A @ ip @ payload) ?p = h (ip ! 9) q"
    and d: "data q = int (length ?A + 20)" "tail q = tail ?p" "prot q = Some (data q)"
      "tuple q = (flow_tuple ip (tag_vlan tags) payload)\<lparr>port0 := 0, port1 := 0\<rparr>"
    using ipv4_header_call [OF assms(2-6) p] by blast
  have l: "14 \<le> length frame" using assms(1,2) by (cases tags) (simp_all add: f)
  have "nfe_packet_hash (Suc (Suc (Suc n))) 0 frame ts =
      (case nfe_input_ipv4 (nfe_proto_handoff (if tags = [] then Suc (Suc n) else Suc n) frame) frame ?p of
         Returned err p \<Rightarrow> Returned err (if err = 0 then p\<lparr>hash := nfe_tuple_hash (tuple p)\<rparr> else p)
       | r \<Rightarrow> r)"
    using packet_hash_handoff [OF l] input_handoff_tags [OF assms(1,7)] by (simp only:)
  also have "nfe_input_ipv4 (nfe_proto_handoff (if tags = [] then Suc (Suc n) else Suc n) frame) frame ?p =
      nfe_proto_handoff (Suc (if tags = [] then Suc n else n)) frame (ip ! 9) q"
    using q unfolding f by simp
  finally have e: "nfe_packet_hash (Suc (Suc (Suc n))) 0 frame ts =
      (case nfe_proto_handoff (Suc (if tags = [] then Suc n else n)) frame (ip ! 9) q of
         Returned err p \<Rightarrow> Returned err (if err = 0 then p\<lparr>hash := nfe_tuple_hash (tuple p)\<rparr> else p)
       | r \<Rightarrow> r)" .
  have "data q = int (length frame - length payload)" "tail q = int (length frame)"
    using d(1,2) p(2) assms(2) f by simp_all
  from that [OF e this d(3,4)] show thesis .
qed

lemma udp_result:
  assumes "data q = int (length A)" "tail q = int (length (A @ payload))" "prot q = Some (data q)"
  shows "nfe_proto_udp (A @ payload) q =
    (if length payload < 8 then Returned (- 1) q
     else Returned 0 ((set_ports payload q)\<lparr>next_op := NEXT_LOOKUP_UDP, data := data q + 8\<rparr>))"
  using assms by (simp add: nfe_proto_udp_def with_bytes_def set_ports_def)

lemma tcp_result:
  assumes "data q = int (length A)" "tail q = int (length (A @ payload))" "prot q = Some (data q)"
  shows "nfe_proto_tcp (A @ payload) q =
    (if length payload < 13 then Fault
     else if length payload < TH_OFF (payload ! 12) then Returned (- 1) q
     else Returned 0 ((set_ports payload q)\<lparr>data := data q + int (TH_OFF (payload ! 12)), next_op := NEXT_LOOKUP_TCP\<rparr>))"
  using assms by (simp add: nfe_proto_tcp_def with_bytes_def set_ports_def nat_add_distrib Let_def)



end
