(* ===== verification/Nfe_Tcp.thy ===== *)
theory Nfe_Tcp
  imports Nfe_Parse
begin

text \<open>
  The TCP state machine of \<open>src/src/lib/nfe/src/nfe_tcp.c\<close>: the part of \<open>nfe_tcpfsm_input\<close> that works on the
  \<open>nfe_tcp\<close> block of a connection, with the header fields already in host order. The index \<open>dir\<close> into
  the two halves of a connection is a truth value. \<open>None\<close> is a fault: an index outside the table of the
  state machine or a read outside the packet.
\<close>

section \<open>Types\<close>

datatype tcp_state =
  TCP_CONNECTING | TCP_ESTABLISHED | TCP_HALF_DISCONNECTED | TCP_LAST_ACK | TCP_CLOSED

primrec state_num :: "tcp_state \<Rightarrow> nat" where
  "state_num TCP_CONNECTING = 0"
| "state_num TCP_ESTABLISHED = 1"
| "state_num TCP_HALF_DISCONNECTED = 2"
| "state_num TCP_LAST_ACK = 3"
| "state_num TCP_CLOSED = 4"

definition F_TCP_RETRANSMIT :: u16 where "F_TCP_RETRANSMIT = 1"

definition F_TCP_OUTOFORDER :: u16 where "F_TCP_OUTOFORDER = 2"

definition F_TCP_HALF_OPEN :: u16 where "F_TCP_HALF_OPEN = 1"

definition F_TCP_HALF_CLOSED :: u16 where "F_TCP_HALF_CLOSED = 2"

definition TH_SYN :: u8 where "TH_SYN = 2"

definition TH_ACK :: u8 where "TH_ACK = 16"

text \<open>\<open>options\<close> are the bytes after the fixed header, up to the end of the packet.\<close>

record tcphdr =
  seq :: u32
  ack_seq :: u32
  offres :: u8
  th_flags :: u8
  window :: u16
  options :: "u8 list"

record nfe_tcp_half =
  last_seq_time :: u64
  init_seq_sent :: u32
  last_seq_sent :: u32
  next_seq_sent :: u32
  last_ack_sent :: u32
  curr_seq_wrap :: u32
  packets :: u32
  half_flags :: u16
  mss :: u16

record nfe_tcp =
  half :: "bool \<Rightarrow> nfe_tcp_half"
  state :: tcp_state
  tcp_flags :: u16

definition upd_half :: "bool \<Rightarrow> (nfe_tcp_half \<Rightarrow> nfe_tcp_half) \<Rightarrow> nfe_tcp \<Rightarrow> nfe_tcp" where
  "upd_half dir f tcp = tcp\<lparr>half := (half tcp)(dir := f (half tcp dir))\<rparr>"

definition or_half_flags :: "u16 \<Rightarrow> nfe_tcp_half \<Rightarrow> nfe_tcp_half" where
  "or_half_flags f h = h\<lparr>half_flags := half_flags h OR f\<rparr>"

definition or_flags :: "u16 \<Rightarrow> nfe_tcp \<Rightarrow> nfe_tcp" where
  "or_flags f tcp = tcp\<lparr>tcp_flags := tcp_flags tcp OR f\<rparr>"

definition is_open :: "nfe_tcp_half \<Rightarrow> bool" where
  "is_open h \<longleftrightarrow> half_flags h AND F_TCP_HALF_OPEN \<noteq> 0"

definition is_closed :: "nfe_tcp_half \<Rightarrow> bool" where
  "is_closed h \<longleftrightarrow> half_flags h AND F_TCP_HALF_CLOSED \<noteq> 0"

section \<open>Options\<close>

definition TCP_DEFAULT_MSS :: u16 where "TCP_DEFAULT_MSS = 1460"

function mss_loop :: "u8 list \<Rightarrow> int \<Rightarrow> u16 option" where
  "mss_loop opt hdr_len =
     (if hdr_len \<le> 0 then Some TCP_DEFAULT_MSS
      else if length opt < 1 then None
      else if opt ! 0 = 0 then Some TCP_DEFAULT_MSS
      else if opt ! 0 = 1 then mss_loop (drop 1 opt) (hdr_len - 1)
      else if length opt < 2 then None
      else
        let opt_len = unat (opt ! 1) in
        if hdr_len < int opt_len \<or> opt_len < 2 then Some TCP_DEFAULT_MSS
        else if opt ! 0 = 2 then (if length opt < 4 then None else Some (be16 (opt ! 2) (opt ! 3)))
        else mss_loop (drop opt_len opt) (hdr_len - int opt_len))"
  by pat_completeness auto

termination
  by (relation "measure (\<lambda>(opt, n). nat n)") (auto intro!: unat_pos_uint)

declare mss_loop.simps [simp del]

definition tcp_mss :: "tcphdr \<Rightarrow> u16 option" where
  "tcp_mss th = mss_loop (options th) (int (TH_OFF (offres th)) - 20)"

section \<open>Segments with SYN, FIN or RST\<close>

definition tcp_rcv_err :: "tcphdr \<Rightarrow> nfe_tcp \<Rightarrow> bool \<Rightarrow> u16 \<Rightarrow> nfe_tcp option" where
  "tcp_rcv_err th tcp dir datalen = Some (tcp\<lparr>state := TCP_CLOSED\<rparr>)"

definition tcp_rcv_rst :: "tcphdr \<Rightarrow> nfe_tcp \<Rightarrow> bool \<Rightarrow> u16 \<Rightarrow> nfe_tcp option" where
  "tcp_rcv_rst th tcp dir datalen =
     Some ((upd_half True (or_half_flags F_TCP_HALF_CLOSED) (upd_half False (or_half_flags F_TCP_HALF_CLOSED) tcp))
             \<lparr>state := TCP_CLOSED\<rparr>)"

definition tcp_rcv_syn :: "tcphdr \<Rightarrow> nfe_tcp \<Rightarrow> bool \<Rightarrow> u16 \<Rightarrow> nfe_tcp option" where
  "tcp_rcv_syn th tcp dir datalen =
     (let tcp = (if is_open (half tcp dir) then or_flags F_TCP_RETRANSMIT tcp else tcp) in
      case tcp_mss th of
        None \<Rightarrow> None
      | Some m \<Rightarrow>
          let tcp = upd_half dir (\<lambda>h. h\<lparr>init_seq_sent := seq th, last_seq_sent := seq th,
                      next_seq_sent := seq th + 1 + ucast datalen, mss := m,
                      half_flags := half_flags h OR F_TCP_HALF_OPEN\<rparr>) tcp
          in if th_flags th AND TH_ACK = 0 then Some tcp
             else
               let tcp = upd_half dir (\<lambda>h. h\<lparr>last_ack_sent := ack_seq th\<rparr>) tcp
               in Some (upd_half (\<not> dir) (\<lambda>h. h\<lparr>last_ack_sent := next_seq_sent (half tcp dir)\<rparr>) tcp))"

definition tcp_rcv_fin :: "tcphdr \<Rightarrow> nfe_tcp \<Rightarrow> bool \<Rightarrow> u16 \<Rightarrow> nfe_tcp option" where
  "tcp_rcv_fin th tcp dir datalen =
     (let tcp = (if is_closed (half tcp dir) then or_flags F_TCP_RETRANSMIT tcp else tcp)
      in Some (upd_half dir (\<lambda>h. h\<lparr>half_flags := half_flags h OR F_TCP_HALF_CLOSED,
                 next_seq_sent := seq th + 1 + ucast datalen, last_ack_sent := ack_seq th\<rparr>) tcp))"

text \<open>The table of the state machine has three columns.\<close>

definition nfe_tcpfsm ::
    "tcp_state \<Rightarrow> nat \<Rightarrow> (tcphdr \<Rightarrow> nfe_tcp \<Rightarrow> bool \<Rightarrow> u16 \<Rightarrow> nfe_tcp option) option" where
  "nfe_tcpfsm s i =
     (let row = (case s of
                   TCP_CONNECTING \<Rightarrow> [tcp_rcv_err, tcp_rcv_syn, tcp_rcv_rst]
                 | TCP_ESTABLISHED \<Rightarrow> [tcp_rcv_fin, tcp_rcv_syn, tcp_rcv_rst]
                 | TCP_HALF_DISCONNECTED \<Rightarrow> [tcp_rcv_fin, tcp_rcv_err, tcp_rcv_rst]
                 | TCP_LAST_ACK \<Rightarrow> [tcp_rcv_fin, tcp_rcv_err, tcp_rcv_rst]
                 | TCP_CLOSED \<Rightarrow> [tcp_rcv_err, tcp_rcv_err, tcp_rcv_err])
      in if i < 3 then Some (row ! i) else None)"

section \<open>Sequence numbers\<close>

definition tcp_seq_is_after :: "u32 \<Rightarrow> u32 \<Rightarrow> bool" where
  "tcp_seq_is_after s other \<longleftrightarrow> sint (s - other) > 0"

definition tcp_zero_window_probe :: "tcphdr \<Rightarrow> nfe_tcp \<Rightarrow> bool \<Rightarrow> u16 \<Rightarrow> bool" where
  "tcp_zero_window_probe th tcp dir datalen \<longleftrightarrow>
     datalen = 1 \<and> seq th = next_seq_sent (half tcp dir) \<and> window th = 0"

definition tcp_keepalive :: "tcphdr \<Rightarrow> nfe_tcp \<Rightarrow> bool \<Rightarrow> u16 \<Rightarrow> bool" where
  "tcp_keepalive th tcp dir datalen \<longleftrightarrow> datalen \<le> 1 \<and> seq th = next_seq_sent (half tcp dir) - 1"

definition tcp_data_offset :: "tcphdr \<Rightarrow> nfe_tcp \<Rightarrow> bool \<Rightarrow> int" where
  "tcp_data_offset th tcp dir =
     (let h = half tcp dir
      in uint (last_seq_sent h) + uint (curr_seq_wrap h) * 2 ^ 32 -
         uint (init_seq_sent h + (if th_flags th AND TH_SYN \<noteq> 0 then 0 else 1)))"

section \<open>A segment\<close>

text \<open>The first segment of a direction starts its half.\<close>

definition count_packet :: "tcphdr \<Rightarrow> bool \<Rightarrow> nfe_tcp \<Rightarrow> nfe_tcp" where
  "count_packet th dir tcp =
     upd_half dir (\<lambda>h.
       if packets h = 0
       then h\<lparr>packets := packets h + 1, last_seq_sent := seq th, init_seq_sent := seq th - 1,
              next_seq_sent := seq th, last_ack_sent := ack_seq th\<rparr>
       else h\<lparr>packets := packets h + 1\<rparr>) tcp"

text \<open>
  The update of the sequence state and the data length that is left. The handlers and the two
  probes get the length in 16 bits.
\<close>

definition track :: "tcphdr \<Rightarrow> u64 \<Rightarrow> bool \<Rightarrow> u64 \<Rightarrow> nfe_tcp \<Rightarrow> (u64 \<times> nfe_tcp) option" where
  "track th ts dir datalen tcp =
     (let tcpf = th_flags th AND 7 in
      if tcpf \<noteq> 0 then
        (case nfe_tcpfsm (state tcp) (unat (drop_bit 1 tcpf)) of
           None \<Rightarrow> None
         | Some f \<Rightarrow> map_option (Pair datalen) (f th tcp dir (ucast datalen)))
      else if tcp_keepalive th tcp dir (ucast datalen) then Some (0, tcp)
      else if tcp_zero_window_probe th tcp dir (ucast datalen) then Some (0, tcp)
      else if seq th = next_seq_sent (half tcp dir) then
        Some (datalen,
          (upd_half dir (\<lambda>h. h\<lparr>next_seq_sent := seq th + ucast datalen, last_ack_sent := ack_seq th\<rparr>) tcp)
            \<lparr>tcp_flags := tcp_flags tcp AND NOT (F_TCP_RETRANSMIT OR F_TCP_OUTOFORDER)\<rparr>)
      else if \<not> tcp_seq_is_after (seq th) (next_seq_sent (half tcp dir)) then
        (if last_seq_time (half tcp dir) - ts > 30
         then Some (datalen, or_flags F_TCP_RETRANSMIT tcp)
         else Some (datalen, or_flags F_TCP_OUTOFORDER tcp))
      else
        Some (datalen,
          upd_half dir (\<lambda>h. h\<lparr>next_seq_sent := seq th + ucast datalen, last_ack_sent := ack_seq th\<rparr>)
            (or_flags F_TCP_OUTOFORDER tcp)))"

text \<open>The new state and whether the connection is released.\<close>

definition transition :: "tcphdr \<Rightarrow> bool \<Rightarrow> u64 \<Rightarrow> nfe_tcp \<Rightarrow> tcp_state \<times> bool" where
  "transition th dir datalen tcp =
     (case state tcp of
        TCP_CONNECTING \<Rightarrow>
          if th_flags th AND TH_SYN = 0 \<and> (datalen \<noteq> 0 \<or> is_open (half tcp False) \<and> is_open (half tcp True))
          then (TCP_ESTABLISHED, False) else (TCP_CONNECTING, False)
      | TCP_ESTABLISHED \<Rightarrow>
          if is_closed (half tcp False) \<or> is_closed (half tcp True)
          then (if packets (half tcp (\<not> dir)) = 0 then TCP_LAST_ACK else TCP_HALF_DISCONNECTED, False)
          else (TCP_ESTABLISHED, False)
      | TCP_HALF_DISCONNECTED \<Rightarrow>
          if is_closed (half tcp False) \<and> is_closed (half tcp True)
          then (TCP_LAST_ACK, False) else (TCP_HALF_DISCONNECTED, False)
      | TCP_LAST_ACK \<Rightarrow>
          if packets (half tcp (\<not> dir)) = 0 \<or>
             (last_ack_sent (half tcp dir) = next_seq_sent (half tcp (\<not> dir)) \<and>
              last_ack_sent (half tcp (\<not> dir)) = next_seq_sent (half tcp dir))
          then (TCP_CLOSED, True) else (TCP_LAST_ACK, False)
      | TCP_CLOSED \<Rightarrow> (TCP_CLOSED, True))"

definition advance :: "tcphdr \<Rightarrow> bool \<Rightarrow> nfe_tcp \<Rightarrow> nfe_tcp" where
  "advance th dir tcp =
     (if tcp_seq_is_after (seq th) (last_seq_sent (half tcp dir))
      then upd_half dir (\<lambda>h. h\<lparr>curr_seq_wrap := (if seq th < last_seq_sent h then curr_seq_wrap h + 1 else curr_seq_wrap h),
             last_seq_sent := seq th\<rparr>) tcp
      else tcp)"

text \<open>The returned offset, the new block and whether \<open>nfe_conn_release\<close> was called.\<close>

definition tcp_input :: "tcphdr \<Rightarrow> u64 \<Rightarrow> bool \<Rightarrow> u64 \<Rightarrow> nfe_tcp \<Rightarrow> (int \<times> nfe_tcp \<times> bool) option" where
  "tcp_input th ts dir datalen tcp =
     (case track th ts dir datalen (count_packet th dir tcp) of
        None \<Rightarrow> None
      | Some (datalen, tcp) \<Rightarrow>
          let tcp = upd_half dir (\<lambda>h. h\<lparr>last_seq_time := ts\<rparr>) tcp in
          if tcp_flags tcp AND F_TCP_RETRANSMIT \<noteq> 0 then Some (0, tcp, False)
          else
            let (s, released) = transition th dir datalen tcp; was_closed = (state tcp = TCP_CLOSED); tcp = tcp\<lparr>state := s\<rparr>
            in if was_closed then Some (0, tcp, released)
               else
                 let tcp = advance th dir tcp
                 in Some (tcp_data_offset th tcp dir, tcp, released))"

section \<open>The state only moves forward\<close>

lemma upd_half_simps [simp]:
  "half (upd_half d f tcp) = (half tcp)(d := f (half tcp d))"
  "state (upd_half d f tcp) = state tcp" "tcp_flags (upd_half d f tcp) = tcp_flags tcp"
  "half (or_flags g tcp) = half tcp" "state (or_flags g tcp) = state tcp"
  by (simp_all add: upd_half_def or_flags_def)

text \<open>Flags of a half are only added.\<close>

definition flags_le :: "u16 \<Rightarrow> u16 \<Rightarrow> bool" where
  "flags_le x y \<longleftrightarrow> x OR y = y"

lemma flags_le_simps [simp]: "flags_le x x" "flags_le x (x OR y)"
  by (simp_all add: flags_le_def flip: or.assoc)

lemma flags_le_trans: "flags_le x y \<Longrightarrow> flags_le y z \<Longrightarrow> flags_le x z"
  by (metis flags_le_def or.assoc)

lemma flags_le_mono:
  assumes "flags_le (half_flags h) (half_flags h')"
  shows "is_open h \<Longrightarrow> is_open h'" "is_closed h \<Longrightarrow> is_closed h'"
proof -
  have "half_flags h' AND m = (half_flags h AND m) OR (half_flags h' AND m)" for m
    using assms by (metis flags_le_def bit.conj_disj_distrib2)
  then show "is_open h \<Longrightarrow> is_open h'" "is_closed h \<Longrightarrow> is_closed h'"
    unfolding is_open_def is_closed_def by (metis or_eq_0_iff)+
qed

definition forward :: "nfe_tcp \<Rightarrow> nfe_tcp \<Rightarrow> bool" where
  "forward tcp tcp' \<longleftrightarrow>
     (state tcp' = state tcp \<or> state tcp' = TCP_CLOSED) \<and>
     flags_le (half_flags (half tcp True)) (half_flags (half tcp' True)) \<and>
     flags_le (half_flags (half tcp False)) (half_flags (half tcp' False))"

lemma tcp_rcv_forward:
  "tcp_rcv_err th tcp dir n = Some tcp' \<Longrightarrow> forward tcp tcp'"
  "tcp_rcv_rst th tcp dir n = Some tcp' \<Longrightarrow> forward tcp tcp'"
  "tcp_rcv_fin th tcp dir n = Some tcp' \<Longrightarrow> forward tcp tcp'"
  "tcp_rcv_syn th tcp dir n = Some tcp' \<Longrightarrow> forward tcp tcp'"
  by (auto simp: forward_def tcp_rcv_err_def tcp_rcv_rst_def tcp_rcv_fin_def tcp_rcv_syn_def Let_def or_half_flags_def
      split: option.splits if_splits)

lemma nfe_tcpfsm_handlers:
  "nfe_tcpfsm s i = Some f \<Longrightarrow> f \<in> {tcp_rcv_err, tcp_rcv_syn, tcp_rcv_fin, tcp_rcv_rst}"
  by (auto simp: nfe_tcpfsm_def Let_def less_Suc_eq numeral_3_eq_3 split: tcp_state.splits if_splits)

lemma track_forward:
  assumes "track th ts dir n tcp = Some (m, tcp')"
  shows "forward tcp tcp'"
proof (cases "th_flags th AND 7 = 0")
  case True
  then show ?thesis using assms by (auto simp: track_def Let_def forward_def split: if_splits)
next
  case False
  then obtain f where "nfe_tcpfsm (state tcp) (unat (drop_bit 1 (th_flags th AND 7))) = Some f"
    and "f th tcp dir (ucast n) = Some tcp'"
    using assms by (auto simp: track_def Let_def split: option.splits)
  then show ?thesis by (auto dest!: nfe_tcpfsm_handlers intro: tcp_rcv_forward)
qed

lemma count_packet_forward: "state (count_packet th dir tcp) = state tcp" "forward tcp (count_packet th dir tcp)"
  by (auto simp: count_packet_def forward_def)

lemma forward_trans: "forward a b \<Longrightarrow> forward b c \<Longrightarrow> forward a c"
  by (auto simp: forward_def intro: flags_le_trans)

lemma advance_simps [simp]:
  "state (advance th dir tcp) = state tcp" "half_flags (half (advance th dir tcp) d) = half_flags (half tcp d)"
  "tcp_flags (advance th dir tcp) = tcp_flags tcp"
  by (simp_all add: advance_def)

definition tcp_inv :: "nfe_tcp \<Rightarrow> bool" where
  "tcp_inv tcp \<longleftrightarrow>
     (state tcp = TCP_HALF_DISCONNECTED \<or> state tcp = TCP_LAST_ACK \<longrightarrow> is_closed (half tcp False) \<or> is_closed (half tcp True))"

text \<open>A segment without the transition: \<open>last_seq_time\<close> is set.\<close>

lemma tcp_input_cases:
  assumes "tcp_input th ts dir n tcp = Some (off, tcp', released)"
  obtains (retransmit) t1 where "forward tcp t1" "tcp' = t1" "off = 0" "\<not> released"
    | (closed) t1 where "forward tcp t1" "state t1 = TCP_CLOSED" "tcp' = t1" "off = 0" "released"
    | (normal) t1 m where "forward tcp t1" "state t1 = state tcp" "state tcp \<noteq> TCP_CLOSED"
        "transition th dir m t1 = (state tcp', released)" "tcp' = advance th dir (t1\<lparr>state := state tcp'\<rparr>)"
proof -
  obtain m t0 where t: "track th ts dir n (count_packet th dir tcp) = Some (m, t0)"
    using assms by (auto simp: tcp_input_def split: option.splits)
  let ?t = "upd_half dir (\<lambda>h. h\<lparr>last_seq_time := ts\<rparr>) t0"
  have "forward t0 ?t" by (simp add: forward_def)
  then have f: "forward tcp ?t" using forward_trans [OF forward_trans [OF count_packet_forward(2) track_forward [OF t]]] by blast
  obtain s r where tr: "transition th dir m ?t = (s, r)" by (cases "transition th dir m ?t")
  consider "tcp_flags ?t AND F_TCP_RETRANSMIT \<noteq> 0" | "tcp_flags ?t AND F_TCP_RETRANSMIT = 0" "state ?t = TCP_CLOSED"
    | "tcp_flags ?t AND F_TCP_RETRANSMIT = 0" "state ?t \<noteq> TCP_CLOSED" by blast
  then show thesis
  proof cases
    case 1
    then show ?thesis using assms t f by (intro retransmit) (auto simp: tcp_input_def Let_def)
  next
    case 2
    then show ?thesis using assms t f tr
      by (intro closed) (auto simp: tcp_input_def Let_def transition_def forward_def)
  next
    case 3
    then have "state ?t = state tcp" using f by (auto simp: forward_def)
    then show ?thesis using 3 assms t f tr by (intro normal [of ?t m]) (auto simp: tcp_input_def Let_def)
  qed
qed

lemma transition_forward:
  assumes "transition th dir m t = (s, r)"
  shows "state_num (state t) \<le> state_num s \<and> (r \<longrightarrow> s = TCP_CLOSED) \<and>
    (s = TCP_ESTABLISHED \<and> state t \<noteq> s \<longrightarrow> th_flags th AND TH_SYN = 0) \<and>
    (s \<noteq> state t \<and> (s = TCP_HALF_DISCONNECTED \<or> s = TCP_LAST_ACK) \<longrightarrow> is_closed (half t False) \<or> is_closed (half t True))"
  using assms by (cases "state t") (auto simp: transition_def split: if_splits)

lemma forward_mono:
  assumes "forward a b"
  shows "state_num (state a) \<le> state_num (state b) \<and> (state a = TCP_CLOSED \<longrightarrow> state b = TCP_CLOSED) \<and>
    (tcp_inv a \<longrightarrow> tcp_inv b) \<and> (state b = TCP_ESTABLISHED \<longrightarrow> state a = TCP_ESTABLISHED) \<and>
    (\<forall>d. (is_open (half a d) \<longrightarrow> is_open (half b d)) \<and> (is_closed (half a d) \<longrightarrow> is_closed (half b d)))"
proof -
  have m: "(is_open (half a d) \<longrightarrow> is_open (half b d)) \<and> (is_closed (half a d) \<longrightarrow> is_closed (half b d))" for d
    using assms flags_le_mono [of "half a d" "half b d"] by (cases d) (auto simp: forward_def)
  moreover have "state_num (state a) \<le> 4" by (cases "state a") simp_all
  ultimately show ?thesis using assms by (auto simp: forward_def tcp_inv_def)
qed

text \<open>
  C31. A tracked TCP connection only moves forward through its states: a segment never takes it back,
  a closed connection stays closed and yields no data, a connection is established only by a segment
  without SYN, it is torn down only after a FIN or RST was seen, and it is released only when it is
  closed. Each half stays open or closed once it is.
\<close>

theorem tcp_input_state:
  assumes "tcp_input th ts dir n tcp = Some (off, tcp', released)"
  shows "state_num (state tcp) \<le> state_num (state tcp') \<and> (released \<longrightarrow> state tcp' = TCP_CLOSED) \<and>
    (state tcp = TCP_CLOSED \<longrightarrow> off = 0) \<and> (tcp_inv tcp \<longrightarrow> tcp_inv tcp') \<and>
    (state tcp' = TCP_ESTABLISHED \<and> state tcp \<noteq> TCP_ESTABLISHED \<longrightarrow> th_flags th AND TH_SYN = 0) \<and>
    (\<forall>d. (is_open (half tcp d) \<longrightarrow> is_open (half tcp' d)) \<and> (is_closed (half tcp d) \<longrightarrow> is_closed (half tcp' d)))"
  using assms
proof (cases rule: tcp_input_cases)
  case (retransmit t1)
  show ?thesis using forward_mono [OF retransmit(1)] unfolding retransmit(2,3) using retransmit(4) by blast
next
  case (closed t1)
  show ?thesis using forward_mono [OF closed(1)] closed(2) unfolding closed(3,4) by simp
next
  case (normal t1 m)
  have "half_flags (half tcp' d) = half_flags (half t1 d)" for d
    using arg_cong [OF normal(5), of "\<lambda>t. half_flags (half t d)"] by simp
  then have h: "is_open (half tcp' d) = is_open (half t1 d)" "is_closed (half tcp' d) = is_closed (half t1 d)" for d
    by (simp_all add: is_open_def is_closed_def)
  note tr = transition_forward [OF normal(4)] and fm = forward_mono [OF normal(1)]
  have "tcp_inv tcp'" if "tcp_inv t1"
    using that tr by (cases "state tcp' = state t1") (simp_all add: tcp_inv_def h)
  then have "tcp_inv tcp \<longrightarrow> tcp_inv tcp'" using fm by simp
  then show ?thesis using tr fm normal(2,3) by (simp add: h)
qed

lemma tcp_input_state_witness:
  "\<exists>th tcp tcp' off. state tcp = TCP_ESTABLISHED \<and> tcp_inv tcp \<and> tcp_input th 7 False 0 tcp = Some (off, tcp', False) \<and>
     state tcp' = TCP_HALF_DISCONNECTED \<and> tcp_inv tcp'"
proof -
  let ?h = "\<lparr>last_seq_time = 0, init_seq_sent = 10, last_seq_sent = 10, next_seq_sent = 11, last_ack_sent = 21,
    curr_seq_wrap = 0, packets = 1, half_flags = F_TCP_HALF_OPEN, mss = 1460\<rparr>"
  let ?tcp = "\<lparr>half = (\<lambda>_. ?h), state = TCP_ESTABLISHED, tcp_flags = 0\<rparr>"
  let ?th = "\<lparr>seq = 11, ack_seq = 21, offres = 0x50, th_flags = 1, window = 100, options = []\<rparr>"
  have "\<exists>tcp' off. tcp_input ?th 7 False 0 ?tcp = Some (off, tcp', False) \<and> state tcp' = TCP_HALF_DISCONNECTED"
    by (simp add: tcp_input_def count_packet_def track_def nfe_tcpfsm_def tcp_rcv_fin_def transition_def Let_def
        is_closed_def F_TCP_HALF_CLOSED_def F_TCP_HALF_OPEN_def F_TCP_RETRANSMIT_def)
  moreover have "tcp_inv ?tcp" by (simp add: tcp_inv_def)
  ultimately show ?thesis using tcp_input_state [of ?th 7 False 0 ?tcp] by (metis nfe_tcp.select_convs(2))
qed

section \<open>Faults\<close>

lemma mss_loop_reads:
  "int (length opt) \<ge> hdr_len + 2 \<Longrightarrow> mss_loop opt hdr_len \<noteq> None"
proof (induction opt hdr_len rule: mss_loop.induct)
  case (1 opt hdr_len)
  show ?case
  proof (cases "hdr_len \<le> 0 \<or> opt ! 0 = 0 \<or> opt ! 0 = 1")
    case True
    then show ?thesis by (subst mss_loop.simps) (use 1 in auto)
  next
    case False
    define k where "k = unat (opt ! 1)"
    have len: "length opt \<ge> 2" "opt \<noteq> []" using 1(3) False by auto
    have eq: "mss_loop opt hdr_len =
      (if hdr_len < int k \<or> k < 2 then Some TCP_DEFAULT_MSS
       else if opt ! 0 = 2 then (if length opt < 4 then None else Some (be16 (opt ! 2) (opt ! 3)))
       else mss_loop (drop k opt) (hdr_len - int k))"
      unfolding k_def by (subst mss_loop.simps) (use False len in \<open>simp add: Let_def\<close>)
    consider "hdr_len < int k \<or> k < 2" | "int k \<le> hdr_len" "k \<ge> 2" "opt ! 0 = 2" | "int k \<le> hdr_len" "k \<ge> 2" "opt ! 0 \<noteq> 2"
      by linarith
    then show ?thesis
    proof cases
      case 1
      then show ?thesis by (simp add: eq)
    next
      case 2
      then have "length opt \<ge> 4" using 1(3) by linarith
      with 2 show ?thesis by (simp add: eq)
    next
      case 3
      have "int (length (drop k opt)) \<ge> hdr_len - int k + 2" using 3 1(3) by simp
      then have "mss_loop (drop k opt) (hdr_len - int k) \<noteq> None"
        unfolding k_def using 3 False len 1(3) by (intro 1(2)) (auto simp: k_def)
      then show ?thesis using 3 by (simp add: eq)
    qed
  qed
qed

lemma fsm_column:
  fixes f :: u8
  shows "unat (drop_bit 1 (f AND 7)) = unat (f AND 6) div 2 \<and> unat (f AND 6) \<in> {0, 2, 4, 6}"
proof -
  have "f AND 7 \<le> 7" by (rule word_and_le1)
  then have "unat (f AND 7) < 8" by (simp add: word_le_nat_alt)
  moreover have "f AND 7 = word_of_nat (unat (f AND 7))" by simp
  moreover have "f AND 6 = (f AND 7) AND 6" by (simp add: and.assoc)
  ultimately obtain n where n: "n < 8" "f AND 7 = word_of_nat n" "f AND 6 = word_of_nat n AND 6" by metis
  from n(1) consider "n = 0" | "n = 1" | "n = 2" | "n = 3" | "n = 4" | "n = 5" | "n = 6" | "n = 7" by linarith
  then show ?thesis unfolding n(2,3) by cases simp_all
qed

lemma track_None:
  "track th ts dir n tcp = None \<longleftrightarrow>
     th_flags th AND 6 = 6 \<or>
     (th_flags th AND 6 = 2 \<and> (state tcp = TCP_CONNECTING \<or> state tcp = TCP_ESTABLISHED) \<and> tcp_mss th = None)"
proof -
  have c: "unat (drop_bit 1 (th_flags th AND 7)) = unat (th_flags th AND 6) div 2"
    "unat (th_flags th AND 6) \<in> {0, 2, 4, 6}" using fsm_column by blast+
  have z: "th_flags th AND 6 = (th_flags th AND 7) AND 6" by (simp add: and.assoc)
  have u: "th_flags th AND 6 = word_of_nat (unat (th_flags th AND 6))" by simp
  consider "th_flags th AND 6 = 0" | "th_flags th AND 6 = 2" | "th_flags th AND 6 = 4" | "th_flags th AND 6 = 6"
    using c(2) u by fastforce
  then have "th_flags th AND 7 \<noteq> 0 \<longrightarrow> (case nfe_tcpfsm (state tcp) (unat (th_flags th AND 6) div 2) of
      None \<Rightarrow> True | Some f \<Rightarrow> f th tcp dir (ucast n) = None) = 
      (th_flags th AND 6 = 6 \<or>
      (th_flags th AND 6 = 2 \<and> (state tcp = TCP_CONNECTING \<or> state tcp = TCP_ESTABLISHED) \<and> tcp_mss th = None))"
    by cases (auto simp: nfe_tcpfsm_def Let_def tcp_rcv_err_def tcp_rcv_fin_def tcp_rcv_rst_def tcp_rcv_syn_def
        split: tcp_state.splits option.splits)
  moreover have "track th ts dir n tcp = None \<longleftrightarrow> th_flags th AND 7 \<noteq> 0 \<and>
      (case nfe_tcpfsm (state tcp) (unat (th_flags th AND 6) div 2) of
        None \<Rightarrow> True | Some f \<Rightarrow> f th tcp dir (ucast n) = None)"
    unfolding track_def Let_def c(1) by (simp split: option.splits)
  ultimately show ?thesis using z by (cases "th_flags th AND 7 = 0") simp_all
qed

text \<open>
  C32. The handling of a segment goes wrong in exactly two ways: SYN and RST set together index the
  state table past its row, and a SYN on a connection that is not being closed reads options past the
  end of the packet. The latter never happens when two bytes follow the options.
\<close>

theorem tcp_input_faults:
  "(tcp_input th ts dir n tcp = None \<longleftrightarrow>
     th_flags th AND 6 = 6 \<or>
     (th_flags th AND 6 = 2 \<and> (state tcp = TCP_CONNECTING \<or> state tcp = TCP_ESTABLISHED) \<and> tcp_mss th = None)) \<and>
   (TH_OFF (offres th) \<le> length (options th) + 18 \<longrightarrow> tcp_mss th \<noteq> None)"
proof (intro conjI impI)
  show "TH_OFF (offres th) \<le> length (options th) + 18 \<Longrightarrow> tcp_mss th \<noteq> None"
    unfolding tcp_mss_def by (intro mss_loop_reads) linarith
  have "tcp_input th ts dir n tcp = None \<longleftrightarrow> track th ts dir n (count_packet th dir tcp) = None"
    by (auto simp: tcp_input_def Let_def split: option.splits prod.splits if_splits)
  then show "tcp_input th ts dir n tcp = None \<longleftrightarrow>
     th_flags th AND 6 = 6 \<or>
     (th_flags th AND 6 = 2 \<and> (state tcp = TCP_CONNECTING \<or> state tcp = TCP_ESTABLISHED) \<and> tcp_mss th = None)"
    by (simp add: track_None count_packet_forward(1))
qed

lemma tcp_input_faults_witness:
  "\<exists>th tcp. TH_OFF (offres th) \<le> length (options th) + 18 \<and> th_flags th AND 6 = 2 \<and> tcp_input th 7 False 0 tcp \<noteq> None"
proof -
  let ?th = "\<lparr>seq = 11, ack_seq = 21, offres = 0x60, th_flags = 2, window = 100, options = [1, 1, 1, 2, 0, 0]\<rparr>"
  have "TH_OFF (offres ?th) \<le> length (options ?th) + 18" "th_flags ?th AND 6 = 2" by (simp_all add: TH_OFF_def)
  with tcp_input_faults [of ?th 7 False 0] show ?thesis by fastforce
qed

section \<open>Streams in order\<close>

text \<open>A segment: its direction, header, time stamp and data length.\<close>

type_synonym segment = "bool \<times> tcphdr \<times> u64 \<times> u64"

fun tcp_inputs :: "segment list \<Rightarrow> nfe_tcp \<Rightarrow> (int list \<times> nfe_tcp) option" where
  "tcp_inputs [] tcp = Some ([], tcp)"
| "tcp_inputs ((dir, th, ts, n) # ss) tcp =
     (case tcp_input th ts dir n tcp of
        None \<Rightarrow> None
      | Some (off, tcp, released) \<Rightarrow> map_option (apfst (Cons off)) (tcp_inputs ss tcp))"

text \<open>
  Plain segments of both directions, each direction in order from its initial sequence number, \<open>pos\<close>
  bytes into its stream. No segment is a zero window probe.
\<close>

fun in_order :: "(bool \<Rightarrow> u32) \<Rightarrow> (bool \<Rightarrow> nat) \<Rightarrow> segment list \<Rightarrow> bool" where
  "in_order isn pos [] = True"
| "in_order isn pos ((dir, th, ts, n) # ss) =
     (th_flags th AND 7 = 0 \<and> n < 65536 \<and> \<not> (n = 1 \<and> window th = 0) \<and>
      seq th = isn dir + 1 + word_of_nat (pos dir) \<and> in_order isn (pos(dir := pos dir + unat n)) ss)"

fun stream_offsets :: "(bool \<Rightarrow> u32) \<Rightarrow> (bool \<Rightarrow> nat) \<Rightarrow> segment list \<Rightarrow> int list" where
  "stream_offsets isn pos [] = []"
| "stream_offsets isn pos ((dir, th, ts, n) # ss) =
     ((if isn dir = - 1 then 2 ^ 32 else 0) + int (pos dir)) # stream_offsets isn (pos(dir := pos dir + unat n)) ss"

text \<open>The sequence number of the last segment, not reduced.\<close>

definition seq_ext :: "nfe_tcp_half \<Rightarrow> int" where
  "seq_ext h = uint (last_seq_sent h) + uint (curr_seq_wrap h) * 2 ^ 32"

definition tracked :: "nfe_tcp_half \<Rightarrow> u32 \<Rightarrow> nat \<Rightarrow> nat \<Rightarrow> bool" where
  "tracked h isn pos k \<longleftrightarrow>
     packets h \<noteq> 0 \<and> unat (packets h) + k < 2 ^ 32 \<and> \<not> is_closed h \<and>
     init_seq_sent h = isn \<and> next_seq_sent h = isn + 1 + word_of_nat pos \<and>
     seq_ext h \<le> uint isn + 1 + int pos \<and> uint isn + 1 + int pos \<le> seq_ext h + 65536"

lemma carry:
  fixes a b m :: int
  assumes "0 < m" "a \<le> b" "b < a + m"
  shows "b div m = a div m + (if b mod m < a mod m then 1 else 0)"
proof -
  define q r s t where d: "q = a div m" "r = a mod m" "s = b div m" "t = b mod m"
  have e: "a = m * q + r" "b = m * s + t" "0 \<le> r" "r < m" "0 \<le> t" "t < m" using assms(1) by (simp_all add: d)
  have "m * q + r \<le> m * s + t" "m * s + t < m * q + r + m" using assms e by simp_all
  then have "m * (s - q) < m * 2" "m * (q - s) < m * 1" using e by (simp_all add: algebra_simps)
  then have "s - q < 2" "q - s < 1" using assms(1) by simp_all
  moreover have "s = q \<Longrightarrow> \<not> t < r" using assms e by auto
  moreover have "s = q + 1 \<Longrightarrow> t < r" using assms e by (simp add: algebra_simps)
  ultimately have "s = q + (if t < r then 1 else 0)" by (cases "s = q") auto
  then show ?thesis by (simp add: d)
qed

lemma advance_seq_ext:
  assumes "seq_ext (half tcp dir) \<le> b" "b \<le> seq_ext (half tcp dir) + 65536" "b < 2 ^ 64" "seq th = word_of_int b"
  shows "seq_ext (half (advance th dir tcp) dir) = b"
proof -
  let ?h = "half tcp dir"
  define a where "a = seq_ext ?h"
  have l: "uint (last_seq_sent ?h) = a mod 2 ^ 32" and w: "uint (curr_seq_wrap ?h) = a div 2 ^ 32"
    using uint_bounded [of "last_seq_sent ?h"] by (simp_all add: a_def seq_ext_def)
  have sq: "uint (seq th) = b mod 2 ^ 32" by (simp add: assms(4) unsigned_of_int take_bit_eq_mod)
  have la: "last_seq_sent ?h = word_of_int a"
    by (intro word_uint_eqI) (simp add: l unsigned_of_int take_bit_eq_mod)
  have ab: "0 \<le> b - a" "b - a \<le> 65536" using assms(1,2) by (simp_all add: a_def)
  have "seq th - last_seq_sent ?h = word_of_int (b - a)" by (simp add: assms(4) la)
  then have "sint (seq th - last_seq_sent ?h) = signed_take_bit 31 (b - a)" by (simp only: signed_of_int) simp
  also have "\<dots> = b - a" using ab by (intro signed_take_bit_int_eq_self) simp_all
  finally have after: "tcp_seq_is_after (seq th) (last_seq_sent ?h) \<longleftrightarrow> a < b" by (simp add: tcp_seq_is_after_def)
  have lt: "seq th < last_seq_sent ?h \<longleftrightarrow> b mod 2 ^ 32 < a mod 2 ^ 32" by (simp only: word_less_def sq l)
  have q: "b div 2 ^ 32 = a div 2 ^ 32 + (if b mod 2 ^ 32 < a mod 2 ^ 32 then 1 else 0)"
    using ab by (intro carry) simp_all
  show ?thesis
  proof (cases "a < b")
    case False
    then have "a = b" using ab by simp
    then show ?thesis using after by (simp add: advance_def a_def)
  next
    case True
    have "0 \<le> a" by (simp add: a_def seq_ext_def)
    with True assms(3) have "b div 2 ^ 32 < 2 ^ 32" "0 \<le> b" by simp_all
    let ?c = "if seq th < last_seq_sent ?h then curr_seq_wrap ?h + 1 else curr_seq_wrap ?h"
    have "curr_seq_wrap ?h = word_of_int (a div 2 ^ 32)" by (metis w word_of_int_uint)
    then have "?c = word_of_int (b div 2 ^ 32)" by (simp only: q lt) simp
    then have "uint ?c = b div 2 ^ 32"
      using \<open>b div 2 ^ 32 < 2 ^ 32\<close> \<open>0 \<le> b\<close> by (simp only: unsigned_of_int) (simp add: take_bit_int_eq_self)
    then have "seq_ext (half (advance th dir tcp) dir) = b mod 2 ^ 32 + b div 2 ^ 32 * 2 ^ 32"
      using True after by (simp add: advance_def seq_ext_def sq)
    then show ?thesis by simp
  qed
qed

lemma tracked_next:
  assumes "tracked h isn pos (Suc k)" "n < 65536" "init_seq_sent h' = isn" "seq_ext h' = uint isn + 1 + int pos"
    "packets h' = packets h + 1" "half_flags h' = half_flags h" "next_seq_sent h' = isn + 1 + word_of_nat pos + ucast (n :: u64)"
  shows "tracked h' isn (pos + unat n) k"
proof -
  have "unat (packets h + 1) = unat (packets h) + 1"
    using assms(1) by (simp add: tracked_def unat_word_ariths)
  moreover have "(ucast n :: u32) = word_of_nat (unat n)" by simp
  moreover have "uint n < 65536" using assms(2) by (simp add: word_less_def)
  ultimately show ?thesis using assms by (auto simp: tracked_def is_closed_def)
qed

lemma uint_incr: "uint (x + 1) = uint x + 1 - (if x = - 1 then 2 ^ 32 else 0)" for x :: u32
proof (cases "x = - 1")
  case False
  have "uint x \<noteq> 2 ^ 32 - 1"
  proof
    assume "uint x = 2 ^ 32 - 1"
    then have "x = word_of_int (2 ^ 32 - 1)" by (metis word_of_int_uint)
    with False show False by simp
  qed
  then have "uint x + 1 < 2 ^ 32" using uint_bounded [of x] by simp
  then show ?thesis using False by (simp add: uint_word_ariths)
qed (simp add: unsigned_minus_1_eq_mask mask_eq_exp_minus_1)

lemma tcp_input_in_order:
  assumes "tracked (half tcp dir) isn pos (Suc k)" "\<not> is_closed (half tcp (\<not> dir))" "state tcp = TCP_CONNECTING \<or> state tcp = TCP_ESTABLISHED"
    "th_flags th AND 7 = 0" "n < 65536" "\<not> (n = 1 \<and> window th = 0)" "seq th = isn + 1 + word_of_nat pos" "pos < 2 ^ 63"
  obtains tcp' where "tcp_input th ts dir n tcp = Some ((if isn = - 1 then 2 ^ 32 else 0) + int pos, tcp', False)"
    "tracked (half tcp' dir) isn (pos + unat n) k" "half tcp' (\<not> dir) = half tcp (\<not> dir)"
    "state tcp' = TCP_CONNECTING \<or> state tcp' = TCP_ESTABLISHED"
proof -
  let ?h = "half tcp dir"
  let ?u = "\<lambda>h. h\<lparr>packets := packets h + 1, next_seq_sent := seq th + ucast n, last_ack_sent := ack_seq th, last_seq_time := ts\<rparr>"
  define t2 where "t2 = (upd_half dir ?u tcp)\<lparr>tcp_flags := tcp_flags tcp AND NOT (F_TCP_RETRANSMIT OR F_TCP_OUTOFORDER)\<rparr>"
  have p: "packets ?h \<noteq> 0" "next_seq_sent ?h = seq th" using assms(1,7) by (simp_all add: tracked_def)
  have n1: "(ucast n :: u16) = 1 \<longleftrightarrow> n = 1"
  proof -
    have "unat (ucast n :: u16) = unat n" using assms(5) by (simp add: unsigned_ucast_eq take_bit_nat_eq_self word_less_nat_alt)
    then show ?thesis by (simp only: word_unat_eq_iff [of "ucast n"] word_unat_eq_iff [of n] unsigned_1)
  qed
  have syn: "th_flags th AND TH_SYN = 0"
  proof -
    have "th_flags th AND TH_SYN = (th_flags th AND 7) AND TH_SYN" by (simp add: TH_SYN_def and.assoc)
    then show ?thesis by (simp add: assms(4))
  qed
  have "track th ts dir n (count_packet th dir tcp) =
     Some (n, (upd_half dir (\<lambda>h. h\<lparr>packets := packets h + 1, next_seq_sent := seq th + ucast n, last_ack_sent := ack_seq th\<rparr>) tcp)
            \<lparr>tcp_flags := tcp_flags tcp AND NOT (F_TCP_RETRANSMIT OR F_TCP_OUTOFORDER)\<rparr>)"
    using assms(4,6) p by (simp add: track_def count_packet_def tcp_keepalive_def tcp_zero_window_probe_def n1 upd_half_def Let_def)
  then obtain b where t: "track th ts dir n (count_packet th dir tcp) = Some (n, b)"
    "upd_half dir (\<lambda>h. h\<lparr>last_seq_time := ts\<rparr>) b = t2"
    by (simp add: t2_def upd_half_def)
  have tf: "tcp_flags b = tcp_flags t2" by (simp flip: t(2))
  have t2_state: "state t2 = state tcp" by (simp add: t2_def)
  have "\<not> is_closed (half t2 d)" for d
    using assms(1,2) by (cases "d = dir") (auto simp: t2_def tracked_def is_closed_def)
  then have "\<exists>s. transition th dir n t2 = (s, False) \<and> (s = TCP_CONNECTING \<or> s = TCP_ESTABLISHED)"
    using assms(3) by (auto simp: transition_def t2_state)
  then obtain s where tr: "transition th dir n t2 = (s, False)" "s = TCP_CONNECTING \<or> s = TCP_ESTABLISHED" by blast
  define t3 where "t3 = advance th dir (t2\<lparr>state := s\<rparr>)"
  have "tcp_flags t2 AND F_TCP_RETRANSMIT = 0" by (simp add: t2_def F_TCP_RETRANSMIT_def F_TCP_OUTOFORDER_def and.assoc)
  then have eq: "tcp_input th ts dir n tcp = Some (tcp_data_offset th t3 dir, t3, False)"
    using assms(3) unfolding tcp_input_def by (auto simp: t tr(1) Let_def t2_state t3_def tf)
  have ext: "seq_ext (half t2 dir) = seq_ext ?h" by (simp add: t2_def seq_ext_def)
  have sx: "seq_ext (half t3 dir) = uint isn + 1 + int pos"
    unfolding t3_def
  proof (rule advance_seq_ext)
    show "uint isn + 1 + int pos < 2 ^ 64" using uint_bounded [of isn] assms(8) by simp
    show "seq th = word_of_int (uint isn + 1 + int pos)" by (simp add: assms(7))
  qed (use assms(1) ext in \<open>simp_all add: tracked_def\<close>)
  have h3: "init_seq_sent (half t3 dir) = isn" "packets (half t3 dir) = packets ?h + 1" "half_flags (half t3 dir) = half_flags ?h"
    "next_seq_sent (half t3 dir) = isn + 1 + word_of_nat pos + ucast n" "half t3 (\<not> dir) = half tcp (\<not> dir)" "state t3 = s"
    using assms(1,7) by (auto simp: t3_def advance_def t2_def tracked_def)
  have "uint (isn + 1) = uint isn + 1 - (if isn = - 1 then 2 ^ 32 else 0)" by (rule uint_incr)
  then have off: "tcp_data_offset th t3 dir = (if isn = - 1 then 2 ^ 32 else 0) + int pos"
    using sx by (simp add: tcp_data_offset_def Let_def syn h3 seq_ext_def)
  show thesis
    using eq off tr(2) h3 tracked_next [OF assms(1,5) h3(1) sx h3(2,3,4)] by (intro that [of t3]) simp_all
qed

lemma tracked_mono: "tracked h isn pos k \<Longrightarrow> k' \<le> k \<Longrightarrow> tracked h isn pos k'"
  by (simp add: tracked_def)

lemma tcp_inputs_in_order:
  assumes "\<forall>d. tracked (half tcp d) (isn d) (pos d) (length ss)" "state tcp = TCP_CONNECTING \<or> state tcp = TCP_ESTABLISHED"
    "in_order isn pos ss" "\<forall>d. pos d + 65536 * length ss < 2 ^ 63"
  shows "\<exists>tcp'. tcp_inputs ss tcp = Some (stream_offsets isn pos ss, tcp') \<and> (state tcp' = TCP_CONNECTING \<or> state tcp' = TCP_ESTABLISHED)"
  using assms
proof (induction ss arbitrary: tcp pos)
  case (Cons x ss)
  obtain d th ts n where x: "x = (d, th, ts, n)" by (cases x)
  let ?pos = "pos(d := pos d + unat n)"
  have n: "n < 65536" "unat n < 65536" using Cons.prems(3) by (simp_all add: x word_less_nat_alt)
  have c: "\<not> is_closed (half tcp (\<not> d))" "pos d < 2 ^ 63" "tracked (half tcp d) (isn d) (pos d) (Suc (length ss))"
    "tracked (half tcp (\<not> d)) (isn (\<not> d)) (pos (\<not> d)) (length ss)"
    using Cons.prems(1) spec [OF Cons.prems(4), of d] tracked_mono [OF spec [OF Cons.prems(1), of "\<not> d"], of "length ss"]
    by (auto simp: tracked_def)
  obtain tcp' where t: "tcp_input th ts d n tcp = Some ((if isn d = - 1 then 2 ^ 32 else 0) + int (pos d), tcp', False)"
    "tracked (half tcp' d) (isn d) (pos d + unat n) (length ss)" "half tcp' (\<not> d) = half tcp (\<not> d)"
    "state tcp' = TCP_CONNECTING \<or> state tcp' = TCP_ESTABLISHED"
    using tcp_input_in_order [OF c(3,1) Cons.prems(2), of th n ts] Cons.prems(3) n c(2) by (auto simp: x)
  have "\<forall>e. tracked (half tcp' e) (isn e) (?pos e) (length ss)"
  proof
    show "tracked (half tcp' e) (isn e) (?pos e) (length ss)" for e
      using t(2,3) c(4) by (cases "e = d") auto
  qed
  moreover have "\<forall>e. ?pos e + 65536 * length ss < 2 ^ 63"
  proof
    show "?pos e + 65536 * length ss < 2 ^ 63" for e
      using spec [OF Cons.prems(4), of e] n by (cases "e = d") auto
  qed
  moreover have "in_order isn ?pos ss" using Cons.prems(3) by (simp add: x)
  ultimately obtain tcp'' where "tcp_inputs ss tcp' = Some (stream_offsets isn ?pos ss, tcp'')"
      "state tcp'' = TCP_CONNECTING \<or> state tcp'' = TCP_ESTABLISHED"
    using Cons.IH [OF _ t(4)] by blast
  then show ?case by (simp add: x t(1))
qed simp

text \<open>The block of a new connection: \<open>nfe_conn_alloc\<close> clears it.\<close>

definition tcp_zero :: nfe_tcp where
  "tcp_zero = \<lparr>half = (\<lambda>_. \<lparr>last_seq_time = 0, init_seq_sent = 0, last_seq_sent = 0, next_seq_sent = 0,
     last_ack_sent = 0, curr_seq_wrap = 0, packets = 0, half_flags = 0, mss = 0\<rparr>),
     state = TCP_CONNECTING, tcp_flags = 0\<rparr>"

text \<open>The first SYN of a direction opens its half.\<close>

lemma syn_opens:
  assumes "packets (half tcp dir) = 0 \<and> half_flags (half tcp dir) = 0 \<and> curr_seq_wrap (half tcp dir) = 0"
    "state tcp = TCP_CONNECTING" "tcp_flags tcp = 0" "th_flags th AND 7 = TH_SYN" "tcp_mss th \<noteq> None"
  shows "\<exists>tcp'. tcp_input th ts dir 0 tcp = Some (0, tcp', False) \<and> state tcp' = TCP_CONNECTING \<and> tcp_flags tcp' = 0 \<and>
     tracked (half tcp' dir) (seq th) 0 (2 ^ 32 - 2) \<and>
     half tcp' (\<not> dir) = half tcp (\<not> dir)\<lparr>last_ack_sent := last_ack_sent (half tcp' (\<not> dir))\<rparr>"
proof -
  have "th_flags th AND TH_SYN = (th_flags th AND 7) AND TH_SYN" by (simp add: TH_SYN_def and.assoc)
  then have s: "th_flags th AND TH_SYN \<noteq> 0" "th_flags th AND 7 = 2" using assms(4) by (simp_all add: TH_SYN_def)
  let ?t = "count_packet th dir tcp"
  have t: "half ?t (\<not> dir) = half tcp (\<not> dir)" "state ?t = TCP_CONNECTING" "tcp_flags ?t = 0" "packets (half ?t dir) = 1"
    "half_flags (half ?t dir) = 0" "curr_seq_wrap (half ?t dir) = 0"
    using assms(1-3) by (simp_all add: count_packet_def)
  have "\<exists>t2. tcp_rcv_syn th ?t dir 0 = Some t2 \<and> state t2 = TCP_CONNECTING \<and> tcp_flags t2 = 0 \<and>
    init_seq_sent (half t2 dir) = seq th \<and> last_seq_sent (half t2 dir) = seq th \<and> next_seq_sent (half t2 dir) = seq th + 1 \<and>
    packets (half t2 dir) = 1 \<and> curr_seq_wrap (half t2 dir) = 0 \<and> half_flags (half t2 dir) = 1 \<and>
    half t2 (\<not> dir) = half tcp (\<not> dir)\<lparr>last_ack_sent := last_ack_sent (half t2 (\<not> dir))\<rparr>"
    using assms(5) t
    by (cases "th_flags th AND TH_ACK = 0") (auto simp: tcp_rcv_syn_def is_open_def F_TCP_HALF_OPEN_def Let_def)
  then obtain t2 where t2: "tcp_rcv_syn th ?t dir 0 = Some t2" "state t2 = TCP_CONNECTING" "tcp_flags t2 = 0"
    "init_seq_sent (half t2 dir) = seq th" "last_seq_sent (half t2 dir) = seq th" "next_seq_sent (half t2 dir) = seq th + 1"
    "packets (half t2 dir) = 1" "curr_seq_wrap (half t2 dir) = 0" "half_flags (half t2 dir) = 1"
    "half t2 (\<not> dir) = half tcp (\<not> dir)\<lparr>last_ack_sent := last_ack_sent (half t2 (\<not> dir))\<rparr>"
    by blast
  have tr: "track th ts dir 0 ?t = Some (0, t2)"
    using t(2) t2(1) unfolding track_def s(2) by (simp add: nfe_tcpfsm_def Let_def)
  let ?t3 = "upd_half dir (\<lambda>h. h\<lparr>last_seq_time := ts\<rparr>) t2"
  have "tcp_input th ts dir 0 tcp = Some (0, ?t3, False)"
    using t2 s(1) by (simp add: tcp_input_def tr Let_def transition_def advance_def tcp_seq_is_after_def tcp_data_offset_def)
  moreover have "tracked (half ?t3 dir) (seq th) 0 (2 ^ 32 - 2)"
    using t2 by (simp add: tracked_def is_closed_def F_TCP_HALF_CLOSED_def seq_ext_def)
  ultimately show ?thesis using t2 by auto
qed

text \<open>
  C33. After the handshake of a connection, the segments of both directions, each in order and interleaved
  in any way, get the position of their data in the stream of their direction: the sequence numbers wrap
  any number of times. Only a direction whose initial sequence number is the largest one has its
  offsets shifted by 2 ^ 32.
\<close>

theorem tcp_inputs_offsets:
  assumes "th_flags syn AND 7 = TH_SYN" "tcp_mss syn \<noteq> None" "th_flags syn_ack AND 7 = TH_SYN" "tcp_mss syn_ack \<noteq> None"
    and "length ss < 2 ^ 32 - 1" "in_order (\<lambda>d. if d then seq syn_ack else seq syn) (\<lambda>_. 0) ss"
  shows "\<exists>tcp. tcp_inputs ((False, syn, t1, 0) # (True, syn_ack, t2, 0) # ss) tcp_zero =
      Some (0 # 0 # stream_offsets (\<lambda>d. if d then seq syn_ack else seq syn) (\<lambda>_. 0) ss, tcp)"
proof -
  obtain a where a: "tcp_input syn t1 False 0 tcp_zero = Some (0, a, False)" "state a = TCP_CONNECTING" "tcp_flags a = 0"
    "tracked (half a False) (seq syn) 0 (2 ^ 32 - 2)"
    "half a True = half tcp_zero True\<lparr>last_ack_sent := last_ack_sent (half a True)\<rparr>"
    using syn_opens [of tcp_zero False syn t1] assms(1,2) by (auto simp: tcp_zero_def)
  have "packets (half a True) = 0 \<and> half_flags (half a True) = 0 \<and> curr_seq_wrap (half a True) = 0"
    by (subst (1 2 3) a(5)) (simp add: tcp_zero_def)
  from syn_opens [OF this a(2,3) assms(3,4), of t2] obtain b where
    b: "tcp_input syn_ack t2 True 0 a = Some (0, b, False)" "state b = TCP_CONNECTING" "tracked (half b True) (seq syn_ack) 0 (2 ^ 32 - 2)"
      "half b False = half a False\<lparr>last_ack_sent := last_ack_sent (half b False)\<rparr>" by auto
  let ?isn = "\<lambda>d. if d then seq syn_ack else seq syn"
  have "tracked (half b False) (seq syn) 0 (2 ^ 32 - 2)"
    by (subst b(4)) (use a(4) in \<open>simp add: tracked_def is_closed_def seq_ext_def\<close>)
  with b(3) have "\<forall>d. tracked (half b d) (?isn d) 0 (length ss)"
    using assms(5) by (auto intro: tracked_mono)
  with tcp_inputs_in_order [of b ?isn "\<lambda>_. 0" ss] b(2) assms(5,6)
  obtain c where "tcp_inputs ss b = Some (stream_offsets ?isn (\<lambda>_. 0) ss, c)" by auto
  then show ?thesis using a(1) b(1) by simp
qed

lemma tcp_inputs_offsets_witness:
  "\<exists>syn syn_ack x y tcp. seq syn = 0xfffffff0 \<and> seq x = 0xfffffff1 \<and> seq y = 0x55 \<and>
     tcp_inputs [(False, syn, 0, 0), (True, syn_ack, 1, 0), (False, x, 2, 100), (False, y, 3, 7)] tcp_zero =
       Some ([0, 0, 0, 100], tcp)"
proof -
  let ?th = "\<lambda>s a f. \<lparr>seq = s, ack_seq = a, offres = 0x50, th_flags = f, window = 100, options = []\<rparr>"
  let ?syn = "?th 0xfffffff0 0 2" and ?syn_ack = "?th 77 0xfffffff1 18"
  let ?ss = "[(False, ?th 0xfffffff1 78 16, 2, 100), (False, ?th 0x55 78 16, 3, 7)]"
  have m: "tcp_mss (?th s a f) \<noteq> None" for s a f
    by (simp add: tcp_mss_def TH_OFF_def mss_loop.simps)
  have "in_order (\<lambda>d. if d then seq ?syn_ack else seq ?syn) (\<lambda>_. 0) ?ss" by simp
  from tcp_inputs_offsets [OF _ m _ m _ this, of 0 1]
  have "\<exists>tcp. tcp_inputs ((False, ?syn, 0, 0) # (True, ?syn_ack, 1, 0) # ?ss) tcp_zero = Some ([0, 0, 0, 100], tcp)"
    by (simp add: TH_SYN_def del: tcp_inputs.simps)
  moreover have "seq ?syn = 0xfffffff0" "seq (?th 0xfffffff1 78 16) = 0xfffffff1" "seq (?th 0x55 78 16) = 0x55" by simp_all
  ultimately show ?thesis by blast
qed

end
