(* ===== verification/Nfe_List.thy ===== *)
theory Nfe_List
  imports Opensync_Prelude "HOL-Library.Monad_Syntax"
begin

text \<open>
  The circular doubly linked lists of \<open>src/src/lib/nfe/inc/nfe_list.h\<close>. A heap maps the address of a list head or
  item to its two links; \<open>None\<close> stands for memory that is not allocated, and an access to it is a fault.
  The operations keep the heap a set of disjoint rings: a ring of one node is an empty list or an item that is in no list.
\<close>

section \<open>Operations\<close>

record 'a nfe_list_head =
  prev :: 'a
  "next" :: 'a

type_synonym 'a link_heap = "'a \<rightharpoonup> 'a nfe_list_head"

definition get_next :: "'a link_heap \<Rightarrow> 'a \<Rightarrow> 'a option" where
  "get_next h p = map_option next (h p)"

definition get_prev :: "'a link_heap \<Rightarrow> 'a \<Rightarrow> 'a option" where
  "get_prev h p = map_option prev (h p)"

definition set_next :: "'a \<Rightarrow> 'a \<Rightarrow> 'a link_heap \<Rightarrow> 'a link_heap option" where
  "set_next p q h = map_option (\<lambda>l. h(p \<mapsto> l\<lparr>next := q\<rparr>)) (h p)"

definition set_prev :: "'a \<Rightarrow> 'a \<Rightarrow> 'a link_heap \<Rightarrow> 'a link_heap option" where
  "set_prev p q h = map_option (\<lambda>l. h(p \<mapsto> l\<lparr>prev := q\<rparr>)) (h p)"

definition nfe_list_init :: "'a \<Rightarrow> 'a link_heap \<Rightarrow> 'a link_heap option" where
  "nfe_list_init p h = do { h \<leftarrow> set_next p p h; set_prev p p h }"

definition nfe_list_insert :: "'a \<Rightarrow> 'a \<Rightarrow> 'a link_heap \<Rightarrow> 'a link_heap option" where
  "nfe_list_insert list item h = do {
     h \<leftarrow> set_next item list h;
     p \<leftarrow> get_prev h list;
     h \<leftarrow> set_prev item p h;
     n \<leftarrow> get_next h item;
     h \<leftarrow> set_prev n item h;
     p \<leftarrow> get_prev h item;
     set_next p item h }"

definition nfe_list_remove :: "'a \<Rightarrow> 'a link_heap \<Rightarrow> 'a link_heap option" where
  "nfe_list_remove item h = do {
     n \<leftarrow> get_next h item;
     p \<leftarrow> get_prev h item;
     h \<leftarrow> set_prev n p h;
     p \<leftarrow> get_prev h item;
     n \<leftarrow> get_next h item;
     h \<leftarrow> set_next p n h;
     h \<leftarrow> set_prev item item h;
     set_next item item h }"

definition nfe_list_empty :: "'a \<Rightarrow> 'a link_heap \<Rightarrow> bool option" where
  "nfe_list_empty p h = do { n \<leftarrow> get_next h p; Some (n = p) }"

definition nfe_list_splice :: "'a \<Rightarrow> 'a \<Rightarrow> 'a link_heap \<Rightarrow> 'a link_heap option" where
  "nfe_list_splice list head h = do {
     empty \<leftarrow> nfe_list_empty list h;
     if empty then Some h
     else do {
       n \<leftarrow> get_next h head;
       l \<leftarrow> get_next h list;
       h \<leftarrow> set_prev l head h;
       l \<leftarrow> get_next h list;
       h \<leftarrow> set_next head l h;
       l \<leftarrow> get_prev h list;
       h \<leftarrow> set_next l n h;
       l \<leftarrow> get_prev h list;
       set_prev n l h }}"

text \<open>\<open>nfe_list_for_each\<close>: the nodes a walk visits.\<close>

partial_function (option) nfe_list_for_each :: "'a link_heap \<Rightarrow> 'a \<Rightarrow> 'a \<Rightarrow> 'a list option" where
  [code]: "nfe_list_for_each h head p =
     (if p = head then Some []
      else do { q \<leftarrow> get_next h p; ps \<leftarrow> nfe_list_for_each h head q; Some (p # ps) })"

section \<open>Rings\<close>

fun links :: "'a link_heap \<Rightarrow> 'a list \<Rightarrow> bool" where
  "links h (a # b # l) \<longleftrightarrow> get_next h a = Some b \<and> get_prev h b = Some a \<and> links h (b # l)"
| "links h l \<longleftrightarrow> True"

definition ring :: "'a link_heap \<Rightarrow> 'a \<Rightarrow> 'a list \<Rightarrow> bool" where
  "ring h x xs \<longleftrightarrow> distinct (x # xs) \<and> links h (x # xs @ [x])"

lemma path_append: "links h (as @ a # bs) \<longleftrightarrow> links h (as @ [a]) \<and> links h (a # bs)"
  by (induction h "as @ [a]" arbitrary: "as" rule: links.induct) (auto simp: Cons_eq_append_conv)

lemma links_cong:
  assumes "\<forall>a\<in>set (butlast l). get_next h' a = get_next h a" "\<forall>b\<in>set (tl l). get_prev h' b = get_prev h b"
  shows "links h' l = links h l"
  using assms by (induction h l rule: links.induct) auto

lemma get_upd [simp]:
  "get_next (h(p \<mapsto> l)) q = (if q = p then Some (next l) else get_next h q)"
  "get_prev (h(p \<mapsto> l)) q = (if q = p then Some (prev l) else get_prev h q)"
  by (simp_all add: get_next_def get_prev_def)

lemma links_allocated: "links h (a # l) \<Longrightarrow> l \<noteq> [] \<Longrightarrow> set (a # l) \<subseteq> dom h"
proof (induction l arbitrary: a)
  case (Cons b l)
  then have "a \<in> dom h" "b \<in> dom h" by (auto simp: get_next_def get_prev_def)
  then show ?case using Cons by (cases l) auto
qed simp

lemma ring_allocated: "ring h x xs \<Longrightarrow> set (x # xs) \<subseteq> dom h"
  using links_allocated [of h x "xs @ [x]"] by (simp add: ring_def)

lemma ring_frame:
  assumes "ring h x xs" "\<forall>p\<in>set (x # xs). h' p = h p"
  shows "ring h' x xs"
proof -
  have "links h' (x # xs @ [x]) = links h (x # xs @ [x])"
    using assms(2) by (intro links_cong) (auto simp: get_next_def get_prev_def)
  then show ?thesis using assms(1) by (simp add: ring_def)
qed

lemma ring_single: "ring h x [] \<longleftrightarrow> h x = Some \<lparr>prev = x, next = x\<rparr>"
  by (cases "h x") (auto simp: ring_def get_next_def get_prev_def)

lemma dom_upd_in: "p \<in> dom h \<Longrightarrow> dom (h(p \<mapsto> l)) = dom h"
  by auto

lemma nfe_list_insert_eq:
  assumes "item \<in> dom h" "get_prev h list = Some z" "z \<in> dom h" "item \<noteq> list" "item \<noteq> z"
  shows "\<exists>h'. nfe_list_insert list item h = Some h' \<and> dom h' = dom h \<and>
     get_next h' = (get_next h)(item := Some list, z := Some item) \<and>
     get_prev h' = (get_prev h)(list := Some item, item := Some z) \<and> (\<forall>p. p \<notin> {item, list, z} \<longrightarrow> h' p = h p)"
proof -
  obtain li ll lz where l: "h item = Some li" "h list = Some ll" "h z = Some lz" "prev ll = z"
    using assms(1-3) by (auto simp: get_prev_def)
  let ?h = "h(item \<mapsto> li\<lparr>next := list, prev := z\<rparr>, list \<mapsto> ll\<lparr>prev := item\<rparr>)"
  let ?h' = "?h(z \<mapsto> (the (?h z))\<lparr>next := item\<rparr>)"
  have "nfe_list_insert list item h = Some ?h'"
    using l assms(4,5) by (cases "list = z") (simp_all add: nfe_list_insert_def set_next_def set_prev_def get_next_def get_prev_def)
  moreover have "get_next ?h' = (get_next h)(item := Some list, z := Some item)"
    using l assms(4,5) by (cases "list = z") (auto simp: fun_eq_iff get_next_def)
  moreover have "get_prev ?h' = (get_prev h)(list := Some item, item := Some z)"
    using l assms(4,5) by (cases "list = z") (auto simp: fun_eq_iff get_prev_def)
  moreover have "dom ?h' = dom h" using l by (auto simp: dom_upd_in)
  ultimately show ?thesis by (intro exI [of _ ?h']) auto
qed

lemma ring_insert:
  assumes "ring h x xs" "i \<in> dom h" "i \<notin> set (x # xs)"
  shows "\<exists>h'. nfe_list_insert x i h = Some h' \<and> ring h' x (xs @ [i]) \<and> dom h' = dom h \<and>
     (\<forall>p. p \<notin> set (i # x # xs) \<longrightarrow> h' p = h p)"
proof -
  obtain ys z where z: "x # xs = ys @ [z]" by (metis list.discI rev_exhaust)
  have l: "links h (ys @ [z])" "links h [z, x]"
    using assms(1) path_append [of h ys z "[x]"] z unfolding ring_def append_Cons [symmetric] by simp_all
  have "z \<in> dom h" "z \<in> set (x # xs)" using ring_allocated [OF assms(1)] z by auto
  then obtain h' where h': "nfe_list_insert x i h = Some h'" "dom h' = dom h"
     "get_next h' = (get_next h)(i := Some x, z := Some i)" "get_prev h' = (get_prev h)(x := Some i, i := Some z)"
     "\<forall>p. p \<notin> {i, x, z} \<longrightarrow> h' p = h p"
    using nfe_list_insert_eq [of i h x z] assms(2,3) l(2) by auto
  have d: "distinct (ys @ [z])" "i \<notin> set (ys @ [z])" using assms(1,3) unfolding ring_def z [symmetric] by auto
  have "tl (ys @ [z]) = xs" using z by (metis list.sel(3))
  moreover have "x \<notin> set xs" "i \<notin> set xs" using assms(1,3) by (simp_all add: ring_def)
  ultimately have "links h' (ys @ [z])"
    using l(1) d
    by (subst links_cong [of _ _ h]) (auto simp: h'(3,4))
  moreover have "links h' [z, i, x]" using d assms(3) by (auto simp: h'(3,4))
  ultimately have "links h' (ys @ [z, i, x])" using path_append [of h' ys z "[i, x]"] by simp
  then have "links h' (x # (xs @ [i]) @ [x])" using z by (metis append.assoc append_Cons append_Nil)
  then show ?thesis using h' assms \<open>z \<in> set (x # xs)\<close> by (auto simp: ring_def)
qed

lemma nfe_list_remove_eq:
  assumes "get_next h item = Some n" "get_prev h item = Some p" "n \<in> dom h" "p \<in> dom h" "item \<noteq> n" "item \<noteq> p"
  shows "\<exists>h'. nfe_list_remove item h = Some h' \<and> dom h' = dom h \<and>
     get_next h' = (get_next h)(item := Some item, p := Some n) \<and>
     get_prev h' = (get_prev h)(item := Some item, n := Some p) \<and> (\<forall>q. q \<notin> {item, n, p} \<longrightarrow> h' q = h q)"
proof -
  obtain li where i: "h item = Some li" "next li = n" using assms(1) by (auto simp: get_next_def)
  then have "prev li = p" using assms(2) by (simp add: get_prev_def)
  moreover obtain ln lp where "h n = Some ln" "h p = Some lp" using assms(3,4) by blast
  ultimately have l: "h item = Some li" "h n = Some ln" "h p = Some lp" "next li = n" "prev li = p" using i by simp_all
  let ?h = "h(n \<mapsto> ln\<lparr>prev := p\<rparr>)"
  let ?h' = "?h(p \<mapsto> (the (?h p))\<lparr>next := n\<rparr>, item \<mapsto> li\<lparr>prev := item, next := item\<rparr>)"
  have "nfe_list_remove item h = Some ?h'"
    using l assms(5,6) by (cases "n = p") (simp_all add: nfe_list_remove_def set_next_def set_prev_def get_next_def get_prev_def)
  moreover have "get_next ?h' = (get_next h)(item := Some item, p := Some n)"
    using l assms(5,6) by (cases "n = p") (auto simp: fun_eq_iff get_next_def)
  moreover have "get_prev ?h' = (get_prev h)(item := Some item, n := Some p)"
    using l assms(5,6) by (cases "n = p") (auto simp: fun_eq_iff get_prev_def)
  moreover have "dom ?h' = dom h" using l by (auto simp: dom_upd_in)
  ultimately show ?thesis by (intro exI [of _ ?h']) auto
qed

lemma ring_remove:
  assumes "ring h x (as @ i # bs)"
  shows "\<exists>h'. nfe_list_remove i h = Some h' \<and> ring h' x (as @ bs) \<and> ring h' i [] \<and> dom h' = dom h \<and>
     (\<forall>q. q \<notin> set (x # as @ i # bs) \<longrightarrow> h' q = h q)"
proof -
  obtain ys p where p: "x # as = ys @ [p]" by (metis list.discI rev_exhaust)
  obtain n zs where n: "bs @ [x] = n # zs" by (cases "bs @ [x]") auto
  have "x # (as @ i # bs) @ [x] = (x # as) @ i # (bs @ [x])" by simp
  also have "\<dots> = ys @ p # i # n # zs" by (simp only: p n) simp
  finally have l: "links h (ys @ [p])" "links h [p, i, n]" "links h (n # zs)"
    using assms path_append [of h ys p "i # n # zs"] unfolding ring_def by simp_all
  have m: "n \<in> set (bs @ [x])" "p \<in> set (x # as)" unfolding p n by simp_all
  have d: "distinct (x # as @ i # bs)" using assms by (simp add: ring_def)
  have "n \<in> dom h" "p \<in> dom h" "i \<noteq> n" "i \<noteq> p" using m d ring_allocated [OF assms] by auto
  then obtain h' where h': "nfe_list_remove i h = Some h'" "dom h' = dom h"
     "get_next h' = (get_next h)(i := Some i, p := Some n)" "get_prev h' = (get_prev h)(i := Some i, n := Some p)"
     "\<forall>q. q \<notin> {i, n, p} \<longrightarrow> h' q = h q"
    using nfe_list_remove_eq [of h i n p] l(2) by auto
  have "links h' (ys @ [p])"
  proof -
    have "i \<notin> set (ys @ [p])" "distinct (ys @ [p])" using d unfolding p [symmetric] by auto
    moreover have "tl (ys @ [p]) = as" using p by (metis list.sel(3))
    moreover have "n \<notin> set as" "i \<notin> set as" using d m by auto
    ultimately show ?thesis using l(1) by (subst links_cong [of _ _ h]) (auto simp: h'(3,4))
  qed
  moreover have "links h' (n # zs)"
  proof -
    have "i \<notin> set (n # zs)" "distinct (n # zs)" using d unfolding n [symmetric] by auto
    moreover have "butlast (n # zs) = bs" using n by (metis butlast_snoc)
    moreover have "p \<notin> set bs" "i \<notin> set bs" using d m by auto
    ultimately show ?thesis using l(3) by (subst links_cong [of _ _ h]) (auto simp: h'(3,4))
  qed
  moreover have "links h' [p, n]" using \<open>i \<noteq> n\<close> \<open>i \<noteq> p\<close> by (simp add: h'(3,4))
  ultimately have "links h' (ys @ p # n # zs)" using path_append [of h' ys p "n # zs"] by simp
  moreover have "x # (as @ bs) @ [x] = (x # as) @ (bs @ [x])" by simp
  ultimately have "links h' (x # (as @ bs) @ [x])" by (simp only: p n) simp
  then show ?thesis
    using h' d m \<open>i \<noteq> n\<close> \<open>i \<noteq> p\<close> by (auto simp: ring_def)
qed

lemma ring_remove_single: "ring h i [] \<Longrightarrow> nfe_list_remove i h = Some h"
  by (simp add: ring_single nfe_list_remove_def get_next_def get_prev_def set_next_def set_prev_def fun_upd_idem)

lemma ring_init:
  assumes "p \<in> dom h"
  shows "nfe_list_init p h = Some (h(p \<mapsto> \<lparr>prev = p, next = p\<rparr>))" "ring (h(p \<mapsto> \<lparr>prev = p, next = p\<rparr>)) p []"
proof -
  obtain l where "h p = Some l" using assms by blast
  then show "nfe_list_init p h = Some (h(p \<mapsto> \<lparr>prev = p, next = p\<rparr>))"
    by (cases l) (simp add: nfe_list_init_def set_next_def set_prev_def)
qed (simp add: ring_single)

lemma ring_next: "ring h x xs \<Longrightarrow> get_next h x = Some (hd (xs @ [x]))"
  by (cases xs) (simp_all add: ring_def)

lemma ring_next_item:
  assumes "ring h x (as @ i # bs)"
  shows "get_next h i = Some (hd (bs @ [x]))"
proof -
  have "links h (i # bs @ [x])" using assms path_append [of h "x # as" i "bs @ [x]"] by (simp add: ring_def)
  then show ?thesis by (cases bs) simp_all
qed

section \<open>A heap of disjoint rings\<close>

definition rings :: "'a link_heap \<Rightarrow> 'a set \<Rightarrow> ('a \<Rightarrow> 'a list) \<Rightarrow> bool" where
  "rings h H R \<longleftrightarrow>
     (\<forall>x\<in>H. ring h x (R x)) \<and> (\<forall>x\<in>H. \<forall>y\<in>H. x \<noteq> y \<longrightarrow> set (x # R x) \<inter> set (y # R y) = {})"

lemma rings_ring: "rings h H R \<Longrightarrow> x \<in> H \<Longrightarrow> ring h x (R x)"
  by (simp add: rings_def)

lemma rings_disjoint: "rings h H R \<Longrightarrow> x \<in> H \<Longrightarrow> y \<in> H \<Longrightarrow> x \<noteq> y \<Longrightarrow> set (x # R x) \<inter> set (y # R y) = {}"
  unfolding rings_def by blast

lemma ringsI:
  assumes "\<And>x. x \<in> H \<Longrightarrow> ring h x (R x)"
    and "\<And>x y. x \<in> H \<Longrightarrow> y \<in> H \<Longrightarrow> x \<noteq> y \<Longrightarrow> set (x # R x) \<inter> set (y # R y) = {}"
  shows "rings h H R"
  using assms unfolding rings_def by blast

text \<open>The item moves from a ring of its own into the ring of the list, at its end.\<close>

lemma rings_insert:
  assumes r: "rings h H R" and H: "x \<in> H" "i \<in> H" "i \<noteq> x" "R i = []"
  shows "\<exists>h'. nfe_list_insert x i h = Some h' \<and> rings h' (H - {i}) (R(x := R x @ [i])) \<and> dom h' = dom h"
proof -
  have i: "i \<in> dom h" using ring_allocated [OF rings_ring [OF r H(2)]] by simp
  have ni: "i \<notin> set (x # R x)" using rings_disjoint [OF r H(1,2)] H(3) by auto
  obtain h' where h': "nfe_list_insert x i h = Some h'" "ring h' x (R x @ [i])" "dom h' = dom h"
    "\<forall>p. p \<notin> set (i # x # R x) \<longrightarrow> h' p = h p"
    using ring_insert [OF rings_ring [OF r H(1)] i ni] by blast
  let ?R = "R(x := R x @ [i])"
  have "rings h' (H - {i}) ?R"
  proof (rule ringsI)
    fix y assume y: "y \<in> H - {i}"
    show "ring h' y (?R y)"
    proof (cases "y = x")
      case False
      then have "set (y # R y) \<inter> set (i # x # R x) = {}"
        using rings_disjoint [OF r H(1), of y] rings_disjoint [OF r H(2), of y] y by auto
      then have "\<forall>p\<in>set (y # R y). h' p = h p" using h'(4) by blast
      then show ?thesis using ring_frame [OF rings_ring [OF r]] y False by simp
    qed (use h'(2) in simp)
  next
    fix y z assume yz: "y \<in> H - {i}" "z \<in> H - {i}" "y \<noteq> z"
    have "i \<notin> set (w # R w)" if "w \<in> H - {i}" for w using rings_disjoint [OF r H(2), of w] that by auto
    then show "set (y # ?R y) \<inter> set (z # ?R z) = {}"
      using rings_disjoint [OF r, of y z] yz by (auto split: if_splits)
  qed
  then show ?thesis using h' by blast
qed

text \<open>A removed item is alone in its ring.\<close>

lemma rings_remove:
  assumes r: "rings h H R" and H: "x \<in> H" "R x = as @ i # bs"
  shows "\<exists>h'. nfe_list_remove i h = Some h' \<and> rings h' (insert i H) (R(x := as @ bs, i := [])) \<and> dom h' = dom h"
proof -
  have rx: "ring h x (as @ i # bs)" using rings_ring [OF r H(1)] H(2) by simp
  obtain h' where h': "nfe_list_remove i h = Some h'" "ring h' x (as @ bs)" "ring h' i []" "dom h' = dom h"
    "\<forall>q. q \<notin> set (x # as @ i # bs) \<longrightarrow> h' q = h q"
    using ring_remove [OF rx] by blast
  have d: "distinct (x # as @ i # bs)" using rx by (simp add: ring_def)
  have far: "set (y # R y) \<inter> set (x # as @ i # bs) = {}" if "y \<in> H" "y \<noteq> x" for y
    using rings_disjoint [OF r that(1) H(1) that(2)] H(2) by simp
  have ni: "i \<notin> H"
  proof
    assume "i \<in> H"
    moreover have "i \<noteq> x" using d by auto
    ultimately show False using far [of i] by auto
  qed
  let ?R = "R(x := as @ bs, i := [])"
  have "rings h' (insert i H) ?R"
  proof (rule ringsI)
    fix y assume y: "y \<in> insert i H"
    show "ring h' y (?R y)"
    proof (cases "y = i \<or> y = x")
      case True
      then show ?thesis using h'(2,3) d by auto
    next
      case False
      then have "\<forall>p\<in>set (y # R y). h' p = h p" using far [of y] h'(5) y by blast
      then show ?thesis using ring_frame [OF rings_ring [OF r]] y False by simp
    qed
  next
    fix y z assume yz: "y \<in> insert i H" "z \<in> insert i H" "y \<noteq> z"
    have sub: "i \<notin> set (w # ?R w)" if "w \<in> H" for w
    proof (cases "w = x")
      case True
      then show ?thesis using d that ni by auto
    next
      case False
      then show ?thesis using far [OF that] that ni by auto
    qed
    show "set (y # ?R y) \<inter> set (z # ?R z) = {}"
    proof (cases "y = i \<or> z = i")
      case True
      have one: "set (i # ?R i) = {i}" by simp
      from True show ?thesis
      proof
        assume y: "y = i"
        then have "z \<in> H" using yz by blast
        then show ?thesis unfolding y one using sub [of z] by blast
      next
        assume z: "z = i"
        then have "y \<in> H" using yz by blast
        then show ?thesis unfolding z one using sub [of y] by blast
      qed
    next
      case False
      then have "set (y # R y) \<inter> set (z # R z) = {}" using rings_disjoint [OF r] yz by auto
      moreover have "set (w # ?R w) \<subseteq> set (w # R w)" if "w \<noteq> i" for w using that H(2) by auto
      ultimately show ?thesis using False by blast
    qed
  qed
  then show ?thesis using h' by blast
qed

lemma rings_remove_single:
  assumes "rings h H R" "i \<in> H" "R i = []"
  shows "nfe_list_remove i h = Some h"
  using ring_remove_single rings_ring [OF assms(1,2)] assms(3) by simp

text \<open>New and freed items.\<close>

lemma rings_new:
  assumes r: "rings h H R" and i: "i \<notin> (\<Union>x\<in>H. set (x # R x))"
  shows "rings (h(i \<mapsto> \<lparr>prev = i, next = i\<rparr>)) (insert i H) (R(i := []))"
proof (rule ringsI)
  fix y assume y: "y \<in> insert i H"
  show "ring (h(i \<mapsto> \<lparr>prev = i, next = i\<rparr>)) y ((R(i := [])) y)"
  proof (cases "y = i")
    case False
    then have "i \<notin> set (y # R y)" using y i by auto
    then have "ring (h(i \<mapsto> \<lparr>prev = i, next = i\<rparr>)) y (R y)"
      using y False by (intro ring_frame [OF rings_ring [OF r]]) auto
    then show ?thesis using False by simp
  qed (simp add: ring_single)
next
  fix y z assume "y \<in> insert i H" "z \<in> insert i H" "y \<noteq> z"
  then show "set (y # (R(i := [])) y) \<inter> set (z # (R(i := [])) z) = {}"
    using rings_disjoint [OF r, of y z] i by auto
qed

lemma rings_free:
  assumes r: "rings h H R" and i: "i \<in> H" "R i = []"
  shows "rings (h(i := None)) (H - {i}) R"
proof (rule ringsI)
  fix y assume y: "y \<in> H - {i}"
  then have "i \<notin> set (y # R y)" using rings_disjoint [OF r i(1), of y] by auto
  then show "ring (h(i := None)) y (R y)"
    using y by (intro ring_frame [OF rings_ring [OF r]]) auto
next
  fix y z assume "y \<in> H - {i}" "z \<in> H - {i}" "y \<noteq> z"
  then show "set (y # R y) \<inter> set (z # R z) = {}" using rings_disjoint [OF r] by blast
qed

lemma rings_cong: "rings h H R \<Longrightarrow> H = H' \<Longrightarrow> (\<And>x. x \<in> H' \<Longrightarrow> R x = R' x) \<Longrightarrow> rings h H' R'"
  unfolding rings_def by simp

text \<open>Walks end at the head after visiting the items in order.\<close>

lemma nfe_list_for_each_ring:
  assumes "ring h x (as @ bs)"
  shows "nfe_list_for_each h x (hd (bs @ [x])) = Some bs"
  using assms
proof (induction bs arbitrary: "as")
  case Nil
  then show ?case by (simp add: nfe_list_for_each.simps)
next
  case (Cons b bs)
  have "get_next h b = Some (hd (bs @ [x]))" using ring_next_item Cons.prems by metis
  moreover have "nfe_list_for_each h x (hd (bs @ [x])) = Some bs" using Cons.IH [of "as @ [b]"] Cons.prems by simp
  moreover have "b \<noteq> x" using Cons.prems by (auto simp: ring_def)
  ultimately show ?case by (subst nfe_list_for_each.simps) simp
qed

end
