(* ===== verification/Nfe_Conntrack.thy ===== *)
theory Nfe_Conntrack
  imports Nfe_Tcp Nfe_List
begin

text \<open>
  The connection table of \<open>src/src/lib/nfe\<close>: \<open>nfe_conntrack.c\<close>, \<open>nfe_conn.c\<close>, the table operations of \<open>nfe.c\<close> and the
  lookups of \<open>nfe_tcp.c\<close>, \<open>nfe_udp.c\<close>, \<open>nfe_icmp.c\<close> and \<open>nfe_ether.c\<close>. A connection is reached through a pointer; its two
  list items and the list heads of the table are nodes of one heap of links, so that \<open>container_of\<close> is the
  argument of a node. Freeing a connection removes it and its nodes from the state, and an access to it is
  then a fault, \<open>None\<close>. What \<open>nfe_ext_conn_alloc\<close> returns is the argument \<open>new\<close> of the operations that call it.
\<close>

section \<open>Types\<close>

datatype lru_proto =
  LRU_PROTO_ICMP | LRU_PROTO_TCP_SYN | LRU_PROTO_TCP_EST | LRU_PROTO_UDP | LRU_PROTO_ETHER

datatype alloc_policy = NFE_ALLOC_POLICY_NONE | NFE_ALLOC_POLICY_CREATE | NFE_ALLOC_POLICY_INVERT

type_synonym conn_ptr = nat

datatype node = Bucket nat | Lru lru_proto | List_of conn_ptr | Lru_of conn_ptr

record nfe_conn =
  conn_tuple :: nfe_tuple
  tcp_cb :: nfe_tcp
  lockref :: u32
  conn_timestamp :: u64

text \<open>\<open>ct_size\<close> is the number of buckets.\<close>

record nfe_conntrack =
  ct_size :: u32
  expiry :: "lru_proto \<Rightarrow> u64"
  link :: "node link_heap"
  conns :: "conn_ptr \<rightharpoonup> nfe_conn"

definition upd_conn :: "conn_ptr \<Rightarrow> (nfe_conn \<Rightarrow> nfe_conn) \<Rightarrow> nfe_conntrack \<Rightarrow> nfe_conntrack option" where
  "upd_conn c f ct = map_option (\<lambda>conn. ct\<lparr>conns := (conns ct)(c \<mapsto> f conn)\<rparr>) (conns ct c)"

definition upd_link :: "(node link_heap \<Rightarrow> node link_heap option) \<Rightarrow> nfe_conntrack \<Rightarrow> nfe_conntrack option" where
  "upd_link f ct = map_option (\<lambda>h. ct\<lparr>link := h\<rparr>) (f (link ct))"

section \<open>The table\<close>

definition clp2 :: "u32 \<Rightarrow> u32" where
  "clp2 n =
     (let n = n - 1; n = n OR drop_bit 1 n; n = n OR drop_bit 2 n; n = n OR drop_bit 4 n;
          n = n OR drop_bit 8 n; n = n OR drop_bit 16 n
      in n + 1)"

text \<open>The timeouts of \<open>nfe_config.c\<close>, in seconds.\<close>

record nfe_config =
  nfe_conntrack_tcp_midflow :: bool
  nfe_conntrack_tcp_timeout_syn :: int
  nfe_conntrack_tcp_timeout_est :: int
  nfe_conntrack_udp_timeout :: int
  nfe_conntrack_icmp_timeout :: int
  nfe_conntrack_ether_timeout :: int

definition default_config :: nfe_config where
  "default_config = \<lparr>nfe_conntrack_tcp_midflow = False, nfe_conntrack_tcp_timeout_syn = 60,
     nfe_conntrack_tcp_timeout_est = 3600, nfe_conntrack_udp_timeout = 180,
     nfe_conntrack_icmp_timeout = 30, nfe_conntrack_ether_timeout = 30\<rparr>"

definition timeouts :: "nfe_config \<Rightarrow> lru_proto \<Rightarrow> u64" where
  "timeouts cfg l = word_of_int
     ((case l of LRU_PROTO_ICMP \<Rightarrow> nfe_conntrack_icmp_timeout cfg
       | LRU_PROTO_TCP_SYN \<Rightarrow> nfe_conntrack_tcp_timeout_syn cfg
       | LRU_PROTO_TCP_EST \<Rightarrow> nfe_conntrack_tcp_timeout_est cfg
       | LRU_PROTO_UDP \<Rightarrow> nfe_conntrack_udp_timeout cfg
       | LRU_PROTO_ETHER \<Rightarrow> nfe_conntrack_ether_timeout cfg) * 1000)"

definition nfe_conntrack_update_timeouts :: "nfe_config \<Rightarrow> nfe_conntrack \<Rightarrow> nfe_conntrack" where
  "nfe_conntrack_update_timeouts cfg ct = ct\<lparr>expiry := timeouts cfg\<rparr>"

text \<open>\<open>None\<close> is \<open>-EINVAL\<close>; the allocation of the table succeeds.\<close>

definition nfe_conntrack_create :: "nfe_config \<Rightarrow> u32 \<Rightarrow> nfe_conntrack option" where
  "nfe_conntrack_create cfg buckets =
     (let buckets = clp2 buckets in
      if buckets = 0 then None
      else Some \<lparr>ct_size = buckets, expiry = timeouts cfg,
        link = (\<lambda>n. case n of Bucket i \<Rightarrow> (if i < unat buckets then Some \<lparr>prev = n, next = n\<rparr> else None)
                     | Lru l \<Rightarrow> Some \<lparr>prev = n, next = n\<rparr> | _ \<Rightarrow> None),
        conns = Map.empty\<rparr>)"

definition ct_bucket :: "nfe_conntrack \<Rightarrow> u32 \<Rightarrow> node" where
  "ct_bucket ct h = Bucket (unat (h AND (ct_size ct - 1)))"

partial_function (option) lookup_loop :: "nfe_conntrack \<Rightarrow> node \<Rightarrow> nfe_tuple \<Rightarrow> node \<Rightarrow> conn_ptr option option" where
  [code]: "lookup_loop ct b t p =
     (if p = b then Some None
      else case p of
        List_of c \<Rightarrow> do {
          conn \<leftarrow> conns ct c;
          if nfe_tuple_equal (conn_tuple conn) t then Some (Some c)
          else do { q \<leftarrow> get_next (link ct) p; lookup_loop ct b t q }}
      | _ \<Rightarrow> None)"

definition ct_lookup_hash :: "nfe_conntrack \<Rightarrow> nfe_tuple \<Rightarrow> u32 \<Rightarrow> (conn_ptr option \<times> nfe_conntrack) option" where
  "ct_lookup_hash ct t h = do {
     p \<leftarrow> get_next (link ct) (ct_bucket ct h);
     r \<leftarrow> lookup_loop ct (ct_bucket ct h) t p;
     case r of
       None \<Rightarrow> Some (None, ct)
     | Some c \<Rightarrow> do { ct \<leftarrow> upd_conn c (\<lambda>conn. conn\<lparr>lockref := lockref conn + 1\<rparr>) ct; Some (Some c, ct) }}"

definition nfe_conn_alloc :: "conn_ptr option \<Rightarrow> nfe_packet \<Rightarrow> bool \<Rightarrow> nfe_conntrack \<Rightarrow> (conn_ptr option \<times> nfe_conntrack) option" where
  "nfe_conn_alloc new packet invert ct =
     (case new of
        None \<Rightarrow> Some (None, ct)
      | Some c \<Rightarrow> do {
          let t = (if invert then nfe_tuple_copy (tuple packet) True else tuple packet);
          let l = (\<lambda>n. \<lparr>prev = n, next = n\<rparr>);
          let ct = ct\<lparr>conns := (conns ct)(c \<mapsto> \<lparr>conn_tuple = t, tcp_cb = tcp_zero, lockref = 0, conn_timestamp = 0\<rparr>),
                      link := (link ct)(List_of c \<mapsto> l (List_of c), Lru_of c \<mapsto> l (Lru_of c))\<rparr>;
          ct \<leftarrow> upd_link (nfe_list_init (List_of c)) ct;
          ct \<leftarrow> upd_link (nfe_list_init (Lru_of c)) ct;
          Some (Some c, ct) })"

definition nfe_conntrack_lookup ::
    "conn_ptr option \<Rightarrow> nfe_packet \<Rightarrow> alloc_policy \<Rightarrow> nfe_conntrack \<Rightarrow> (conn_ptr option \<times> nfe_conntrack) option" where
  "nfe_conntrack_lookup new packet policy ct = do {
     (conn, ct) \<leftarrow> ct_lookup_hash ct (tuple packet) (hash packet);
     if conn = None \<and> policy \<noteq> NFE_ALLOC_POLICY_NONE then do {
       (conn, ct) \<leftarrow> nfe_conn_alloc new packet (policy = NFE_ALLOC_POLICY_INVERT) ct;
       case conn of
         None \<Rightarrow> Some (None, ct)
       | Some c \<Rightarrow> do {
           ct \<leftarrow> upd_link (nfe_list_insert (ct_bucket ct (hash packet)) (List_of c)) ct;
           ct \<leftarrow> upd_conn c (\<lambda>conn. conn\<lparr>lockref := lockref conn + 1\<rparr>) ct;
           Some (Some c, ct) }}
     else Some (conn, ct) }"

text \<open>\<open>nfe_assert\<close> stops the program, a fault here.\<close>

definition nfe_conn_release :: "conn_ptr option \<Rightarrow> nfe_conntrack \<Rightarrow> nfe_conntrack option" where
  "nfe_conn_release conn ct =
     (case conn of
        None \<Rightarrow> Some ct
      | Some c \<Rightarrow> do {
          conn \<leftarrow> conns ct c;
          if lockref conn = 0 then None
          else do {
            ct \<leftarrow> upd_conn c (\<lambda>conn. conn\<lparr>lockref := lockref conn - 1\<rparr>) ct;
            if lockref conn - 1 = 0 then do {
              ct \<leftarrow> upd_link (nfe_list_remove (List_of c)) ct;
              ct \<leftarrow> upd_link (nfe_list_remove (Lru_of c)) ct;
              Some (ct\<lparr>conns := (conns ct)(c := None), link := (link ct)(List_of c := None, Lru_of c := None)\<rparr>) }
            else Some ct }})"

definition nfe_conntrack_lru_update :: "lru_proto \<Rightarrow> conn_ptr \<Rightarrow> nfe_conntrack \<Rightarrow> nfe_conntrack option" where
  "nfe_conntrack_lru_update l c ct = do {
     ct \<leftarrow> upd_link (nfe_list_remove (Lru_of c)) ct;
     upd_link (nfe_list_insert (Lru l) (Lru_of c)) ct }"

text \<open>\<open>nfe_list_for_each_entry_safe\<close> reads the successor before the body runs.\<close>

partial_function (option) expire_loop :: "lru_proto \<Rightarrow> u64 \<Rightarrow> node \<Rightarrow> node \<Rightarrow> nfe_conntrack \<Rightarrow> nfe_conntrack option" where
  [code]: "expire_loop l ts p tmp ct =
     (if p = Lru l then Some ct
      else case p of
        Lru_of c \<Rightarrow> do {
          conn \<leftarrow> conns ct c;
          if lockref conn = 0 then None
          else if ts < conn_timestamp conn \<or> ts - conn_timestamp conn < expiry ct l then Some ct
          else do {
            ct \<leftarrow> nfe_conn_release (Some c) ct;
            q \<leftarrow> get_next (link ct) tmp;
            expire_loop l ts tmp q ct }}
      | _ \<Rightarrow> None)"

definition nfe_conntrack_lru_expire :: "lru_proto \<Rightarrow> u64 \<Rightarrow> nfe_conntrack \<Rightarrow> nfe_conntrack option" where
  "nfe_conntrack_lru_expire l ts ct = do {
     p \<leftarrow> get_next (link ct) (Lru l);
     tmp \<leftarrow> get_next (link ct) p;
     expire_loop l ts p tmp ct }"

section \<open>Lookups by protocol\<close>

text \<open>\<open>memcmp\<close> of the first addresses over the length of the domain: 1 for a packet of the other direction.\<close>

definition conn_direction :: "nfe_tuple \<Rightarrow> nfe_tuple \<Rightarrow> u8 \<Rightarrow> bool" where
  "conn_direction u t d \<longleftrightarrow> memcmp (take (domain_len d) (addr0 u)) (take (domain_len d) (addr0 t)) \<noteq> 0"

definition nfe_udp_lookup ::
    "conn_ptr option \<Rightarrow> nfe_packet \<Rightarrow> nfe_conntrack \<Rightarrow> (conn_ptr option \<times> nfe_packet \<times> nfe_conntrack) option" where
  "nfe_udp_lookup new packet ct = do {
     ct \<leftarrow> nfe_conntrack_lru_expire LRU_PROTO_UDP (timestamp packet) ct;
     (r, ct) \<leftarrow> nfe_conntrack_lookup new packet NFE_ALLOC_POLICY_CREATE ct;
     let done_packet = (\<lambda>packet. packet\<lparr>next_op := NEXT_NONE, prot := None\<rparr>);
     case r of
       None \<Rightarrow> Some (None, done_packet packet, ct)
     | Some c \<Rightarrow> do {
         ct \<leftarrow> upd_conn c (\<lambda>conn. conn\<lparr>conn_timestamp := timestamp packet\<rparr>) ct;
         conn \<leftarrow> conns ct c;
         let dir = conn_direction (conn_tuple conn) (tuple packet) (domain (conn_tuple conn));
         ct \<leftarrow> nfe_conntrack_lru_update LRU_PROTO_UDP c ct;
         Some (Some c, done_packet (packet\<lparr>direction := of_bool dir\<rparr>), ct) }}"

definition nfe_icmp_lookup ::
    "conn_ptr option \<Rightarrow> nfe_packet \<Rightarrow> nfe_conntrack \<Rightarrow> (conn_ptr option \<times> nfe_packet \<times> nfe_conntrack) option" where
  "nfe_icmp_lookup new packet ct = do {
     ct \<leftarrow> nfe_conntrack_lru_expire LRU_PROTO_ICMP (timestamp packet) ct;
     (r, ct) \<leftarrow> nfe_conntrack_lookup new packet NFE_ALLOC_POLICY_CREATE ct;
     case r of
       None \<Rightarrow> Some (None, packet, ct)
     | Some c \<Rightarrow> do {
         ct \<leftarrow> upd_conn c (\<lambda>conn. conn\<lparr>conn_timestamp := timestamp packet\<rparr>) ct;
         ct \<leftarrow> nfe_conntrack_lru_update LRU_PROTO_ICMP c ct;
         Some (Some c, packet, ct) }}"

definition nfe_ether_lookup ::
    "conn_ptr option \<Rightarrow> nfe_packet \<Rightarrow> nfe_conntrack \<Rightarrow> (conn_ptr option \<times> nfe_packet \<times> nfe_conntrack) option" where
  "nfe_ether_lookup new packet ct = do {
     ct \<leftarrow> nfe_conntrack_lru_expire LRU_PROTO_ETHER (timestamp packet) ct;
     (r, ct) \<leftarrow> nfe_conntrack_lookup new packet NFE_ALLOC_POLICY_CREATE ct;
     let packet = packet\<lparr>next_op := NEXT_NONE, prot := None\<rparr>;
     case r of
       None \<Rightarrow> Some (None, packet, ct)
     | Some c \<Rightarrow> do {
         ct \<leftarrow> upd_conn c (\<lambda>conn. conn\<lparr>conn_timestamp := timestamp packet\<rparr>) ct;
         ct \<leftarrow> nfe_conntrack_lru_update LRU_PROTO_ETHER c ct;
         Some (Some c, packet, ct) }}"

definition nfe_eth_bypass :: "conn_ptr option \<Rightarrow> nfe_packet \<Rightarrow> nfe_conntrack \<Rightarrow> (conn_ptr option \<times> nfe_conntrack) option" where
  "nfe_eth_bypass new packet ct = nfe_conn_alloc new packet False ct"

definition eth_type_from_ip :: "u8 \<Rightarrow> u16" where
  "eth_type_from_ip byte =
     (let byte = drop_bit 4 (byte AND 0xf0)
      in if byte = 4 then ETH_P_IP else if byte = 6 then ETH_P_IPV6 else 0)"

text \<open>
  The inner packet is parsed with the bound \<open>n\<close> on nested calls. Its bytes are those between the end of the ICMP
  header and \<open>tail\<close>; a negative length, which \<open>size_lt\<close> lets pass, is a fault.
\<close>

definition nfe_icmp_bypass ::
    "nat \<Rightarrow> u8 list \<Rightarrow> conn_ptr option \<Rightarrow> nfe_packet \<Rightarrow> nfe_conntrack \<Rightarrow> (conn_ptr option \<times> nfe_conntrack) option" where
  "nfe_icmp_bypass n buf new p ct =
     (if size_lt p 8 then Some (None, ct)
      else if data p < 0 \<or> data p \<ge> int (length buf) \<or> tail p < data p then None
      else do {
        ct \<leftarrow> (if buf ! nat (data p) \<noteq> 3 then Some ct
               else if data p + 8 \<ge> int (length buf) then None
               else
                 let eth_type = eth_type_from_ip (buf ! nat (data p + 8)) in
                 if eth_type = 0 then Some ct
                 else
                   case nfe_packet_hash n eth_type (take (nat (tail p - data p - 8)) (drop (nat (data p + 8)) buf)) (timestamp p) of
                     Returned err packet \<Rightarrow> do {
                       (r, ct) \<leftarrow> nfe_conntrack_lookup None packet NFE_ALLOC_POLICY_NONE ct;
                       ct \<leftarrow> nfe_conn_release r ct;
                       nfe_conn_release r ct }
                   | _ \<Rightarrow> None);
        nfe_conn_alloc new p False ct })"

text \<open>The fields of the header up to the window are read.\<close>

definition tcphdr_at :: "u8 list \<Rightarrow> int \<Rightarrow> tcphdr option" where
  "tcphdr_at buf off =
     (if off < 0 \<or> off + 16 > int (length buf) then None
      else
        let bs = drop (nat off) buf
        in Some \<lparr>seq = be32 (take 4 (drop 4 bs)), ack_seq = be32 (take 4 (drop 8 bs)), offres = bs ! 12,
             th_flags = bs ! 13, window = be16 (bs ! 14) (bs ! 15), options = drop 20 bs\<rparr>)"

definition tcp_policy :: "nfe_config \<Rightarrow> tcphdr \<Rightarrow> alloc_policy" where
  "tcp_policy cfg th =
     (if th_flags th AND TH_SYN \<noteq> 0
      then if th_flags th AND TH_ACK \<noteq> 0 then NFE_ALLOC_POLICY_INVERT else NFE_ALLOC_POLICY_CREATE
      else if nfe_conntrack_tcp_midflow cfg then NFE_ALLOC_POLICY_CREATE else NFE_ALLOC_POLICY_NONE)"

text \<open>Whether the connection is closed when the state transition is reached, so that the function returns after the release.\<close>

definition closed_at_transition :: "tcphdr \<Rightarrow> u64 \<Rightarrow> bool \<Rightarrow> u64 \<Rightarrow> nfe_tcp \<Rightarrow> bool" where
  "closed_at_transition th ts dir datalen tcp =
     (case track th ts dir datalen (count_packet th dir tcp) of None \<Rightarrow> False | Some (_, tcp) \<Rightarrow> state tcp = TCP_CLOSED)"

text \<open>Outside that case the connection is used after the release: its sequence numbers and wrap count.\<close>

definition nfe_tcpfsm_input ::
    "nfe_config \<Rightarrow> u8 list \<Rightarrow> conn_ptr option \<Rightarrow> nfe_packet \<Rightarrow> nfe_conntrack \<Rightarrow>
     (int \<times> conn_ptr option \<times> nfe_packet \<times> nfe_conntrack) option" where
  "nfe_tcpfsm_input cfg buf new packet ct = do {
     off \<leftarrow> prot packet;
     th \<leftarrow> tcphdr_at buf off;
     let syn = (th_flags th AND TH_SYN \<noteq> 0);
     ct \<leftarrow> nfe_conntrack_lru_expire (if syn then LRU_PROTO_TCP_SYN else LRU_PROTO_TCP_EST) (timestamp packet) ct;
     let policy = tcp_policy cfg th;
     let packet = packet\<lparr>direction := of_bool (policy = NFE_ALLOC_POLICY_INVERT)\<rparr>;
     (r, ct) \<leftarrow> nfe_conntrack_lookup new packet policy ct;
     case r of
       None \<Rightarrow> Some (- 1, None, packet, ct)
     | Some c \<Rightarrow> do {
         ct \<leftarrow> upd_conn c (\<lambda>conn. conn\<lparr>conn_timestamp := timestamp packet\<rparr>) ct;
         conn \<leftarrow> conns ct c;
         let dir = conn_direction (conn_tuple conn) (tuple packet) (domain (conn_tuple conn));
         let packet = packet\<lparr>direction := of_bool dir\<rparr>;
         let datalen = word_of_int (tail packet - data packet);
         ct \<leftarrow> nfe_conntrack_lru_update
                 (if syn \<and> th_flags th AND TH_ACK = 0 then LRU_PROTO_TCP_SYN else LRU_PROTO_TCP_EST) c ct;
         (off, tcp, released) \<leftarrow> tcp_input th (timestamp packet) dir datalen (tcp_cb conn);
         ct \<leftarrow> upd_conn c (\<lambda>conn. conn\<lparr>tcp_cb := tcp\<rparr>) ct;
         ct \<leftarrow> nfe_conn_release (if released then Some c else None) ct;
         if conns ct c = None \<and> \<not> closed_at_transition th (timestamp packet) dir datalen (tcp_cb conn) then None
         else Some (off, Some c, packet, ct) }}"

definition nfe_tcp_lookup ::
    "nfe_config \<Rightarrow> u8 list \<Rightarrow> conn_ptr option \<Rightarrow> nfe_packet \<Rightarrow> nfe_conntrack \<Rightarrow> (conn_ptr option \<times> nfe_packet \<times> nfe_conntrack) option" where
  "nfe_tcp_lookup cfg buf new packet ct = do {
     (off, r, packet, ct) \<leftarrow> nfe_tcpfsm_input cfg buf new packet ct;
     let packet = packet\<lparr>next_op := NEXT_NONE, prot := None\<rparr>;
     if off = - 1 then Some (r, packet, ct)
     else do {
       c \<leftarrow> r;
       conn \<leftarrow> conns ct c;
       let tcp = tcp_cb conn;
       if tcp_flags tcp AND (F_TCP_OUTOFORDER OR F_TCP_RETRANSMIT) \<noteq> 0 then do {
         let tcp = tcp\<lparr>tcp_flags := tcp_flags tcp AND NOT (F_TCP_OUTOFORDER OR F_TCP_RETRANSMIT)\<rparr>;
         ct \<leftarrow> upd_conn c (\<lambda>conn. conn\<lparr>tcp_cb := tcp\<rparr>) ct;
         Some (r, packet\<lparr>data := tail packet\<rparr>, ct) }
       else Some (r, packet, ct) }}"

definition nfe_conn_lookup_next ::
    "nat \<Rightarrow> nfe_config \<Rightarrow> u8 list \<Rightarrow> conn_ptr option \<Rightarrow> nfe_packet \<Rightarrow> nfe_conntrack \<Rightarrow>
     (conn_ptr option \<times> nfe_packet \<times> nfe_conntrack) option" where
  "nfe_conn_lookup_next n cfg buf new packet ct =
     (case next_op packet of
        NEXT_LOOKUP_TCP \<Rightarrow> nfe_tcp_lookup cfg buf new packet ct
      | NEXT_LOOKUP_UDP \<Rightarrow> nfe_udp_lookup new packet ct
      | NEXT_LOOKUP_ICMP \<Rightarrow> nfe_icmp_lookup new packet ct
      | NEXT_BYPASS_ICMP \<Rightarrow> do { (r, ct) \<leftarrow> nfe_icmp_bypass n buf new packet ct; Some (r, packet, ct) }
      | NEXT_BYPASS_ETH \<Rightarrow> nfe_ether_lookup new packet ct
      | NEXT_NONE \<Rightarrow> Some (None, packet, ct))"

definition nfe_conn_lookup ::
    "nat \<Rightarrow> nfe_config \<Rightarrow> u8 list \<Rightarrow> conn_ptr option \<Rightarrow> nfe_packet \<Rightarrow> nfe_conntrack \<Rightarrow>
     (conn_ptr option \<times> nfe_packet \<times> nfe_conntrack) option" where
  "nfe_conn_lookup n cfg buf new packet ct =
     (if next_op packet \<noteq> NEXT_NONE
      then if ptype packet \<noteq> NFE_PACKET_TYPE_BROADCAST then nfe_conn_lookup_next n cfg buf new packet ct
           else nfe_ether_lookup new packet ct
      else Some (None, packet, ct))"

text \<open>The last component is the direction.\<close>

definition nfe_conn_lookup_by_tuple ::
    "nfe_tuple \<Rightarrow> u64 \<Rightarrow> nfe_conntrack \<Rightarrow> (conn_ptr option \<times> nfe_conntrack \<times> bool option) option" where
  "nfe_conn_lookup_by_tuple t ts ct =
     (if proto t \<notin> {1, 6, 17, 0} then Some (None, ct, None)
      else do {
        ct \<leftarrow> (if proto t = 6 then nfe_conntrack_lru_expire LRU_PROTO_TCP_SYN ts ct else Some ct);
        let l = (if proto t = 1 then LRU_PROTO_ICMP else if proto t = 6 then LRU_PROTO_TCP_EST
                 else if proto t = 17 then LRU_PROTO_UDP else LRU_PROTO_ETHER);
        ct \<leftarrow> nfe_conntrack_lru_expire l ts ct;
        (r, ct) \<leftarrow> ct_lookup_hash ct t (nfe_tuple_hash t);
        case r of
          None \<Rightarrow> Some (None, ct, None)
        | Some c \<Rightarrow> do {
            ct \<leftarrow> nfe_conntrack_lru_update l c ct;
            conn \<leftarrow> conns ct c;
            Some (Some c, ct, Some (conn_direction (conn_tuple conn) t (domain t))) }})"

section \<open>Walks over the table\<close>

definition lru_protos :: "lru_proto list" where
  "lru_protos = [LRU_PROTO_ICMP, LRU_PROTO_TCP_SYN, LRU_PROTO_TCP_EST, LRU_PROTO_UDP, LRU_PROTO_ETHER]"

text \<open>The connections \<open>nfe_conntrack_dump\<close> passes to its callback, which leaves the table as it is.\<close>

definition nfe_conntrack_dump :: "nfe_conntrack \<Rightarrow> conn_ptr list option" where
  "nfe_conntrack_dump ct = do {
     ns \<leftarrow> those (map (\<lambda>l. do { p \<leftarrow> get_next (link ct) (Lru l); nfe_list_for_each (link ct) (Lru l) p }) lru_protos);
     those (map (\<lambda>n. case n of Lru_of c \<Rightarrow> Some c | _ \<Rightarrow> None) (concat ns)) }"

partial_function (option) destroy_loop :: "lru_proto \<Rightarrow> node \<Rightarrow> node \<Rightarrow> nfe_conntrack \<Rightarrow> nfe_conntrack option" where
  [code]: "destroy_loop l p tmp ct =
     (if p = Lru l then Some ct
      else case p of
        Lru_of c \<Rightarrow> do {
          ct \<leftarrow> upd_link (nfe_list_remove (Lru_of c)) ct;
          ct \<leftarrow> upd_link (nfe_list_remove (List_of c)) ct;
          ct \<leftarrow> nfe_conn_release (Some c) ct;
          q \<leftarrow> get_next (link ct) tmp;
          destroy_loop l tmp q ct }
      | _ \<Rightarrow> None)"

text \<open>The connections that are left when the table is freed.\<close>

fun destroy_lists :: "lru_proto list \<Rightarrow> nfe_conntrack \<Rightarrow> nfe_conntrack option" where
  "destroy_lists [] ct = Some ct"
| "destroy_lists (l # ls) ct = do {
     p \<leftarrow> get_next (link ct) (Lru l);
     tmp \<leftarrow> get_next (link ct) p;
     ct \<leftarrow> destroy_loop l p tmp ct;
     destroy_lists ls ct }"

definition nfe_conntrack_destroy :: "nfe_conntrack \<Rightarrow> nfe_conntrack option" where
  "nfe_conntrack_destroy ct = destroy_lists lru_protos ct"

end
