(* ===== verification/Nfe_Conntrack_Rep.thy ===== *)
theory Nfe_Conntrack_Rep
  imports Nfe_Conntrack
begin

text \<open>
  The lists that the links of a connection table represent: \<open>B i\<close> are the connections in bucket \<open>i\<close> and \<open>L l\<close>
  those in the LRU list \<open>l\<close>, oldest first. Every primitive list operation of the table is an operation on these lists.
\<close>

section \<open>Representation\<close>

type_synonym buckets = "nat \<Rightarrow> conn_ptr list"

type_synonym lrus = "lru_proto \<Rightarrow> conn_ptr list"

definition members :: "('i \<Rightarrow> conn_ptr list) \<Rightarrow> conn_ptr set" where
  "members B = (\<Union>i. set (B i))"

definition heads :: "nat \<Rightarrow> conn_ptr set \<Rightarrow> buckets \<Rightarrow> lrus \<Rightarrow> node set" where
  "heads n D B L = Bucket ` {..<n} \<union> range Lru \<union> List_of ` (D - members B) \<union> Lru_of ` (D - members L)"

fun ring_of :: "buckets \<Rightarrow> lrus \<Rightarrow> node \<Rightarrow> node list" where
  "ring_of B L (Bucket i) = map List_of (B i)"
| "ring_of B L (Lru l) = map Lru_of (L l)"
| "ring_of B L (List_of c) = []"
| "ring_of B L (Lru_of c) = []"

definition rep :: "node link_heap \<Rightarrow> nat \<Rightarrow> conn_ptr set \<Rightarrow> buckets \<Rightarrow> lrus \<Rightarrow> bool" where
  "rep h n D B L \<longleftrightarrow>
     rings h (heads n D B L) (ring_of B L) \<and> members B \<subseteq> D \<and> members L \<subseteq> D \<and> (\<forall>i\<ge>n. B i = [])"

lemma members_iff: "c \<in> members B \<longleftrightarrow> (\<exists>i. c \<in> set (B i))"
  by (auto simp: members_def)

lemma rep_rings: "rep h n D B L \<Longrightarrow> rings h (heads n D B L) (ring_of B L)"
  by (simp add: rep_def)

lemma rep_ring_bucket: "rep h n D B L \<Longrightarrow> i < n \<Longrightarrow> ring h (Bucket i) (map List_of (B i))"
  using rings_ring [OF rep_rings, of h n D B L "Bucket i"] by (auto simp: heads_def)

lemma rep_ring_lru: "rep h n D B L \<Longrightarrow> ring h (Lru l) (map Lru_of (L l))"
  using rings_ring [OF rep_rings, of h n D B L "Lru l"] by (auto simp: heads_def)

lemma rep_distinct_bucket: "rep h n D B L \<Longrightarrow> distinct (B i)"
proof (cases "i < n")
  case True
  then show "rep h n D B L \<Longrightarrow> distinct (B i)"
    using rep_ring_bucket [of h n D B L i] by (auto simp: ring_def distinct_map)
qed (auto simp: rep_def)

lemma rep_distinct_lru: "rep h n D B L \<Longrightarrow> distinct (L l)"
  using rep_ring_lru [of h n D B L l] by (auto simp: ring_def distinct_map)

lemma rep_one_bucket:
  assumes "rep h n D B L" "c \<in> set (B i)" "c \<in> set (B j)"
  shows "i = j"
proof (rule ccontr)
  assume "i \<noteq> j"
  moreover have "i < n" "j < n" using assms by (auto simp: rep_def not_le [symmetric])
  ultimately have "set (Bucket i # ring_of B L (Bucket i)) \<inter> set (Bucket j # ring_of B L (Bucket j)) = {}"
    by (intro rings_disjoint [OF rep_rings [OF assms(1)]]) (auto simp: heads_def)
  then show False using assms(2,3) by auto
qed

lemma rep_one_lru:
  assumes "rep h n D B L" "c \<in> set (L k)" "c \<in> set (L l)"
  shows "k = l"
proof (rule ccontr)
  assume "k \<noteq> l"
  then have "set (Lru k # ring_of B L (Lru k)) \<inter> set (Lru l # ring_of B L (Lru l)) = {}"
    by (intro rings_disjoint [OF rep_rings [OF assms(1)]]) (auto simp: heads_def)
  then show False using assms(2,3) by auto
qed

text \<open>The nodes in use belong to the table or to a connection.\<close>

lemma rep_nodes:
  assumes "rep h n D B L" "x \<in> heads n D B L" "p \<in> set (x # ring_of B L x)"
  shows "p \<in> range Bucket \<union> range Lru \<union> List_of ` D \<union> Lru_of ` D"
proof (cases x)
  case (Bucket i)
  then show ?thesis using assms by (auto simp: rep_def members_def)
next
  case (Lru l)
  have "set (L l) \<subseteq> D" using assms(1) unfolding rep_def members_def by blast
  then show ?thesis using assms(3) Lru by auto
qed (use assms in \<open>auto simp: heads_def\<close>)

lemma members_upd_snoc: "members (B(i := B i @ [c])) = insert c (members B)"
  by (auto simp: members_def split: if_splits)

lemma members_upd_remove:
  assumes "distinct (B i)" "\<forall>j. c \<in> set (B j) \<longrightarrow> j = i" "B i = as @ c # bs"
  shows "members (B(i := as @ bs)) = members B - {c}"
proof (intro set_eqI iffI)
  fix x assume "x \<in> members (B(i := as @ bs))"
  then obtain j where "x \<in> set ((B(i := as @ bs)) j)" by (auto simp: members_iff)
  then show "x \<in> members B - {c}" using assms by (cases "j = i") (auto simp: members_iff intro: exI [of _ i])
next
  fix x assume x: "x \<in> members B - {c}"
  then obtain j where "x \<in> set (B j)" by (auto simp: members_iff)
  then show "x \<in> members (B(i := as @ bs))"
    using x assms(3) by (cases "j = i") (auto simp: members_iff intro: exI [of _ i] exI [of _ j])
qed

section \<open>Operations on the lists\<close>

lemma rep_insert_bucket:
  assumes r: "rep h n D B L" and c: "i < n" "c \<in> D" "c \<notin> members B"
  shows "\<exists>h'. nfe_list_insert (Bucket i) (List_of c) h = Some h' \<and> rep h' n D (B(i := B i @ [c])) L"
proof -
  have "Bucket i \<in> heads n D B L" "List_of c \<in> heads n D B L" using c by (auto simp: heads_def)
  from rings_insert [OF rep_rings [OF r] this] obtain h' where
    h': "nfe_list_insert (Bucket i) (List_of c) h = Some h'"
      "rings h' (heads n D B L - {List_of c}) ((ring_of B L)(Bucket i := ring_of B L (Bucket i) @ [List_of c]))" by auto
  have "rings h' (heads n D (B(i := B i @ [c])) L) (ring_of (B(i := B i @ [c])) L)"
  proof (rule rings_cong [OF h'(2)])
    show "heads n D B L - {List_of c} = heads n D (B(i := B i @ [c])) L"
      unfolding heads_def members_upd_snoc by auto
  next
    fix x
    show "((ring_of B L)(Bucket i := ring_of B L (Bucket i) @ [List_of c])) x = ring_of (B(i := B i @ [c])) L x"
      by (cases x) auto
  qed
  then show ?thesis using h'(1) r c by (auto simp: rep_def members_upd_snoc)
qed

lemma rep_insert_lru:
  assumes r: "rep h n D B L" and c: "c \<in> D" "c \<notin> members L"
  shows "\<exists>h'. nfe_list_insert (Lru l) (Lru_of c) h = Some h' \<and> rep h' n D B (L(l := L l @ [c]))"
proof -
  have "Lru l \<in> heads n D B L" "Lru_of c \<in> heads n D B L" using c by (auto simp: heads_def)
  from rings_insert [OF rep_rings [OF r] this] obtain h' where
    h': "nfe_list_insert (Lru l) (Lru_of c) h = Some h'"
      "rings h' (heads n D B L - {Lru_of c}) ((ring_of B L)(Lru l := ring_of B L (Lru l) @ [Lru_of c]))" by auto
  have "rings h' (heads n D B (L(l := L l @ [c]))) (ring_of B (L(l := L l @ [c])))"
  proof (rule rings_cong [OF h'(2)])
    show "heads n D B L - {Lru_of c} = heads n D B (L(l := L l @ [c]))"
      unfolding heads_def members_upd_snoc by auto
  next
    fix x
    show "((ring_of B L)(Lru l := ring_of B L (Lru l) @ [Lru_of c])) x = ring_of B (L(l := L l @ [c])) x"
      by (cases x) auto
  qed
  then show ?thesis using h'(1) r c by (auto simp: rep_def members_upd_snoc)
qed

lemma rep_remove_bucket:
  assumes r: "rep h n D B L" and c: "B i = as @ c # bs"
  shows "\<exists>h'. nfe_list_remove (List_of c) h = Some h' \<and> rep h' n D (B(i := as @ bs)) L"
proof -
  have i: "i < n" using r c by (auto simp: rep_def not_le [symmetric])
  have ci: "c \<in> set (B i)" using c by simp
  have m: "members (B(i := as @ bs)) = members B - {c}"
    using rep_one_bucket [OF r _ ci] by (intro members_upd_remove [of B i c, OF rep_distinct_bucket [OF r] _ c]) blast
  have "Bucket i \<in> heads n D B L" "ring_of B L (Bucket i) = map List_of as @ List_of c # map List_of bs"
    using i c by (auto simp: heads_def)
  from rings_remove [OF rep_rings [OF r] this] obtain h' where
    h': "nfe_list_remove (List_of c) h = Some h'"
      "rings h' (insert (List_of c) (heads n D B L))
        ((ring_of B L)(Bucket i := map List_of as @ map List_of bs, List_of c := []))" by auto
  have "c \<in> members B" using ci by (auto simp: members_iff)
  then have "c \<in> D" using r by (auto simp: rep_def)
  have "rings h' (heads n D (B(i := as @ bs)) L) (ring_of (B(i := as @ bs)) L)"
  proof (rule rings_cong [OF h'(2)])
    show "insert (List_of c) (heads n D B L) = heads n D (B(i := as @ bs)) L"
      unfolding heads_def m using \<open>c \<in> D\<close> \<open>c \<in> members B\<close> by auto
  next
    fix x
    show "((ring_of B L)(Bucket i := map List_of as @ map List_of bs, List_of c := [])) x = ring_of (B(i := as @ bs)) L x"
      by (cases x) auto
  qed
  then show ?thesis using h'(1) r i by (auto simp: rep_def m)
qed

lemma rep_remove_lru:
  assumes r: "rep h n D B L" and c: "L l = as @ c # bs"
  shows "\<exists>h'. nfe_list_remove (Lru_of c) h = Some h' \<and> rep h' n D B (L(l := as @ bs))"
proof -
  have ci: "c \<in> set (L l)" using c by simp
  have m: "members (L(l := as @ bs)) = members L - {c}"
    using rep_one_lru [OF r _ ci] by (intro members_upd_remove [of L l c, OF rep_distinct_lru [OF r] _ c]) blast
  have "Lru l \<in> heads n D B L" "ring_of B L (Lru l) = map Lru_of as @ Lru_of c # map Lru_of bs"
    using c by (auto simp: heads_def)
  from rings_remove [OF rep_rings [OF r] this] obtain h' where
    h': "nfe_list_remove (Lru_of c) h = Some h'"
      "rings h' (insert (Lru_of c) (heads n D B L))
        ((ring_of B L)(Lru l := map Lru_of as @ map Lru_of bs, Lru_of c := []))" by auto
  have "c \<in> members L" using ci by (auto simp: members_iff)
  then have "c \<in> D" using r by (auto simp: rep_def)
  have "rings h' (heads n D B (L(l := as @ bs))) (ring_of B (L(l := as @ bs)))"
  proof (rule rings_cong [OF h'(2)])
    show "insert (Lru_of c) (heads n D B L) = heads n D B (L(l := as @ bs))"
      unfolding heads_def m using \<open>c \<in> D\<close> \<open>c \<in> members L\<close> by auto
  next
    fix x
    show "((ring_of B L)(Lru l := map Lru_of as @ map Lru_of bs, Lru_of c := [])) x = ring_of B (L(l := as @ bs)) x"
      by (cases x) auto
  qed
  then show ?thesis using h'(1) r by (auto simp: rep_def m)
qed

text \<open>Removal from whatever list holds the item, if any.\<close>

definition without :: "conn_ptr \<Rightarrow> ('i \<Rightarrow> conn_ptr list) \<Rightarrow> 'i \<Rightarrow> conn_ptr list" where
  "without c B i = remove1 c (B i)"

lemma without_upd:
  assumes "distinct (B i)" "\<forall>j. c \<in> set (B j) \<longrightarrow> j = i" "B i = as @ c # bs"
  shows "without c B = B(i := as @ bs)"
proof
  fix j
  have "j \<noteq> i \<Longrightarrow> c \<notin> set (B j)" using assms(2) by blast
  then show "without c B j = (B(i := as @ bs)) j"
    using assms(1,3) by (cases "j = i") (auto simp: without_def remove1_append remove1_idem)
qed

lemma without_idem: "c \<notin> members B \<Longrightarrow> without c B = B"
  by (auto simp: without_def members_iff remove1_idem)

lemma members_without:
  assumes "\<forall>i. distinct (B i)"
  shows "members (without c B) = members B - {c}"
  using assms by (auto simp: members_def without_def)

lemma rep_remove_List_of:
  assumes r: "rep h n D B L" and c: "c \<in> D"
  shows "\<exists>h'. nfe_list_remove (List_of c) h = Some h' \<and> rep h' n D (without c B) L"
proof (cases "c \<in> members B")
  case False
  then have "nfe_list_remove (List_of c) h = Some h"
    using c by (intro rings_remove_single [OF rep_rings [OF r]]) (auto simp: heads_def)
  then show ?thesis using r without_idem [OF False] by simp
next
  case True
  then obtain i "as" bs where i: "c \<in> set (B i)" "B i = as @ c # bs" by (auto simp: members_iff in_set_conv_decomp)
  have "\<forall>j. c \<in> set (B j) \<longrightarrow> j = i" using rep_one_bucket [OF r _ i(1)] by blast
  then have "without c B = B(i := as @ bs)" using rep_distinct_bucket [OF r] i(2) by (intro without_upd)
  then show ?thesis using rep_remove_bucket [OF r i(2)] by simp
qed

lemma rep_remove_Lru_of:
  assumes r: "rep h n D B L" and c: "c \<in> D"
  shows "\<exists>h'. nfe_list_remove (Lru_of c) h = Some h' \<and> rep h' n D B (without c L)"
proof (cases "c \<in> members L")
  case False
  then have "nfe_list_remove (Lru_of c) h = Some h"
    using c by (intro rings_remove_single [OF rep_rings [OF r]]) (auto simp: heads_def)
  then show ?thesis using r without_idem [OF False] by simp
next
  case True
  then obtain l "as" bs where i: "c \<in> set (L l)" "L l = as @ c # bs" by (auto simp: members_iff in_set_conv_decomp)
  have "\<forall>j. c \<in> set (L j) \<longrightarrow> j = l" using rep_one_lru [OF r _ i(1)] by blast
  then have "without c L = L(l := as @ bs)" using rep_distinct_lru [OF r] i(2) by (intro without_upd)
  then show ?thesis using rep_remove_lru [OF r i(2)] by simp
qed

text \<open>New and freed connections.\<close>

lemma rep_new:
  assumes r: "rep h n D B L" and c: "c \<notin> D"
  shows "rep (h(List_of c \<mapsto> \<lparr>prev = List_of c, next = List_of c\<rparr>, Lru_of c \<mapsto> \<lparr>prev = Lru_of c, next = Lru_of c\<rparr>)) n (insert c D) B L"
proof -
  let ?h = "h(List_of c \<mapsto> \<lparr>prev = List_of c, next = List_of c\<rparr>)"
  have nc: "c \<notin> members B" "c \<notin> members L" using r c by (auto simp: rep_def)
  have out: "List_of c \<notin> (\<Union>x\<in>heads n D B L. set (x # ring_of B L x))" "Lru_of c \<notin> (\<Union>x\<in>heads n D B L. set (x # ring_of B L x))"
    using rep_nodes [OF r] c by fastforce+
  have R: "(ring_of B L)(List_of c := []) = ring_of B L" by (auto simp: fun_eq_iff)
  have r1: "rings ?h (insert (List_of c) (heads n D B L)) (ring_of B L)"
    using rings_new [OF rep_rings [OF r] out(1)] by (simp only: R)
  have "Lru_of c \<notin> (\<Union>x\<in>insert (List_of c) (heads n D B L). set (x # ring_of B L x))" using out(2) by simp
  from rings_new [OF r1 this]
  have "rings (?h(Lru_of c \<mapsto> \<lparr>prev = Lru_of c, next = Lru_of c\<rparr>)) (heads n (insert c D) B L) (ring_of B L)"
  proof (rule rings_cong)
    show "insert (Lru_of c) (insert (List_of c) (heads n D B L)) = heads n (insert c D) B L"
      unfolding heads_def using nc by auto
  next
    fix x show "((ring_of B L)(Lru_of c := [])) x = ring_of B L x" by (cases x) auto
  qed
  then show ?thesis using r by (auto simp: rep_def)
qed

lemma rep_free:
  assumes r: "rep h n D B L" and c: "c \<in> D" "c \<notin> members B" "c \<notin> members L"
  shows "rep (h(List_of c := None, Lru_of c := None)) n (D - {c}) B L"
proof -
  have "List_of c \<in> heads n D B L" "Lru_of c \<in> heads n D B L - {List_of c}" using c by (auto simp: heads_def)
  from rings_free [OF rings_free [OF rep_rings [OF r] this(1)] this(2)]
  have "rings (h(List_of c := None, Lru_of c := None)) (heads n (D - {c}) B L) (ring_of B L)"
  proof (rule rings_cong)
    show "heads n D B L - {List_of c} - {Lru_of c} = heads n (D - {c}) B L"
      unfolding heads_def by auto
  qed simp_all
  then show ?thesis using r c by (auto simp: rep_def)
qed

section \<open>Operations on the table\<close>

definition ct_rep :: "nfe_conntrack \<Rightarrow> buckets \<Rightarrow> lrus \<Rightarrow> bool" where
  "ct_rep ct B L \<longleftrightarrow> rep (link ct) (unat (ct_size ct)) (dom (conns ct)) B L \<and> ct_size ct \<noteq> 0"

lemma ct_bucket_less:
  assumes "ct_size ct \<noteq> 0"
  shows "unat (h AND (ct_size ct - 1)) < unat (ct_size ct)"
proof -
  have "h AND (ct_size ct - 1) \<le> ct_size ct - 1" by (rule word_and_le1)
  then have "unat (h AND (ct_size ct - 1)) \<le> unat (ct_size ct - 1)" by (simp add: word_le_nat_alt)
  also have "\<dots> < unat (ct_size ct)" using assms unat_gt_0 [of "ct_size ct"] by (simp add: unat_minus_one)
  finally show ?thesis .
qed

lemma ct_rep_upd_conn:
  assumes "ct_rep ct B L" "conns ct c = Some conn"
  shows "\<exists>ct'. upd_conn c f ct = Some ct' \<and> ct_rep ct' B L \<and> ct' = ct\<lparr>conns := (conns ct)(c \<mapsto> f conn)\<rparr>"
proof -
  have "dom ((conns ct)(c \<mapsto> f conn)) = dom (conns ct)" using assms(2) by auto
  then show ?thesis using assms by (simp add: upd_conn_def ct_rep_def)
qed

text \<open>The walk over a bucket finds the first connection with an equal tuple.\<close>

definition matching :: "nfe_conntrack \<Rightarrow> nfe_tuple \<Rightarrow> conn_ptr \<Rightarrow> bool" where
  "matching ct t c \<longleftrightarrow> (case conns ct c of None \<Rightarrow> False | Some conn \<Rightarrow> nfe_tuple_equal (conn_tuple conn) t)"

lemma lookup_loop_find:
  assumes "ring (link ct) b (map List_of (xs @ ys))" "set ys \<subseteq> dom (conns ct)"
  shows "lookup_loop ct b t (hd (map List_of ys @ [b])) = Some (find (matching ct t) ys)"
  using assms
proof (induction ys arbitrary: xs)
  case Nil
  then show ?case by (simp add: lookup_loop.simps)
next
  case (Cons y ys)
  from Cons.prems(2) obtain conn where y: "conns ct y = Some conn" by auto
  have "List_of y \<noteq> b" using Cons.prems(1) by (auto simp: ring_def)
  moreover have "get_next (link ct) (List_of y) = Some (hd (map List_of ys @ [b]))"
    using ring_next_item [of "link ct" b "map List_of xs" "List_of y" "map List_of ys"] Cons.prems(1) by simp
  moreover have "lookup_loop ct b t (hd (map List_of ys @ [b])) = Some (find (matching ct t) ys)"
    using Cons.IH [of "xs @ [y]"] Cons.prems by simp
  ultimately show ?case by (subst lookup_loop.simps) (simp add: y matching_def)
qed

lemma ct_lookup_hash_eq:
  assumes r: "ct_rep ct B L"
  shows "ct_lookup_hash ct t h =
    (case find (matching ct t) (B (unat (h AND (ct_size ct - 1)))) of
       None \<Rightarrow> Some (None, ct)
     | Some c \<Rightarrow> map_option (Pair (Some c)) (upd_conn c (\<lambda>conn. conn\<lparr>lockref := lockref conn + 1\<rparr>) ct))"
proof -
  let ?i = "unat (h AND (ct_size ct - 1))"
  have n: "?i < unat (ct_size ct)" using r by (intro ct_bucket_less) (simp add: ct_rep_def)
  have ring: "ring (link ct) (Bucket ?i) (map List_of ([] @ B ?i))"
    using rep_ring_bucket [OF conjunct1 [OF r [unfolded ct_rep_def]] n] by simp
  moreover have "set (B ?i) \<subseteq> dom (conns ct)" using r unfolding ct_rep_def rep_def members_def by blast
  ultimately have "lookup_loop ct (Bucket ?i) t (hd (map List_of (B ?i) @ [Bucket ?i])) = Some (find (matching ct t) (B ?i))"
    by (rule lookup_loop_find)
  moreover have "get_next (link ct) (Bucket ?i) = Some (hd (map List_of (B ?i) @ [Bucket ?i]))"
    using ring_next [OF ring] by simp
  ultimately show ?thesis
    by (simp add: ct_lookup_hash_def ct_bucket_def map_option_case split: option.split)
qed

lemma nfe_conn_alloc_rep:
  assumes r: "ct_rep ct B L" and c: "c \<notin> dom (conns ct)"
  shows "\<exists>ct'. nfe_conn_alloc (Some c) packet invert ct = Some (Some c, ct') \<and> ct_rep ct' B L \<and>
    ct_size ct' = ct_size ct \<and> expiry ct' = expiry ct \<and>
    conns ct' = (conns ct)(c \<mapsto> \<lparr>conn_tuple = nfe_tuple_copy (tuple packet) invert, tcp_cb = tcp_zero, lockref = 0, conn_timestamp = 0\<rparr>)"
proof -
  let ?h = "(link ct)(List_of c \<mapsto> \<lparr>prev = List_of c, next = List_of c\<rparr>, Lru_of c \<mapsto> \<lparr>prev = Lru_of c, next = Lru_of c\<rparr>)"
  have "nfe_list_init (List_of c) ?h = Some ?h" "nfe_list_init (Lru_of c) ?h = Some ?h"
    by (simp_all add: ring_init fun_upd_idem fun_upd_twist)
  moreover have "rep ?h (unat (ct_size ct)) (insert c (dom (conns ct))) B L" using rep_new c r by (simp add: ct_rep_def)
  ultimately show ?thesis using r by (auto simp: nfe_conn_alloc_def upd_link_def ct_rep_def Let_def)
qed

end
