(* ===== verification/Nfe_Conntrack_Correct.thy ===== *)
theory Nfe_Conntrack_Correct
  imports Nfe_Conntrack_Rep
begin

text \<open>
  Correctness of the connection table: the table is a map from flows to connections, whatever the direction
  of the packet, reference counts decide when a connection is freed, and the LRU lists decide which ones expire.
\<close>

section \<open>Invariant\<close>

definition bucket_of :: "nfe_conntrack \<Rightarrow> nfe_tuple \<Rightarrow> nat" where
  "bucket_of ct t = unat (nfe_tuple_hash t AND (ct_size ct - 1))"

text \<open>The flow of every listed connection, and no flow twice.\<close>

definition ct_inv :: "nfe_conntrack \<Rightarrow> buckets \<Rightarrow> lrus \<Rightarrow> bool" where
  "ct_inv ct B L \<longleftrightarrow>
     ct_rep ct B L \<and> members L \<subseteq> members B \<and>
     (\<forall>i. \<forall>c\<in>set (B i). \<forall>conn. conns ct c = Some conn \<longrightarrow>
        wf_tuple (conn_tuple conn) \<and> i = bucket_of ct (conn_tuple conn) \<and> lockref conn \<noteq> 0) \<and>
     (\<forall>c\<in>members B. \<forall>d\<in>members B. \<forall>conn. conns ct c = Some conn \<longrightarrow> matching ct (conn_tuple conn) d \<longrightarrow> c = d)"

lemma ct_invD:
  assumes "ct_inv ct B L"
  shows "ct_rep ct B L" "members L \<subseteq> members B" "members B \<subseteq> dom (conns ct)" "ct_size ct \<noteq> 0"
  using assms by (auto simp: ct_inv_def ct_rep_def rep_def)

lemma ct_inv_conn:
  assumes "ct_inv ct B L" "c \<in> set (B i)"
  obtains conn where "conns ct c = Some conn" "wf_tuple (conn_tuple conn)" "i = bucket_of ct (conn_tuple conn)" "lockref conn \<noteq> 0"
proof -
  have "c \<in> members B" using assms(2) by (auto simp: members_iff)
  then obtain conn where "conns ct c = Some conn" using ct_invD(3) [OF assms(1)] by auto
  then show thesis using assms that unfolding ct_inv_def by blast
qed

lemma equal_trans: "nfe_tuple_equal t u \<Longrightarrow> nfe_tuple_equal t v \<Longrightarrow> nfe_tuple_equal u v"
  by (auto simp: nfe_tuple_equal_iff)

lemma equal_sym: "nfe_tuple_equal t u \<Longrightarrow> nfe_tuple_equal u t"
  by (auto simp: nfe_tuple_equal_iff)

lemma matching_unique:
  assumes "ct_inv ct B L" "c \<in> members B" "d \<in> members B" "matching ct t c" "matching ct t d"
  shows "c = d"
proof -
  from assms(4) obtain conn where conn: "conns ct c = Some conn" "nfe_tuple_equal (conn_tuple conn) t"
    by (auto simp: matching_def split: option.splits)
  then have "matching ct (conn_tuple conn) d"
    using assms(5) equal_trans [OF equal_sym [OF conn(2)]] equal_sym
    by (auto simp: matching_def nfe_tuple_equal_iff split: option.splits)
  then show ?thesis using assms(1-3) conn unfolding ct_inv_def by blast
qed

lemma equal_bucket:
  assumes "wf_tuple t" "nfe_tuple_equal t u"
  shows "bucket_of ct u = bucket_of ct t"
  using nfe_tuple_hash_equal [OF assms] by (simp add: bucket_of_def)

text \<open>The map from flows to connections.\<close>

definition flows :: "nfe_conntrack \<Rightarrow> buckets \<Rightarrow> nfe_tuple \<Rightarrow> conn_ptr option" where
  "flows ct B t = find (matching ct t) (concat (map B [0..<unat (ct_size ct)]))"

lemma set_concat_members:
  assumes "ct_inv ct B L"
  shows "set (concat (map B [0..<unat (ct_size ct)])) = members B"
proof -
  have "i < unat (ct_size ct)" if "c \<in> set (B i)" for c i
  proof (rule ccontr)
    assume "\<not> i < unat (ct_size ct)"
    then have "B i = []" using ct_invD(1) [OF assms] by (simp add: ct_rep_def rep_def)
    with that show False by simp
  qed
  then show ?thesis unfolding members_def by (auto intro!: bexI)
qed

lemma find_unique:
  assumes "\<And>c d. c \<in> set xs \<Longrightarrow> d \<in> set xs \<Longrightarrow> P c \<Longrightarrow> P d \<Longrightarrow> c = d"
  shows "find P xs = Some c \<longleftrightarrow> c \<in> set xs \<and> P c"
  using assms by (induction xs) auto

lemma flows_Some:
  assumes "ct_inv ct B L"
  shows "flows ct B t = Some c \<longleftrightarrow> c \<in> members B \<and> matching ct t c"
proof -
  note set = set_concat_members [OF assms]
  have "find (matching ct t) (concat (map B [0..<unat (ct_size ct)])) = Some c \<longleftrightarrow>
    c \<in> set (concat (map B [0..<unat (ct_size ct)])) \<and> matching ct t c"
    by (rule find_unique) (unfold set, rule matching_unique [OF assms])
  then show ?thesis by (simp only: flows_def set)
qed

lemma flows_None:
  assumes "ct_inv ct B L"
  shows "flows ct B t = None \<longleftrightarrow> (\<forall>c\<in>members B. \<not> matching ct t c)"
  using flows_Some [OF assms, of t] by (metis not_None_eq)

lemma find_bucket:
  assumes inv: "ct_inv ct B L"
  shows "find (matching ct t) (B (bucket_of ct t)) = flows ct B t"
proof -
  have "find (matching ct t) (B (bucket_of ct t)) = Some c \<longleftrightarrow> flows ct B t = Some c" for c
  proof -
    have "c \<in> set (B (bucket_of ct t))" if c: "c \<in> members B" "matching ct t c"
    proof -
      from c(1) obtain i where i: "c \<in> set (B i)" by (auto simp: members_iff)
      then obtain conn where conn: "conns ct c = Some conn" "wf_tuple (conn_tuple conn)" "i = bucket_of ct (conn_tuple conn)"
        using ct_inv_conn [OF inv] by blast
      then have "nfe_tuple_equal (conn_tuple conn) t" using c(2) by (simp add: matching_def)
      then show ?thesis using equal_bucket [OF conn(2)] conn(3) i by simp
    qed
    moreover have sub: "set (B i) \<subseteq> members B" for i by (auto simp: members_iff)
    have "find (matching ct t) (B (bucket_of ct t)) = Some c \<longleftrightarrow> c \<in> set (B (bucket_of ct t)) \<and> matching ct t c"
      by (rule find_unique) (rule matching_unique [OF inv subsetD [OF sub] subsetD [OF sub]])
    ultimately show ?thesis unfolding flows_Some [OF inv] using sub by blast
  qed
  then show ?thesis by (metis not_Some_eq)
qed

section \<open>Lookup\<close>

lemma ct_inv_upd:
  assumes inv: "ct_inv ct B L" and c: "conns ct c = Some conn" "conn_tuple conn' = conn_tuple conn"
    and l: "c \<in> members B \<Longrightarrow> lockref conn' \<noteq> 0"
  shows "ct_inv (ct\<lparr>conns := (conns ct)(c \<mapsto> conn')\<rparr>) B L"
    "flows (ct\<lparr>conns := (conns ct)(c \<mapsto> conn')\<rparr>) B = flows ct B"
proof -
  let ?ct = "ct\<lparr>conns := (conns ct)(c \<mapsto> conn')\<rparr>"
  have m: "matching ?ct t d = matching ct t d" for t d using c by (simp add: matching_def)
  have b: "bucket_of ?ct = bucket_of ct" by (simp add: bucket_of_def fun_eq_iff)
  have "dom ((conns ct)(c \<mapsto> conn')) = dom (conns ct)" using c(1) by auto
  then have "ct_rep ?ct B L" using ct_invD(1) [OF inv] by (simp add: ct_rep_def)
  moreover have "wf_tuple (conn_tuple k) \<and> i = bucket_of ?ct (conn_tuple k) \<and> lockref k \<noteq> 0"
    if d: "d \<in> set (B i)" "conns ?ct d = Some k" for i d k
  proof -
    obtain k' where k': "conns ct d = Some k'" "wf_tuple (conn_tuple k')" "i = bucket_of ct (conn_tuple k')" "lockref k' \<noteq> 0"
      using ct_inv_conn [OF inv d(1)] by blast
    show ?thesis
    proof (cases "d = c")
      case True
      then have "c \<in> members B" using d(1) by (auto simp: members_iff)
      then show ?thesis using True d(2) k' c l unfolding b by simp
    next
      case False
      then show ?thesis using d(2) k' unfolding b by simp
    qed
  qed
  moreover have "d = e" if "d \<in> members B" "e \<in> members B" "conns ?ct d = Some k" "matching ?ct (conn_tuple k) e" for d e k
  proof -
    have "\<exists>k'. conns ct d = Some k' \<and> conn_tuple k' = conn_tuple k" using that(3) c by (cases "d = c") auto
    then show ?thesis using inv that(1,2,4) unfolding m ct_inv_def by metis
  qed
  ultimately show "ct_inv ?ct B L" using ct_invD(2) [OF inv] unfolding ct_inv_def by blast
  show "flows ?ct B = flows ct B" by (simp add: flows_def m fun_eq_iff cong: find_cong)
qed

lemma ct_inv_insert:
  assumes inv: "ct_inv ct B L" and c: "c \<notin> dom (conns ct)" and t: "wf_tuple t" "flows ct B t = None"
    and ct': "ct_rep ct' B L" "ct_size ct' = ct_size ct" "conns ct' = (conns ct)(c \<mapsto> conn)"
      "conn_tuple conn = t" "lockref conn \<noteq> 0"
  shows "\<exists>ct''. upd_link (nfe_list_insert (Bucket (bucket_of ct t)) (List_of c)) ct' = Some ct'' \<and>
    ct'' = ct'\<lparr>link := link ct''\<rparr> \<and> ct_inv ct'' (B(bucket_of ct t := B (bucket_of ct t) @ [c])) L \<and>
    flows ct'' (B(bucket_of ct t := B (bucket_of ct t) @ [c])) = (\<lambda>u. if nfe_tuple_equal t u then Some c else flows ct B u)"
proof -
  let ?i = "bucket_of ct t" and ?B = "B(bucket_of ct t := B (bucket_of ct t) @ [c])"
  have nB: "c \<notin> members B" using c ct_invD(3) [OF inv] by blast
  have "?i < unat (ct_size ct')" using ct_bucket_less [OF ct_invD(4) [OF inv]] ct'(2) by (simp add: bucket_of_def)
  then obtain h where h: "nfe_list_insert (Bucket ?i) (List_of c) (link ct') = Some h"
    "rep h (unat (ct_size ct')) (dom (conns ct')) ?B L"
    using rep_insert_bucket [OF conjunct1 [OF ct'(1) [unfolded ct_rep_def]] _ _ nB] ct'(3) by auto
  let ?ct = "ct'\<lparr>link := h\<rparr>"
  have rep: "ct_rep ?ct ?B L" using h(2) ct'(1) by (simp add: ct_rep_def)
  have m: "matching ?ct u d = (if d = c then nfe_tuple_equal t u else matching ct u d)" for u d
    using ct'(3,4) by (simp add: matching_def)
  have b: "bucket_of ?ct = bucket_of ct" using ct'(2) by (simp add: bucket_of_def fun_eq_iff)
  have no: "\<not> matching ct t d" if "d \<in> members B" for d using t(2) that unfolding flows_None [OF inv] by blast
  have "wf_tuple (conn_tuple k) \<and> i = bucket_of ?ct (conn_tuple k) \<and> lockref k \<noteq> 0"
    if d: "d \<in> set (?B i)" "conns ?ct d = Some k" for i d k
  proof (cases "d = c")
    case True
    then have "i = ?i" using d(1) nB by (auto simp: members_iff split: if_splits)
    then show ?thesis using True d(2) ct'(3-5) t(1) unfolding b by simp
  next
    case False
    then have "d \<in> set (B i)" using d(1) by (auto split: if_splits)
    then show ?thesis using ct_inv_conn [OF inv] False d(2) ct'(3) unfolding b by (metis fun_upd_other nfe_conntrack.select_convs(4) nfe_conntrack.update_convs(3) nfe_conntrack.surjective option.inject)
  qed
  moreover have "d = e" if de: "d \<in> members ?B" "e \<in> members ?B" "conns ?ct d = Some k" "matching ?ct (conn_tuple k) e" for d e k
  proof (cases "d = c")
    case True
    then have "k = conn" using de(3) ct'(3) by simp
    show ?thesis
    proof (rule ccontr)
      assume "d \<noteq> e"
      then have "e \<in> members B" "matching ct t e" using de(2,4) True ct'(4) \<open>k = conn\<close> by (auto simp: m members_upd_snoc)
      then show False using no by blast
    qed
  next
    case False
    then have d: "d \<in> members B" "conns ct d = Some k" using de ct'(3) by (auto simp: members_upd_snoc)
    show ?thesis
    proof (cases "e = c")
      case True
      then have "nfe_tuple_equal (conn_tuple k) t" using de(4) by (simp add: m equal_sym)
      then show ?thesis using no [OF d(1)] d(2) by (simp add: matching_def)
    next
      case False
      then have "e \<in> members B" "matching ct (conn_tuple k) e" using de(2,4) by (auto simp: m members_upd_snoc)
      then show ?thesis using inv d unfolding ct_inv_def by blast
    qed
  qed
  moreover have "members L \<subseteq> members ?B" using ct_invD(2) [OF inv] by (auto simp: members_upd_snoc)
  ultimately have inv': "ct_inv ?ct ?B L" using rep unfolding ct_inv_def by blast
  have "flows ?ct ?B u = (if nfe_tuple_equal t u then Some c else flows ct B u)" for u
  proof (cases "nfe_tuple_equal t u")
    case True
    then show ?thesis by (simp add: flows_Some [OF inv'] m members_upd_snoc)
  next
    case False
    then have "flows ?ct ?B u = Some d \<longleftrightarrow> flows ct B u = Some d" for d
      using nB unfolding flows_Some [OF inv] flows_Some [OF inv'] by (auto simp: m members_upd_snoc)
    then show ?thesis using False by (metis not_Some_eq)
  qed
  then have "flows ?ct ?B = (\<lambda>u. if nfe_tuple_equal t u then Some c else flows ct B u)" by (rule ext)
  then show ?thesis using h(1) inv' by (intro exI [of _ ?ct]) (simp add: upd_link_def)
qed

lemma bucket_of_hash: "hash packet = nfe_tuple_hash (tuple packet) \<Longrightarrow>
    ct_bucket ct (hash packet) = Bucket (bucket_of ct (tuple packet))"
  by (simp add: ct_bucket_def bucket_of_def)

text \<open>A flow that has a connection.\<close>

lemma lookup_found:
  assumes inv: "ct_inv ct B L" and h: "hash packet = nfe_tuple_hash (tuple packet)"
    and c: "flows ct B (tuple packet) = Some c" "conns ct c = Some conn" "lockref conn \<noteq> - 1"
  shows "\<exists>ct'. nfe_conntrack_lookup new packet policy ct = Some (Some c, ct') \<and> ct_inv ct' B L \<and> flows ct' B = flows ct B \<and>
    ct' = ct\<lparr>conns := (conns ct)(c \<mapsto> conn\<lparr>lockref := lockref conn + 1\<rparr>)\<rparr>"
proof -
  let ?ct = "ct\<lparr>conns := (conns ct)(c \<mapsto> conn\<lparr>lockref := lockref conn + 1\<rparr>)\<rparr>"
  have "lockref conn + 1 \<noteq> 0" using c(3) by (simp add: eq_neg_iff_add_eq_0)
  then have "ct_inv ?ct B L" "flows ?ct B = flows ct B" using ct_inv_upd [OF inv c(2)] by simp_all
  moreover have "nfe_conntrack_lookup new packet policy ct = Some (Some c, ?ct)"
    using c find_bucket [OF inv, of "tuple packet"] h
    by (simp add: nfe_conntrack_lookup_def ct_lookup_hash_eq [OF ct_invD(1) [OF inv]] bucket_of_def upd_conn_def)
  ultimately show ?thesis by blast
qed

lemma lookup_not_created:
  assumes inv: "ct_inv ct B L" and h: "hash packet = nfe_tuple_hash (tuple packet)"
    and c: "flows ct B (tuple packet) = None" "policy = NFE_ALLOC_POLICY_NONE \<or> new = None"
  shows "nfe_conntrack_lookup new packet policy ct = Some (None, ct)"
  using c find_bucket [OF inv, of "tuple packet"] h
  by (auto simp: nfe_conntrack_lookup_def ct_lookup_hash_eq [OF ct_invD(1) [OF inv]] bucket_of_def nfe_conn_alloc_def)

lemma equal_copy: "nfe_tuple_equal (nfe_tuple_copy t b) u \<longleftrightarrow> nfe_tuple_equal t u"
  by (cases b) (auto simp: nfe_tuple_equal_iff)

lemma equal_copy_right: "nfe_tuple_equal u (nfe_tuple_copy t b) \<longleftrightarrow> nfe_tuple_equal u t"
  by (meson equal_copy equal_sym)

lemma bucket_of_copy: "wf_tuple t \<Longrightarrow> bucket_of ct (nfe_tuple_copy t b) = bucket_of ct t"
  by (rule equal_bucket) (simp_all add: equal_copy_right, simp add: nfe_tuple_equal_iff)

lemma flows_copy: "flows ct B (nfe_tuple_copy t b) = flows ct B t"
proof -
  have "matching ct (nfe_tuple_copy t b) = matching ct t"
    by (simp add: fun_eq_iff matching_def equal_copy_right split: option.split)
  then show ?thesis by (simp add: flows_def)
qed

lemma lookup_created:
  assumes inv: "ct_inv ct B L" and h: "hash packet = nfe_tuple_hash (tuple packet)" "wf_tuple (tuple packet)"
    and c: "flows ct B (tuple packet) = None" "policy \<noteq> NFE_ALLOC_POLICY_NONE" "c \<notin> dom (conns ct)"
  shows "\<exists>ct' B'. nfe_conntrack_lookup (Some c) packet policy ct = Some (Some c, ct') \<and> ct_inv ct' B' L \<and>
    members B' = insert c (members B) \<and>
    flows ct' B' = (\<lambda>u. if nfe_tuple_equal (tuple packet) u then Some c else flows ct B u) \<and>
    ct' = ct\<lparr>link := link ct', conns := (conns ct)(c \<mapsto> \<lparr>conn_tuple = nfe_tuple_copy (tuple packet) (policy = NFE_ALLOC_POLICY_INVERT),
       tcp_cb = tcp_zero, lockref = 1, conn_timestamp = 0\<rparr>)\<rparr>"
proof -
  let ?inv = "policy = NFE_ALLOC_POLICY_INVERT"
  let ?t = "nfe_tuple_copy (tuple packet) ?inv"
  let ?conn = "\<lambda>n. \<lparr>conn_tuple = ?t, tcp_cb = tcp_zero, lockref = n, conn_timestamp = 0\<rparr>"
  obtain ct1 where ct1: "nfe_conn_alloc (Some c) packet ?inv ct = Some (Some c, ct1)" "ct_rep ct1 B L"
    "ct_size ct1 = ct_size ct" "expiry ct1 = expiry ct" "conns ct1 = (conns ct)(c \<mapsto> ?conn 0)"
    using nfe_conn_alloc_rep [OF ct_invD(1) [OF inv] c(3)] by blast
  let ?ct1 = "ct1\<lparr>conns := (conns ct)(c \<mapsto> ?conn 1)\<rparr>"
  have "ct_rep ?ct1 B L" using ct1(2,5) by (simp add: ct_rep_def)
  moreover have "wf_tuple ?t" using h(2) by (cases ?inv) (simp_all add: wf_tuple_invert)
  moreover have "flows ct B ?t = None" using c(1) by (simp add: flows_copy)
  ultimately obtain ct2 where ct2: "upd_link (nfe_list_insert (Bucket (bucket_of ct ?t)) (List_of c)) ?ct1 = Some ct2"
    "ct2 = ?ct1\<lparr>link := link ct2\<rparr>" "ct_inv ct2 (B(bucket_of ct ?t := B (bucket_of ct ?t) @ [c])) L"
    "flows ct2 (B(bucket_of ct ?t := B (bucket_of ct ?t) @ [c])) = (\<lambda>u. if nfe_tuple_equal ?t u then Some c else flows ct B u)"
    using ct_inv_insert [OF inv c(3), of ?t ?ct1 "?conn 1"] ct1(3) by auto
  have b: "ct_bucket ct1 (hash packet) = Bucket (bucket_of ct ?t)"
    using h ct1(3) by (simp add: ct_bucket_def bucket_of_copy) (simp add: bucket_of_def)
  have link: "nfe_list_insert (Bucket (bucket_of ct ?t)) (List_of c) (link ct1) = Some (link ct2)"
    using ct2(1) by (auto simp: upd_link_def)
  have "nfe_conntrack_lookup (Some c) packet policy ct = Some (Some c, ct2)"
  proof -
    have "ct_lookup_hash ct (tuple packet) (hash packet) = Some (None, ct)"
      using c(1) find_bucket [OF inv, of "tuple packet"] h
      by (simp add: ct_lookup_hash_eq [OF ct_invD(1) [OF inv]] bucket_of_def)
    then show ?thesis
      using c(2) ct1(5) by (simp add: nfe_conntrack_lookup_def ct1(1) b upd_link_def link upd_conn_def) (subst (2) ct2(2), simp)
  qed
  moreover have "ct2 = ct\<lparr>link := link ct2, conns := (conns ct)(c \<mapsto> ?conn 1)\<rparr>"
    using ct1(3,4) by (subst ct2(2)) simp
  ultimately show ?thesis using ct2(3,4) by (intro exI) (auto simp: members_upd_snoc equal_copy)
qed

section \<open>Release\<close>

lemma ct_inv_distinct:
  assumes "ct_inv ct B L"
  shows "\<forall>i. distinct (B i)" "\<forall>l. distinct (L l)"
  using ct_invD(1) [OF assms] rep_distinct_bucket rep_distinct_lru by (auto simp: ct_rep_def)

lemma ct_inv_remove:
  assumes inv: "ct_inv ct B L"
    and ct': "ct_rep ct' (without c B) (without c L)" "ct_size ct' = ct_size ct" "conns ct' = (conns ct)(c := None)"
  shows "ct_inv ct' (without c B) (without c L)"
    "flows ct' (without c B) = (\<lambda>t. if flows ct B t = Some c then None else flows ct B t)"
proof -
  have mB: "members (without c B) = members B - {c}" and mL: "members (without c L) = members L - {c}"
    using members_without ct_inv_distinct [OF inv] by blast+
  have m: "matching ct' u d \<longleftrightarrow> d \<noteq> c \<and> matching ct u d" for u d using ct'(3) by (simp add: matching_def)
  have b: "bucket_of ct' = bucket_of ct" using ct'(2) by (simp add: bucket_of_def fun_eq_iff)
  have "wf_tuple (conn_tuple k) \<and> i = bucket_of ct' (conn_tuple k) \<and> lockref k \<noteq> 0"
    if d: "d \<in> set (without c B i)" "conns ct' d = Some k" for i d k
  proof -
    have "d \<in> set (B i)" using d(1) set_remove1_subset by (fastforce simp: without_def)
    then show ?thesis using inv d(2) ct'(3) unfolding b ct_inv_def by (auto split: if_splits)
  qed
  moreover have "d = e" if "d \<in> members (without c B)" "e \<in> members (without c B)" "conns ct' d = Some k"
    "matching ct' (conn_tuple k) e" for d e k
    using inv that ct'(3) unfolding mB m ct_inv_def by (auto split: if_splits)
  ultimately show inv': "ct_inv ct' (without c B) (without c L)"
    using ct'(1) ct_invD(2) [OF inv] unfolding ct_inv_def mB mL by blast
  have "flows ct' (without c B) t = Some d \<longleftrightarrow> flows ct B t = Some d \<and> d \<noteq> c" for t d
    unfolding flows_Some [OF inv] flows_Some [OF inv'] mB m by blast
  then have "flows ct' (without c B) t = (if flows ct B t = Some c then None else flows ct B t)" for t
    by (cases "flows ct B t"; cases "flows ct' (without c B) t") (auto, metis not_Some_eq option.inject)
  then show "flows ct' (without c B) = (\<lambda>t. if flows ct B t = Some c then None else flows ct B t)" by (rule ext)
qed

lemma release_free:
  assumes inv: "ct_inv ct B L" and c: "conns ct c = Some conn" "lockref conn = 1"
  shows "\<exists>ct'. nfe_conn_release (Some c) ct = Some ct' \<and> ct_inv ct' (without c B) (without c L) \<and>
    flows ct' (without c B) = (\<lambda>t. if flows ct B t = Some c then None else flows ct B t) \<and>
    ct' = ct\<lparr>link := link ct', conns := (conns ct)(c := None)\<rparr>"
proof -
  let ?n = "unat (ct_size ct)" and ?D = "dom (conns ct)"
  have r: "rep (link ct) ?n ?D B L" using ct_invD(1) [OF inv] by (simp add: ct_rep_def)
  have cD: "c \<in> ?D" using c(1) by auto
  obtain h1 where h1: "nfe_list_remove (List_of c) (link ct) = Some h1" "rep h1 ?n ?D (without c B) L"
    using rep_remove_List_of [OF r cD] by blast
  obtain h2 where h2: "nfe_list_remove (Lru_of c) h1 = Some h2" "rep h2 ?n ?D (without c B) (without c L)"
    using rep_remove_Lru_of [OF h1(2) cD] by blast
  let ?h = "h2(List_of c := None, Lru_of c := None)"
  let ?ct = "ct\<lparr>link := ?h, conns := (conns ct)(c := None)\<rparr>"
  have "c \<notin> members (without c B)" "c \<notin> members (without c L)"
    using members_without ct_inv_distinct [OF inv] by blast+
  then have "rep ?h ?n (?D - {c}) (without c B) (without c L)" by (rule rep_free [OF h2(2) cD])
  then have "ct_rep ?ct (without c B) (without c L)" using ct_invD(4) [OF inv] by (simp add: ct_rep_def)
  from ct_inv_remove [OF inv this]
  have "ct_inv ?ct (without c B) (without c L)"
    "flows ?ct (without c B) = (\<lambda>t. if flows ct B t = Some c then None else flows ct B t)" by simp_all
  moreover have "nfe_conn_release (Some c) ct = Some ?ct"
    using c by (simp add: nfe_conn_release_def upd_conn_def upd_link_def h1(1) h2(1))
  ultimately show ?thesis by (intro exI [of _ ?ct]) simp
qed

lemma release_keep:
  assumes inv: "ct_inv ct B L" and c: "conns ct c = Some conn" "lockref conn \<noteq> 0" "lockref conn \<noteq> 1"
  shows "\<exists>ct'. nfe_conn_release (Some c) ct = Some ct' \<and> ct_inv ct' B L \<and> flows ct' B = flows ct B \<and>
    ct' = ct\<lparr>conns := (conns ct)(c \<mapsto> conn\<lparr>lockref := lockref conn - 1\<rparr>)\<rparr>"
proof -
  let ?ct = "ct\<lparr>conns := (conns ct)(c \<mapsto> conn\<lparr>lockref := lockref conn - 1\<rparr>)\<rparr>"
  have "lockref conn - 1 \<noteq> 0" using c(3) by simp
  then have "ct_inv ?ct B L" "flows ?ct B = flows ct B" using ct_inv_upd [OF inv c(1)] by simp_all
  moreover have "nfe_conn_release (Some c) ct = Some ?ct"
    using c by (simp add: nfe_conn_release_def upd_conn_def)
  ultimately show ?thesis by blast
qed

section \<open>LRU lists\<close>

definition to_end :: "lru_proto \<Rightarrow> conn_ptr \<Rightarrow> lrus \<Rightarrow> lrus" where
  "to_end l c L = (without c L)(l := without c L l @ [c])"

lemma lru_update_inv:
  assumes inv: "ct_inv ct B L" and c: "c \<in> members B"
  shows "\<exists>ct'. nfe_conntrack_lru_update l c ct = Some ct' \<and> ct_inv ct' B (to_end l c L) \<and> flows ct' B = flows ct B \<and>
    ct' = ct\<lparr>link := link ct'\<rparr>"
proof -
  let ?n = "unat (ct_size ct)" and ?D = "dom (conns ct)"
  have r: "rep (link ct) ?n ?D B L" using ct_invD(1) [OF inv] by (simp add: ct_rep_def)
  have cD: "c \<in> ?D" using c ct_invD(3) [OF inv] by auto
  obtain h1 where h1: "nfe_list_remove (Lru_of c) (link ct) = Some h1" "rep h1 ?n ?D B (without c L)"
    using rep_remove_Lru_of [OF r cD] by blast
  have m: "members (without c L) = members L - {c}" using members_without ct_inv_distinct(2) [OF inv] by blast
  then obtain h2 where h2: "nfe_list_insert (Lru l) (Lru_of c) h1 = Some h2" "rep h2 ?n ?D B (to_end l c L)"
    using rep_insert_lru [OF h1(2) cD] unfolding to_end_def by auto
  let ?ct = "ct\<lparr>link := h2\<rparr>"
  have "ct_rep ?ct B (to_end l c L)" using h2(2) ct_invD(4) [OF inv] by (simp add: ct_rep_def)
  moreover have "members (to_end l c L) \<subseteq> members B"
    using c ct_invD(2) [OF inv] unfolding to_end_def members_upd_snoc m by blast
  moreover have m: "bucket_of ?ct = bucket_of ct" "matching ?ct = matching ct"
    by (simp_all add: bucket_of_def matching_def fun_eq_iff)
  ultimately have "ct_inv ?ct B (to_end l c L)" using inv unfolding ct_inv_def by simp
  moreover have "flows ?ct B = flows ct B" by (simp add: flows_def m fun_eq_iff)
  moreover have "nfe_conntrack_lru_update l c ct = Some ?ct"
    by (simp add: nfe_conntrack_lru_update_def upd_link_def h1(1) h2(1))
  ultimately show ?thesis by (intro exI [of _ ?ct]) simp
qed

section \<open>Expiry\<close>

definition expired :: "u64 \<Rightarrow> u64 \<Rightarrow> nfe_conn \<Rightarrow> bool" where
  "expired e ts conn \<longleftrightarrow> \<not> (ts < conn_timestamp conn \<or> ts - conn_timestamp conn < e)"

definition drop_ref :: "nfe_conn \<Rightarrow> nfe_conn option" where
  "drop_ref conn = (if lockref conn = 1 then None else Some (conn\<lparr>lockref := lockref conn - 1\<rparr>))"

text \<open>Every connection of the list up to the first one that has not expired loses a reference.\<close>

fun expire_conns :: "u64 \<Rightarrow> u64 \<Rightarrow> conn_ptr list \<Rightarrow> (conn_ptr \<rightharpoonup> nfe_conn) \<Rightarrow> conn_ptr \<rightharpoonup> nfe_conn" where
  "expire_conns e ts [] m = m"
| "expire_conns e ts (c # cs) m =
     (case m c of
        None \<Rightarrow> m
      | Some conn \<Rightarrow> if expired e ts conn then expire_conns e ts cs (m(c := drop_ref conn)) else m)"

lemma dom_expire_conns: "dom (expire_conns e ts cs m) \<subseteq> dom m"
proof (induction e ts cs m rule: expire_conns.induct)
  case (2 e ts c cs m)
  show ?case
  proof (cases "m c")
    case (Some conn)
    then have sub: "dom (m(c := drop_ref conn)) \<subseteq> dom m" by auto
    show ?thesis
    proof (cases "expired e ts conn")
      case True
      have "dom (expire_conns e ts (c # cs) m) = dom (expire_conns e ts cs (m(c := drop_ref conn)))" using Some True by simp
      also have "\<dots> \<subseteq> dom (m(c := drop_ref conn))" by (rule 2 [OF Some True])
      finally show ?thesis using sub by (rule subset_trans)
    qed (simp add: Some)
  qed simp
qed simp

definition alive :: "(conn_ptr \<rightharpoonup> nfe_conn) \<Rightarrow> ('i \<Rightarrow> conn_ptr list) \<Rightarrow> 'i \<Rightarrow> conn_ptr list" where
  "alive m B i = filter (\<lambda>c. c \<in> dom m) (B i)"

lemma filter_remove1_out: "\<not> P c \<Longrightarrow> filter P (remove1 c xs) = filter P xs"
  by (induction xs) auto

lemma alive_without: "c \<notin> dom m \<Longrightarrow> alive m (without c B) = alive m B"
  by (simp add: alive_def without_def fun_eq_iff filter_remove1_out)

lemma alive_all: "members B \<subseteq> dom m \<Longrightarrow> alive m B = B"
  by (auto simp: alive_def fun_eq_iff members_def filter_id_conv)

definition live_flows :: "(conn_ptr \<rightharpoonup> nfe_conn) \<Rightarrow> (nfe_tuple \<Rightarrow> conn_ptr option) \<Rightarrow> nfe_tuple \<Rightarrow> conn_ptr option" where
  "live_flows m F t = (case F t of None \<Rightarrow> None | Some c \<Rightarrow> if c \<in> dom m then Some c else None)"

lemma live_flows_all: "ct_inv ct B L \<Longrightarrow> live_flows (conns ct) (flows ct B) = flows ct B"
  using flows_Some [of ct B L] ct_invD(3) [of ct B L] by (fastforce simp: live_flows_def fun_eq_iff split: option.splits)

text \<open>One round of the loop: the connection loses a reference.\<close>

lemma release_step:
  assumes inv: "ct_inv ct B L" and c: "conns ct c = Some conn" "lockref conn \<noteq> 0" "L l = ks @ c # cs"
  shows "\<exists>ct' B' L' ks'. nfe_conn_release (Some c) ct = Some ct' \<and> ct_inv ct' B' L' \<and> conns ct' = (conns ct)(c := drop_ref conn) \<and>
    ct_size ct' = ct_size ct \<and> expiry ct' = expiry ct \<and> L' l = ks' @ cs \<and> flows ct' B' = live_flows (conns ct') (flows ct B) \<and>
    (\<forall>m. dom m \<subseteq> dom (conns ct') \<longrightarrow> alive m B' = alive m B \<and> alive m L' = alive m L)"
proof (cases "lockref conn = 1")
  case True
  obtain ct' where ct': "nfe_conn_release (Some c) ct = Some ct'" "ct_inv ct' (without c B) (without c L)"
    "flows ct' (without c B) = (\<lambda>t. if flows ct B t = Some c then None else flows ct B t)"
    "ct' = ct\<lparr>link := link ct', conns := (conns ct)(c := None)\<rparr>" using release_free [OF inv c(1) True] by blast
  have f: "ct_size ct' = ct_size ct" "expiry ct' = expiry ct" "conns ct' = (conns ct)(c := None)" by (subst ct'(4), simp)+
  have "distinct (L l)" using ct_inv_distinct(2) [OF inv] by blast
  then have "without c L l = ks @ cs" using c(3) by (simp add: without_def remove1_append)
  moreover have "flows ct' (without c B) = live_flows (conns ct') (flows ct B)"
  proof
    fix t
    have "live_flows (conns ct) (flows ct B) t = flows ct B t" by (simp add: live_flows_all [OF inv])
    then show "flows ct' (without c B) t = live_flows (conns ct') (flows ct B) t"
      unfolding ct'(3) f(3) by (auto simp: live_flows_def split: option.splits if_splits)
  qed
  moreover have "\<forall>m. dom m \<subseteq> dom (conns ct') \<longrightarrow> alive m (without c B) = alive m B \<and> alive m (without c L) = alive m L"
    unfolding f(3) by (auto intro!: alive_without)
  ultimately show ?thesis using ct'(1,2) f True by (auto simp: drop_ref_def)
next
  case False
  obtain ct' where ct': "nfe_conn_release (Some c) ct = Some ct'" "ct_inv ct' B L" "flows ct' B = flows ct B"
    "ct' = ct\<lparr>conns := (conns ct)(c \<mapsto> conn\<lparr>lockref := lockref conn - 1\<rparr>)\<rparr>" using release_keep [OF inv c(1,2) False] by blast
  have "flows ct' B = live_flows (conns ct') (flows ct B)" using live_flows_all [OF ct'(2)] ct'(3) by simp
  moreover have "L l = (ks @ [c]) @ cs" using c(3) by simp
  ultimately show ?thesis using ct' False unfolding drop_ref_def by (intro exI [of _ ct'] exI [of _ B] exI [of _ L] exI [of _ "ks @ [c]"]) simp
qed

lemma live_flows_live: "dom m' \<subseteq> dom m \<Longrightarrow> live_flows m' (live_flows m F) = live_flows m' F"
  by (auto simp: live_flows_def fun_eq_iff split: option.splits)

lemma ct_inv_listed:
  assumes "ct_inv ct B L" "c \<in> set (L l)"
  obtains conn where "conns ct c = Some conn" "lockref conn \<noteq> 0" "c \<in> members B"
proof -
  have "c \<in> members L" using assms(2) by (auto simp: members_iff)
  then have "c \<in> members B" using ct_invD(2) [OF assms(1)] by blast
  then obtain i where "c \<in> set (B i)" by (auto simp: members_iff)
  then show thesis using ct_inv_conn [OF assms(1)] that \<open>c \<in> members B\<close> by metis
qed

lemma lru_next:
  assumes "ct_inv ct B L" "L l = ks @ cs"
  shows "\<exists>q. get_next (link ct) (hd (map Lru_of cs @ [Lru l])) = Some q \<and> (cs \<noteq> [] \<longrightarrow> q = hd (map Lru_of (tl cs) @ [Lru l]))"
proof -
  have "ring (link ct) (Lru l) (map Lru_of (L l))"
    using ct_invD(1) [OF assms(1)] rep_ring_lru unfolding ct_rep_def by blast
  then have r: "ring (link ct) (Lru l) (map Lru_of ks @ map Lru_of cs)" by (simp add: assms(2))
  show ?thesis
  proof (cases cs)
    case Nil
    then show ?thesis using ring_next [OF r] by simp
  next
    case (Cons d ds)
    then show ?thesis using ring_next_item [of "link ct" "Lru l" "map Lru_of ks" "Lru_of d" "map Lru_of ds"] r by simp
  qed
qed

lemma expire_loop_inv:
  assumes "ct_inv ct B L" "L l = ks @ cs" "cs \<noteq> [] \<longrightarrow> tmp = hd (map Lru_of (tl cs) @ [Lru l])"
  shows "\<exists>ct'. expire_loop l ts (hd (map Lru_of cs @ [Lru l])) tmp ct = Some ct' \<and>
    conns ct' = expire_conns (expiry ct l) ts cs (conns ct) \<and> ct_size ct' = ct_size ct \<and> expiry ct' = expiry ct \<and>
    ct_inv ct' (alive (conns ct') B) (alive (conns ct') L) \<and>
    flows ct' (alive (conns ct') B) = live_flows (conns ct') (flows ct B)"
  using assms
proof (induction cs arbitrary: ct B L ks tmp)
  case Nil
  then show ?case
    using ct_invD(2,3) [OF Nil(1)] live_flows_all [OF Nil(1)] by (simp add: expire_loop.simps alive_all)
next
  case (Cons c cs)
  have same: "ct_inv ct (alive (conns ct) B) (alive (conns ct) L)" "flows ct (alive (conns ct) B) = live_flows (conns ct) (flows ct B)"
    using ct_invD(2,3) [OF Cons(2)] live_flows_all [OF Cons(2)] Cons(2) by (simp_all add: alive_all)
  obtain conn where conn: "conns ct c = Some conn" "lockref conn \<noteq> 0"
    using ct_inv_listed [OF Cons(2), of c l] Cons(3) by auto
  show ?case
  proof (cases "expired (expiry ct l) ts conn")
    case False
    then have "expire_loop l ts (Lru_of c) tmp ct = Some ct"
      by (subst expire_loop.simps) (simp add: conn expired_def)
    then show ?thesis using same False conn by simp
  next
    case True
    obtain ct1 B1 L1 ks1 where ct1: "nfe_conn_release (Some c) ct = Some ct1" "ct_inv ct1 B1 L1"
      "conns ct1 = (conns ct)(c := drop_ref conn)" "ct_size ct1 = ct_size ct" "expiry ct1 = expiry ct" "L1 l = ks1 @ cs"
      "flows ct1 B1 = live_flows (conns ct1) (flows ct B)"
      "\<forall>m. dom m \<subseteq> dom (conns ct1) \<longrightarrow> alive m B1 = alive m B \<and> alive m L1 = alive m L"
      using release_step [OF Cons(2) conn Cons(3)] by blast
    obtain q where q: "get_next (link ct1) (hd (map Lru_of cs @ [Lru l])) = Some q"
      "cs \<noteq> [] \<longrightarrow> q = hd (map Lru_of (tl cs) @ [Lru l])"
      using lru_next [OF ct1(2,6)] by blast
    obtain ct' where ct': "expire_loop l ts (hd (map Lru_of cs @ [Lru l])) q ct1 = Some ct'"
      "conns ct' = expire_conns (expiry ct1 l) ts cs (conns ct1)" "ct_size ct' = ct_size ct1" "expiry ct' = expiry ct1"
      "ct_inv ct' (alive (conns ct') B1) (alive (conns ct') L1)"
      "flows ct' (alive (conns ct') B1) = live_flows (conns ct') (flows ct1 B1)"
      using Cons.IH [OF ct1(2,6) q(2)] by blast
    have d: "dom (conns ct') \<subseteq> dom (conns ct1)" unfolding ct'(2) by (rule dom_expire_conns)
    have "tmp = hd (map Lru_of cs @ [Lru l])" using Cons.prems(3) by simp
    then have "expire_loop l ts (Lru_of c) tmp ct = Some ct'"
      using True ct1(1) q(1) ct'(1) by (subst expire_loop.simps) (simp add: conn expired_def)
    moreover have "conns ct' = expire_conns (expiry ct l) ts (c # cs) (conns ct)"
      using True conn ct'(2) ct1(3,5) by simp
    moreover have "alive (conns ct') B1 = alive (conns ct') B" "alive (conns ct') L1 = alive (conns ct') L" using ct1(8) d by blast+
    moreover have "live_flows (conns ct') (flows ct1 B1) = live_flows (conns ct') (flows ct B)"
      unfolding ct1(7) by (rule live_flows_live [OF d])
    ultimately show ?thesis using ct' ct1(4,5) by simp
  qed
qed

lemma lru_expire_inv:
  assumes "ct_inv ct B L"
  shows "\<exists>ct'. nfe_conntrack_lru_expire l ts ct = Some ct' \<and>
    conns ct' = expire_conns (expiry ct l) ts (L l) (conns ct) \<and> ct_size ct' = ct_size ct \<and> expiry ct' = expiry ct \<and>
    ct_inv ct' (alive (conns ct') B) (alive (conns ct') L) \<and>
    flows ct' (alive (conns ct') B) = live_flows (conns ct') (flows ct B)"
proof -
  obtain q where q: "get_next (link ct) (hd (map Lru_of (L l) @ [Lru l])) = Some q"
    "L l \<noteq> [] \<longrightarrow> q = hd (map Lru_of (tl (L l)) @ [Lru l])"
    using lru_next [OF assms, of l "[]" "L l"] by auto
  have "ring (link ct) (Lru l) (map Lru_of (L l))"
    using ct_invD(1) [OF assms] rep_ring_lru unfolding ct_rep_def by blast
  then have "get_next (link ct) (Lru l) = Some (hd (map Lru_of (L l) @ [Lru l]))" by (rule ring_next)
  then show ?thesis
    using expire_loop_inv [OF assms, of l "[]" "L l" q ts] q by (simp add: nfe_conntrack_lru_expire_def)
qed

end
