(* ===== verification/Nfe_Conntrack_Api.thy ===== *)
theory Nfe_Conntrack_Api
  imports Nfe_Conntrack_Correct
begin

text \<open>
  The promises of the connection table to its users: creation, lookup, expiry, reference counts, and that the
  operations of the interface keep the table well-formed.
\<close>

section \<open>Creation\<close>

definition smear :: "nat \<Rightarrow> u32 \<Rightarrow> u32" where
  "smear k n = n OR drop_bit k n"

definition below_bit :: "nat \<Rightarrow> u32 \<Rightarrow> nat \<Rightarrow> bool" where
  "below_bit k x i \<longleftrightarrow> (\<exists>j\<in>{i..<i + k}. bit x j)"

lemma below_bit_split: "below_bit (k + k') x i \<longleftrightarrow> below_bit k x i \<or> below_bit k' x (i + k)"
proof -
  have "{i..<i + (k + k')} = {i..<i + k} \<union> {i + k..<i + k + k'}" by auto
  then show ?thesis unfolding below_bit_def by (simp only: bex_Un)
qed

lemma bit_smear:
  assumes "bit y = below_bit k x" "l = k + k"
  shows "bit (smear k y) = below_bit l x"
proof
  fix i
  have "bit (smear k y) i \<longleftrightarrow> bit y i \<or> bit y (i + k)"
    by (simp add: smear_def bit_or_iff bit_drop_bit_eq add.commute)
  then show "bit (smear k y) i = below_bit l x i" by (simp add: assms below_bit_split)
qed

lemma clp2_smear: "clp2 n = smear 16 (smear 8 (smear 4 (smear 2 (smear 1 (n - 1))))) + 1"
  by (simp add: clp2_def smear_def Let_def)

lemma bit_clp2: "bit (clp2 n - 1) = below_bit 32 (n - 1)"
proof -
  have "bit (n - 1) = below_bit 1 (n - 1)" by (auto simp: below_bit_def fun_eq_iff)
  then have "bit (smear 1 (n - 1)) = below_bit 2 (n - 1)" by (rule bit_smear) simp
  then have "bit (smear 2 (smear 1 (n - 1))) = below_bit 4 (n - 1)" by (rule bit_smear) simp
  then have "bit (smear 4 (smear 2 (smear 1 (n - 1)))) = below_bit 8 (n - 1)" by (rule bit_smear) simp
  then have "bit (smear 8 (smear 4 (smear 2 (smear 1 (n - 1))))) = below_bit 16 (n - 1)" by (rule bit_smear) simp
  then have "bit (smear 16 (smear 8 (smear 4 (smear 2 (smear 1 (n - 1)))))) = below_bit 32 (n - 1)" by (rule bit_smear) simp
  then show ?thesis by (simp add: clp2_smear)
qed

lemma unat_32: "unat (x :: u32) < 2 ^ 32"
proof -
  have "unat x < 2 ^ LENGTH(32)" by (rule unsigned_less)
  then show ?thesis by simp
qed

lemma unat_exp:
  assumes "k < 32"
  shows "unat (2 ^ k :: u32) = 2 ^ k"
proof -
  have "unat (word_of_nat (2 ^ k) :: u32) = take_bit 32 (2 ^ k)" by (simp only: unsigned_of_nat) simp
  also have "\<dots> = 2 ^ k" using assms by (simp add: take_bit_nat_eq_self)
  finally show ?thesis by simp
qed

lemma bit_top:
  fixes x :: u32
  assumes "2 ^ k \<le> unat x" "unat x < 2 ^ Suc k"
  shows "bit x k" "j > k \<Longrightarrow> \<not> bit x j" "k < 32"
proof -
  have "unat x < 2 ^ 32" by (rule unat_32)
  then have "(2::nat) ^ k < 2 ^ 32" by (rule le_less_trans [OF assms(1)])
  then show k: "k < 32" by (simp only: power_strict_increasing_iff)
  have "unat x div 2 ^ k = 1" using assms by (simp add: div_nat_eqI)
  then have "bit (unat x) k" by (simp add: bit_iff_odd)
  then show "bit x k" by (simp add: bit_unsigned_iff)
  assume "j > k"
  then have "(2::nat) ^ Suc k \<le> 2 ^ j" by (intro power_increasing) simp_all
  then have "unat x < 2 ^ j" using assms(2) by simp
  then have "\<not> bit (unat x) j" by (simp add: bit_iff_odd)
  then show "\<not> bit x j" using bit_imp_le_length [of x j] by (auto simp: bit_unsigned_iff)
qed

lemma clp2_mask:
  assumes "2 ^ k \<le> unat (n - 1)" "unat (n - 1) < 2 ^ Suc k"
  shows "clp2 n - 1 = mask (Suc k)"
proof (rule bit_word_eqI)
  fix i assume i: "i < LENGTH(32)"
  note b = bit_top [OF assms]
  have "below_bit 32 (n - 1) i \<longleftrightarrow> i \<le> k"
  proof
    assume "below_bit 32 (n - 1) i"
    then obtain j where "i \<le> j" "bit (n - 1) j" by (auto simp: below_bit_def)
    then show "i \<le> k" using b(2) [of j] by (meson leI le_trans)
  next
    assume "i \<le> k"
    then show "below_bit 32 (n - 1) i" using b(1,3) by (auto simp: below_bit_def)
  qed
  then show "bit (clp2 n - 1) i \<longleftrightarrow> bit (mask (Suc k) :: u32) i"
    unfolding bit_clp2 using i by (auto simp: bit_mask_iff)
qed

text \<open>\<open>clp2\<close> rounds up to a power of two.\<close>

lemma clp2_power:
  assumes "1 \<le> unat n" "unat n \<le> 2 ^ 31"
  shows "\<exists>k\<le>31. unat (clp2 n) = 2 ^ k \<and> unat n \<le> 2 ^ k \<and> 2 ^ k < 2 * unat n"
proof (cases "n = 1")
  case True
  then show ?thesis by (intro exI [of _ 0]) (simp add: clp2_def)
next
  case False
  let ?m = "unat (n - 1)"
  have m: "unat n = ?m + 1" using assms(1) unat_gt_0 [of n] by (simp add: unat_minus_one)
  have "?m \<noteq> 0"
  proof
    assume "?m = 0"
    then have "n - 1 = 0" by (simp only: unat_eq_0)
    with False show False by simp
  qed
  then obtain k where k: "2 ^ k \<le> ?m" "?m < 2 ^ Suc k"
    using ex_power_ivl1 [of 2 ?m] by auto
  have c: "clp2 n = 2 ^ Suc k" using clp2_mask [OF k] by (simp add: mask_eq_exp_minus_1 eq_diff_eq [symmetric])
  have "(2::nat) ^ k < 2 ^ 31" using k(1) m assms(2) by linarith
  then have "k < 31" by (simp only: power_strict_increasing_iff)
  then have "unat (clp2 n) = 2 ^ Suc k" unfolding c by (intro unat_exp) simp
  then show ?thesis using k m \<open>k < 31\<close> by (intro exI [of _ "Suc k"]) auto
qed

lemma clp2_zero:
  assumes "unat n = 0 \<or> 2 ^ 31 < unat n"
  shows "clp2 n = 0"
proof -
  have m: "2 ^ 31 \<le> unat (n - 1)"
  proof (cases "n = 0")
    case True
    then show ?thesis by (simp add: unsigned_minus_1_eq_mask mask_eq_exp_minus_1)
  next
    case False
    then have "unat n \<noteq> 0" by (simp add: unat_eq_0)
    then have "2 ^ 31 < unat n" using assms by simp
    then show ?thesis using False by (simp add: unat_minus_one)
  qed
  have m': "unat (n - 1) < 2 ^ Suc 31" using unat_32 [of "n - 1"] by simp
  have "clp2 n = 2 ^ Suc 31" using clp2_mask [OF m m'] by (simp only: mask_eq_exp_minus_1) simp
  then show ?thesis by simp
qed

lemma create_inv:
  assumes "nfe_conntrack_create cfg n = Some ct"
  shows "ct_inv ct (\<lambda>_. []) (\<lambda>_. []) \<and> conns ct = Map.empty \<and> ct_size ct = clp2 n \<and> expiry ct = timeouts cfg"
proof -
  let ?h = "\<lambda>x. case x of Bucket i \<Rightarrow> (if i < unat (clp2 n) then Some \<lparr>prev = x, next = x\<rparr> else None)
                     | Lru l \<Rightarrow> Some \<lparr>prev = x, next = x\<rparr> | _ \<Rightarrow> None"
  have ct: "clp2 n \<noteq> 0" "ct = \<lparr>ct_size = clp2 n, expiry = timeouts cfg, link = ?h, conns = Map.empty\<rparr>"
    using assms by (auto simp: nfe_conntrack_create_def Let_def split: if_splits)
  have m: "members (\<lambda>_. []) = {}" by (simp add: members_def)
  have "rings ?h (heads (unat (clp2 n)) {} (\<lambda>_. []) (\<lambda>_. [])) (ring_of (\<lambda>_. []) (\<lambda>_. []))"
    by (rule ringsI) (auto simp: heads_def ring_single m)
  then have "ct_rep ct (\<lambda>_. []) (\<lambda>_. [])" using ct by (simp add: ct_rep_def rep_def m)
  then show ?thesis using ct by (simp add: ct_inv_def m)
qed

lemma flows_empty: "flows ct (\<lambda>_. []) = (\<lambda>_. None)"
proof -
  have "concat (map (\<lambda>_. []) xs) = ([] :: conn_ptr list)" for xs :: "nat list" by (induction xs) simp_all
  then show ?thesis by (simp add: flows_def fun_eq_iff del: concat_eq_Nil_conv)
qed


section \<open>Lookup\<close>

definition no_wrap :: "nfe_conntrack \<Rightarrow> bool" where
  "no_wrap ct \<longleftrightarrow> (\<forall>c conn. conns ct c = Some conn \<longrightarrow> lockref conn \<noteq> - 1)"

text \<open>
  C35. The table is a map from flows to connections that does not depend on the direction of a packet. A lookup
  returns the connection of the flow and takes a reference; for an unknown flow it adds a connection with one
  reference under the tuple of the packet, or the inverted one for a packet of the other side, unless
  the policy or the allocator refuses. No lookup leaves the table or changes another flow.
\<close>

theorem nfe_conntrack_lookup_correct:
  assumes "ct_inv ct B L" "hash packet = nfe_tuple_hash (tuple packet)" "wf_tuple (tuple packet)" "no_wrap ct"
    and "\<And>c. new = Some c \<Longrightarrow> c \<notin> dom (conns ct)"
  shows "case flows ct B (tuple packet) of
      Some c \<Rightarrow> \<exists>conn ct'. conns ct c = Some conn \<and> nfe_conntrack_lookup new packet policy ct = Some (Some c, ct') \<and>
        conns ct' = (conns ct)(c \<mapsto> conn\<lparr>lockref := lockref conn + 1\<rparr>) \<and> ct_inv ct' B L \<and> flows ct' B = flows ct B
    | None \<Rightarrow>
        if policy = NFE_ALLOC_POLICY_NONE \<or> new = None then nfe_conntrack_lookup new packet policy ct = Some (None, ct)
        else \<exists>c ct' B'. new = Some c \<and> nfe_conntrack_lookup new packet policy ct = Some (Some c, ct') \<and>
          conns ct' = (conns ct)(c \<mapsto> \<lparr>conn_tuple = nfe_tuple_copy (tuple packet) (policy = NFE_ALLOC_POLICY_INVERT),
             tcp_cb = tcp_zero, lockref = 1, conn_timestamp = 0\<rparr>) \<and> ct_inv ct' B' L \<and>
          flows ct' B' = (flows ct B)(tuple packet \<mapsto> c, nfe_tuple_copy (tuple packet) True \<mapsto> c)"
proof (cases "flows ct B (tuple packet)")
  case (Some c)
  then have "c \<in> members B" using flows_Some [OF assms(1)] by blast
  then obtain conn where conn: "conns ct c = Some conn" using ct_invD(3) [OF assms(1)] by auto
  then have "lockref conn \<noteq> - 1" using assms(4) by (auto simp: no_wrap_def)
  then show ?thesis using lookup_found [OF assms(1,2) Some conn, of new policy] Some conn by auto
next
  case None
  show ?thesis
  proof (cases "policy = NFE_ALLOC_POLICY_NONE \<or> new = None")
    case True
    then show ?thesis using lookup_not_created [OF assms(1,2) None True] None by simp
  next
    case False
    then obtain c where c: "new = Some c" by auto
    have p: "policy \<noteq> NFE_ALLOC_POLICY_NONE" using False by simp
    obtain ct' B' where ct': "nfe_conntrack_lookup (Some c) packet policy ct = Some (Some c, ct')" "ct_inv ct' B' L"
      "flows ct' B' = (\<lambda>u. if nfe_tuple_equal (tuple packet) u then Some c else flows ct B u)"
      "ct' = ct\<lparr>link := link ct', conns := (conns ct)(c \<mapsto> \<lparr>conn_tuple = nfe_tuple_copy (tuple packet) (policy = NFE_ALLOC_POLICY_INVERT),
       tcp_cb = tcp_zero, lockref = 1, conn_timestamp = 0\<rparr>)\<rparr>"
      using lookup_created [OF assms(1-3) None p assms(5) [OF c]] by blast
    have "flows ct' B' = (flows ct B)(tuple packet \<mapsto> c, nfe_tuple_copy (tuple packet) True \<mapsto> c)"
      unfolding ct'(3) by (auto simp: fun_eq_iff nfe_tuple_equal_iff)
    moreover have "conns ct' = (conns ct)(c \<mapsto> \<lparr>conn_tuple = nfe_tuple_copy (tuple packet) (policy = NFE_ALLOC_POLICY_INVERT),
       tcp_cb = tcp_zero, lockref = 1, conn_timestamp = 0\<rparr>)" by (subst ct'(4)) simp
    ultimately show ?thesis using None False ct'(1,2) c by auto
  qed
qed

text \<open>A new table and a packet for the witnesses.\<close>

definition small_table :: nfe_conntrack where
  "small_table = the (nfe_conntrack_create default_config 4)"

definition plain_packet :: nfe_packet where
  "plain_packet = (init_packet 60 1000)\<lparr>hash := nfe_tuple_hash empty_tuple, next_op := NEXT_LOOKUP_UDP\<rparr>"

lemma small_table_inv: "ct_inv small_table (\<lambda>_. []) (\<lambda>_. [])" "conns small_table = Map.empty" "no_wrap small_table"
proof -
  have "clp2 4 = 4" by (simp add: clp2_def)
  then obtain ct where "nfe_conntrack_create default_config 4 = Some ct" by (simp add: nfe_conntrack_create_def)
  then show "ct_inv small_table (\<lambda>_. []) (\<lambda>_. [])" "conns small_table = Map.empty" "no_wrap small_table"
    using create_inv [of default_config 4 ct] by (simp_all add: small_table_def no_wrap_def)
qed

lemma plain_packet_wf: "hash plain_packet = nfe_tuple_hash (tuple plain_packet)" "wf_tuple (tuple plain_packet)"
  by (simp_all add: plain_packet_def init_packet_def empty_tuple_def wf_tuple_def domain_len_def NFE_AF_NONE_def NFE_AF_INET_def NFE_AF_INET6_def)

theorem nfe_conntrack_lookup_correct_witness:
  "\<exists>ct B. nfe_conntrack_lookup (Some 7) plain_packet NFE_ALLOC_POLICY_CREATE small_table = Some (Some 7, ct) \<and>
     ct_inv ct B (\<lambda>_. []) \<and> flows ct B (tuple plain_packet) = Some 7"
proof -
  obtain ct B where "nfe_conntrack_lookup (Some 7) plain_packet NFE_ALLOC_POLICY_CREATE small_table = Some (Some 7, ct)"
    "ct_inv ct B (\<lambda>_. [])" "flows ct B (tuple plain_packet) = Some 7"
    using nfe_conntrack_lookup_correct [OF small_table_inv(1) plain_packet_wf small_table_inv(3), of "Some 7" NFE_ALLOC_POLICY_CREATE]
    by (fastforce simp: flows_empty small_table_inv(2))
  then show ?thesis by blast
qed

section \<open>Expiry\<close>

lemma expired_mono:
  assumes "\<not> expired e ts conn" "conn_timestamp conn \<le> conn_timestamp conn'"
  shows "\<not> expired e ts conn'"
proof (cases "ts < conn_timestamp conn'")
  case False
  then have le: "conn_timestamp conn' \<le> ts" "conn_timestamp conn \<le> ts" using assms(2) by auto
  then have "ts - conn_timestamp conn < e" using assms(1) by (auto simp: expired_def)
  moreover have "ts - conn_timestamp conn' \<le> ts - conn_timestamp conn"
  proof -
    have "uint (ts - conn_timestamp conn') = uint ts - uint (conn_timestamp conn')"
      "uint (ts - conn_timestamp conn) = uint ts - uint (conn_timestamp conn)"
      using le by (simp_all only: uint_minus_simple_alt)
    then show ?thesis using assms(2) unfolding word_le_def by linarith
  qed
  ultimately show ?thesis by (auto simp: expired_def)
qed (simp add: expired_def)

definition timestamps_sorted :: "nfe_conntrack \<Rightarrow> conn_ptr list \<Rightarrow> bool" where
  "timestamps_sorted ct cs \<longleftrightarrow> sorted (map (\<lambda>c. conn_timestamp (the (conns ct c))) cs)"

lemma expire_conns_sorted:
  assumes "distinct cs" "set cs \<subseteq> dom m" "sorted (map (\<lambda>c. conn_timestamp (the (m c))) cs)"
  shows "expire_conns e ts cs m c =
    (case m c of None \<Rightarrow> None | Some conn \<Rightarrow> if c \<in> set cs \<and> expired e ts conn then drop_ref conn else Some conn)"
  using assms
proof (induction cs arbitrary: m)
  case (Cons d ds)
  then obtain conn where d: "m d = Some conn" by auto
  show ?case
  proof (cases "expired e ts conn")
    case True
    have eq: "(m(d := drop_ref conn)) x = m x" if "x \<in> set ds" for x using that Cons.prems(1) by auto
    then have e: "map (\<lambda>c. conn_timestamp (the ((m(d := drop_ref conn)) c))) ds = map (\<lambda>c. conn_timestamp (the (m c))) ds"
      by (intro map_cong) (simp_all del: fun_upd_apply)
    have sub: "set ds \<subseteq> dom (m(d := drop_ref conn))" using Cons.prems(1,2) by auto
    have "expire_conns e ts ds (m(d := drop_ref conn)) c =
      (case (m(d := drop_ref conn)) c of None \<Rightarrow> None | Some conn \<Rightarrow> if c \<in> set ds \<and> expired e ts conn then drop_ref conn else Some conn)"
      by (rule Cons.IH [OF _ sub]) (use Cons.prems in \<open>simp_all only: e distinct.simps list.map sorted_wrt.simps\<close>)
    then show ?thesis using True d Cons.prems(1) by (cases "c = d") (auto split: option.splits)
  next
    case False
    have "\<not> expired e ts k" if k: "c \<in> set (d # ds)" "m c = Some k" for k
    proof (cases "c = d")
      case False
      then have "conn_timestamp conn \<le> conn_timestamp k" using k d Cons.prems(3) by force
      then show ?thesis using expired_mono \<open>\<not> expired e ts conn\<close> by blast
    qed (use k d False in simp)
    then show ?thesis using False d by (auto split: option.splits)
  qed
qed (simp split: option.split)



section \<open>Operations at a point in time\<close>

text \<open>The LRU lists are in the order of the time stamps, none of which lies after the present.\<close>

definition stamp :: "nfe_conntrack \<Rightarrow> conn_ptr \<Rightarrow> u64" where
  "stamp ct c = conn_timestamp (the (conns ct c))"

definition ordered :: "nfe_conntrack \<Rightarrow> lrus \<Rightarrow> u64 \<Rightarrow> bool" where
  "ordered ct L now \<longleftrightarrow> (\<forall>l. sorted (map (stamp ct) (L l)) \<and> (\<forall>c\<in>set (L l). stamp ct c \<le> now))"

definition ct_ok :: "nfe_conntrack \<Rightarrow> u64 \<Rightarrow> bool" where
  "ct_ok ct now \<longleftrightarrow> (\<exists>B L. ct_inv ct B L \<and> ordered ct L now)"

lemma ordered_filter:
  assumes "ordered ct L now" "\<forall>l. \<forall>c\<in>set (L l). P c \<longrightarrow> stamp ct' c = stamp ct c" "\<forall>l. L' l = filter P (L l)"
  shows "ordered ct' L' now"
proof -
  have "sorted (map (stamp ct') (L' l)) \<and> (\<forall>c\<in>set (L' l). stamp ct' c \<le> now)" for l
  proof -
    have m: "map (stamp ct') (L' l) = map (stamp ct) (filter P (L l))" using assms(2,3) by auto
    have "sorted (map (stamp ct) (filter P (L l)))" using assms(1) by (intro sorted_filter) (simp add: ordered_def)
    then have "sorted (map (stamp ct') (L' l))" by (simp only: m)
    moreover have "\<forall>c\<in>set (L' l). stamp ct' c \<le> now" using assms by (auto simp: ordered_def)
    ultimately show ?thesis by blast
  qed
  then show ?thesis by (simp add: ordered_def)
qed

lemma expire_step:
  assumes inv: "ct_inv ct B L" and o: "ordered ct L now" and w: "no_wrap ct"
  shows "\<exists>ct' B' L'. nfe_conntrack_lru_expire l ts ct = Some ct' \<and> ct_inv ct' B' L' \<and> ordered ct' L' now \<and> no_wrap ct' \<and>
    dom (conns ct') \<subseteq> dom (conns ct) \<and> flows ct' B' = live_flows (conns ct') (flows ct B)"
proof -
  obtain ct' where ct': "nfe_conntrack_lru_expire l ts ct = Some ct'" "conns ct' = expire_conns (expiry ct l) ts (L l) (conns ct)"
    "ct_inv ct' (alive (conns ct') B) (alive (conns ct') L)" "flows ct' (alive (conns ct') B) = live_flows (conns ct') (flows ct B)"
    using lru_expire_inv [OF inv, of l ts] by blast
  have "set (L l) \<subseteq> members L" by (auto simp: members_iff)
  then have sub: "set (L l) \<subseteq> dom (conns ct)" using ct_invD(2,3) [OF inv] by blast
  have "sorted (map (\<lambda>c. conn_timestamp (the (conns ct c))) (L l))" using o by (simp add: ordered_def stamp_def [abs_def])
  with sub have eq: "conns ct' c = (case conns ct c of None \<Rightarrow> None
      | Some conn \<Rightarrow> if c \<in> set (L l) \<and> expired (expiry ct l) ts conn then drop_ref conn else Some conn)" for c
    unfolding ct'(2) using ct_inv_distinct(2) [OF inv] by (intro expire_conns_sorted) blast+
  have "stamp ct' c = stamp ct c" if "c \<in> dom (conns ct')" for c
    using that by (auto simp: stamp_def eq drop_ref_def split: option.splits if_splits)
  then have "ordered ct' (alive (conns ct') L) now"
    by (intro ordered_filter [OF o, of "\<lambda>c. c \<in> dom (conns ct')"]) (auto simp: alive_def)
  moreover have "lockref conn' \<noteq> - 1" if c: "conns ct' c = Some conn'" for c conn'
  proof (cases "c \<in> set (L l)")
    case True
    then obtain conn where conn: "conns ct c = Some conn" "lockref conn \<noteq> 0" using ct_inv_listed [OF inv] by metis
    then have "lockref conn \<noteq> - 1" "lockref conn - 1 \<noteq> - 1" using w by (auto simp: no_wrap_def)
    then show ?thesis using c conn by (auto simp: eq drop_ref_def split: if_splits)
  next
    case False
    then show ?thesis using c w by (auto simp: eq no_wrap_def split: option.splits)
  qed
  moreover have "dom (conns ct') \<subseteq> dom (conns ct)" unfolding ct'(2) by (rule dom_expire_conns)
  ultimately show ?thesis using ct' unfolding no_wrap_def by blast
qed

text \<open>A packet touches its connection.\<close>

lemma touch_step:
  assumes inv: "ct_inv ct B L" and o: "ordered ct L now" "now \<le> ts" and c: "c \<in> members B" "conns ct c = Some conn"
  shows "\<exists>ct1 ct2. upd_conn c (\<lambda>conn. conn\<lparr>conn_timestamp := ts\<rparr>) ct = Some ct1 \<and> nfe_conntrack_lru_update l c ct1 = Some ct2 \<and>
    ct_inv ct2 B (to_end l c L) \<and> ordered ct2 (to_end l c L) ts \<and> flows ct2 B = flows ct B \<and>
    conns ct1 = (conns ct)(c \<mapsto> conn\<lparr>conn_timestamp := ts\<rparr>) \<and> conns ct2 = conns ct1"
proof -
  let ?ct1 = "ct\<lparr>conns := (conns ct)(c \<mapsto> conn\<lparr>conn_timestamp := ts\<rparr>)\<rparr>"
  obtain i where "c \<in> set (B i)" using c(1) by (auto simp: members_iff)
  then have "lockref conn \<noteq> 0" using ct_inv_conn [OF inv] c(2) by (metis option.inject)
  then have inv1: "ct_inv ?ct1 B L" "flows ?ct1 B = flows ct B"
    using ct_inv_upd [OF inv c(2), of "conn\<lparr>conn_timestamp := ts\<rparr>"] by simp_all
  obtain ct2 where ct2: "nfe_conntrack_lru_update l c ?ct1 = Some ct2" "ct_inv ct2 B (to_end l c L)" "flows ct2 B = flows ?ct1 B"
    "ct2 = ?ct1\<lparr>link := link ct2\<rparr>" using lru_update_inv [OF inv1(1) c(1)] by blast
  have conns2: "conns ct2 = conns ?ct1" by (subst ct2(4)) simp
  have w: "without c L l' = filter (\<lambda>d. d \<noteq> c) (L l')" for l'
    using ct_inv_distinct(2) [OF inv] by (simp add: without_def distinct_remove1_removeAll removeAll_filter_not_eq eq_commute)
  have st: "stamp ct2 d = stamp ct d" if "d \<noteq> c" for d using that by (simp add: stamp_def conns2)
  have o': "ordered ct2 (without c L) now"
    by (rule ordered_filter [OF o(1), of "\<lambda>d. d \<noteq> c"]) (simp_all add: st w)
  have "ordered ct2 (to_end l c L) ts"
  proof -
    have "stamp ct2 c = ts" by (simp add: stamp_def conns2)
    moreover have "sorted (map (stamp ct2) (without c L l'))" "\<forall>d\<in>set (without c L l'). stamp ct2 d \<le> ts" for l'
      using o' order_trans [OF _ o(2)] unfolding ordered_def by blast+
    ultimately show ?thesis by (auto simp: ordered_def to_end_def sorted_append)
  qed
  moreover have "upd_conn c (\<lambda>conn. conn\<lparr>conn_timestamp := ts\<rparr>) ct = Some ?ct1" using c(2) by (simp add: upd_conn_def)
  ultimately show ?thesis using ct2 inv1(2) conns2 by (intro exI [of _ ?ct1] exI [of _ ct2]) simp
qed

text \<open>A packet as the parser leaves it, and a pointer that is not in use.\<close>

definition lookup_ready :: "nfe_packet \<Rightarrow> conn_ptr option \<Rightarrow> nfe_conntrack \<Rightarrow> bool" where
  "lookup_ready packet new ct \<longleftrightarrow>
     hash packet = nfe_tuple_hash (tuple packet) \<and> wf_tuple (tuple packet) \<and> (\<forall>c. new = Some c \<longrightarrow> c \<notin> dom (conns ct))"

lemma lookup_ready_mono:
  "lookup_ready packet new ct \<Longrightarrow> dom (conns ct') \<subseteq> dom (conns ct) \<Longrightarrow> lookup_ready packet new ct'"
  by (auto simp: lookup_ready_def)

lemma ordered_conns:
  assumes "ordered ct L now" "\<forall>l. \<forall>c\<in>set (L l). stamp ct' c = stamp ct c"
  shows "ordered ct' L now"
  by (rule ordered_filter [OF assms(1), of "\<lambda>_. True"]) (use assms(2) in simp_all)

lemma lookup_step:
  assumes inv: "ct_inv ct B L" and o: "ordered ct L now" and w: "no_wrap ct" and r: "lookup_ready packet new ct"
  shows "\<exists>r ct' B'. nfe_conntrack_lookup new packet policy ct = Some (r, ct') \<and> ct_inv ct' B' L \<and> ordered ct' L now \<and>
    (case r of
       None \<Rightarrow> ct' = ct \<and> flows ct B (tuple packet) = None \<and> (policy = NFE_ALLOC_POLICY_NONE \<or> new = None)
     | Some c \<Rightarrow> c \<in> members B' \<and> flows ct' B' (tuple packet) = Some c \<and> (\<exists>conn. conns ct' c = Some conn \<and>
         (if flows ct B (tuple packet) = None then policy \<noteq> NFE_ALLOC_POLICY_NONE \<and>
            conn = \<lparr>conn_tuple = nfe_tuple_copy (tuple packet) (policy = NFE_ALLOC_POLICY_INVERT), tcp_cb = tcp_zero, lockref = 1, conn_timestamp = 0\<rparr>
          else flows ct B (tuple packet) = Some c \<and> lockref conn \<noteq> 0 \<and> lockref conn \<noteq> 1)))"
proof (cases "flows ct B (tuple packet)")
  case (Some c)
  then have c: "c \<in> members B" using flows_Some [OF inv] by blast
  then obtain i where i: "c \<in> set (B i)" by (auto simp: members_iff)
  obtain conn where conn: "conns ct c = Some conn" "lockref conn \<noteq> 0" using ct_inv_conn [OF inv i] by metis
  have w': "lockref conn \<noteq> - 1" using w conn(1) by (auto simp: no_wrap_def)
  let ?ct = "ct\<lparr>conns := (conns ct)(c \<mapsto> conn\<lparr>lockref := lockref conn + 1\<rparr>)\<rparr>"
  have "nfe_conntrack_lookup new packet policy ct = Some (Some c, ?ct)" "ct_inv ?ct B L" "flows ?ct B = flows ct B"
    using lookup_found [OF inv _ Some conn(1) w'] r by (auto simp: lookup_ready_def)
  moreover have "ordered ?ct L now" by (rule ordered_conns [OF o]) (use conn in \<open>simp add: stamp_def\<close>)
  moreover have "lockref conn + 1 \<noteq> 0" "lockref conn + 1 \<noteq> 1" using w' conn(2) by (simp_all add: eq_neg_iff_add_eq_0)
  ultimately show ?thesis using c Some by (intro exI [of _ "Some c"] exI [of _ ?ct] exI [of _ B]) simp
next
  case None
  show ?thesis
  proof (cases "policy = NFE_ALLOC_POLICY_NONE \<or> new = None")
    case True
    then show ?thesis using lookup_not_created [OF inv _ None True] r inv o None by (auto simp: lookup_ready_def)
  next
    case False
    then obtain c where c: "new = Some c" by auto
    obtain ct' B' where ct': "nfe_conntrack_lookup (Some c) packet policy ct = Some (Some c, ct')" "ct_inv ct' B' L"
      "members B' = insert c (members B)"
      "flows ct' B' = (\<lambda>u. if nfe_tuple_equal (tuple packet) u then Some c else flows ct B u)"
      "ct' = ct\<lparr>link := link ct', conns := (conns ct)(c \<mapsto> \<lparr>conn_tuple = nfe_tuple_copy (tuple packet) (policy = NFE_ALLOC_POLICY_INVERT),
       tcp_cb = tcp_zero, lockref = 1, conn_timestamp = 0\<rparr>)\<rparr>"
      using lookup_created [OF inv _ _ None, of policy c] False r c by (auto simp: lookup_ready_def)
    have conns: "conns ct' = (conns ct)(c \<mapsto> \<lparr>conn_tuple = nfe_tuple_copy (tuple packet) (policy = NFE_ALLOC_POLICY_INVERT),
       tcp_cb = tcp_zero, lockref = 1, conn_timestamp = 0\<rparr>)" by (subst ct'(5)) simp
    have "c \<notin> dom (conns ct)" using r c by (simp add: lookup_ready_def)
    then have "c \<notin> members L" using ct_invD(2,3) [OF inv] by blast
    then have "ordered ct' L now"
      by (intro ordered_conns [OF o]) (auto simp: stamp_def conns members_iff)
    moreover have "flows ct' B' (tuple packet) = Some c" by (simp add: ct'(4) nfe_tuple_equal_iff)
    ultimately show ?thesis using ct'(1-3) conns c None False by (intro exI [of _ "Some c"] exI [of _ ct'] exI [of _ B']) simp
  qed
qed

text \<open>What all protocols do with a packet: expire, look up, touch.\<close>

lemma enter_step:
  assumes inv: "ct_inv ct B L" and o: "ordered ct L now" "now \<le> ts" and w: "no_wrap ct" and rd: "lookup_ready packet new ct"
  shows "\<exists>ct1 B1 r ct2. nfe_conntrack_lru_expire l ts ct = Some ct1 \<and> flows ct1 B1 = live_flows (conns ct1) (flows ct B) \<and>
    nfe_conntrack_lookup new packet policy ct1 = Some (r, ct2) \<and>
    (case r of
       None \<Rightarrow> ct_ok ct2 ts \<and> (policy = NFE_ALLOC_POLICY_NONE \<or> new = None) \<and> flows ct1 B1 (tuple packet) = None
     | Some c \<Rightarrow> \<exists>B2 L2 conn ct3 ct4. upd_conn c (\<lambda>conn. conn\<lparr>conn_timestamp := ts\<rparr>) ct2 = Some ct3 \<and>
         conns ct3 c = Some (conn\<lparr>conn_timestamp := ts\<rparr>) \<and> nfe_conntrack_lru_update l' c ct3 = Some ct4 \<and>
         ct_inv ct4 B2 L2 \<and> ordered ct4 L2 ts \<and> conns ct4 = conns ct3 \<and> flows ct4 B2 (tuple packet) = Some c \<and> c \<in> members B2 \<and>
         last (L2 l') = c \<and>
         (if flows ct1 B1 (tuple packet) = None then policy \<noteq> NFE_ALLOC_POLICY_NONE \<and>
            conn = \<lparr>conn_tuple = nfe_tuple_copy (tuple packet) (policy = NFE_ALLOC_POLICY_INVERT), tcp_cb = tcp_zero, lockref = 1, conn_timestamp = 0\<rparr>
          else flows ct1 B1 (tuple packet) = Some c \<and> lockref conn \<noteq> 0 \<and> lockref conn \<noteq> 1))"
proof -
  obtain ct1 B1 L1 where e: "nfe_conntrack_lru_expire l ts ct = Some ct1" "ct_inv ct1 B1 L1" "ordered ct1 L1 now" "no_wrap ct1"
    "dom (conns ct1) \<subseteq> dom (conns ct)" "flows ct1 B1 = live_flows (conns ct1) (flows ct B)"
    using expire_step [OF inv o(1) w] by blast
  obtain r ct2 B2 where k: "nfe_conntrack_lookup new packet policy ct1 = Some (r, ct2)" "ct_inv ct2 B2 L1" "ordered ct2 L1 now"
    "case r of
       None \<Rightarrow> ct2 = ct1 \<and> flows ct1 B1 (tuple packet) = None \<and> (policy = NFE_ALLOC_POLICY_NONE \<or> new = None)
     | Some c \<Rightarrow> c \<in> members B2 \<and> flows ct2 B2 (tuple packet) = Some c \<and> (\<exists>conn. conns ct2 c = Some conn \<and>
         (if flows ct1 B1 (tuple packet) = None then policy \<noteq> NFE_ALLOC_POLICY_NONE \<and>
            conn = \<lparr>conn_tuple = nfe_tuple_copy (tuple packet) (policy = NFE_ALLOC_POLICY_INVERT), tcp_cb = tcp_zero, lockref = 1, conn_timestamp = 0\<rparr>
          else flows ct1 B1 (tuple packet) = Some c \<and> lockref conn \<noteq> 0 \<and> lockref conn \<noteq> 1))"
    using lookup_step [OF e(2,3,4) lookup_ready_mono [OF rd e(5)], of policy] by blast
  show ?thesis
  proof (cases r)
    case None
    have "ordered ct2 L1 ts" using k(3) order_trans [OF _ o(2)] unfolding ordered_def by blast
    then have "ct_ok ct2 ts" using k(2) unfolding ct_ok_def by blast
    then show ?thesis using e(1,6) k(1,4) None
      by (intro exI [of _ ct1] exI [of _ B1] exI [of _ r] exI [of _ ct2]) simp
  next
    case (Some c)
    then obtain conn where conn: "c \<in> members B2" "flows ct2 B2 (tuple packet) = Some c" "conns ct2 c = Some conn"
      "if flows ct1 B1 (tuple packet) = None then policy \<noteq> NFE_ALLOC_POLICY_NONE \<and>
            conn = \<lparr>conn_tuple = nfe_tuple_copy (tuple packet) (policy = NFE_ALLOC_POLICY_INVERT), tcp_cb = tcp_zero, lockref = 1, conn_timestamp = 0\<rparr>
          else flows ct1 B1 (tuple packet) = Some c \<and> lockref conn \<noteq> 0 \<and> lockref conn \<noteq> 1"
      using k(4) by auto
    obtain ct3 ct4 where t: "upd_conn c (\<lambda>conn. conn\<lparr>conn_timestamp := ts\<rparr>) ct2 = Some ct3" "nfe_conntrack_lru_update l' c ct3 = Some ct4"
      "ct_inv ct4 B2 (to_end l' c L1)" "ordered ct4 (to_end l' c L1) ts" "flows ct4 B2 = flows ct2 B2"
      "conns ct3 = (conns ct2)(c \<mapsto> conn\<lparr>conn_timestamp := ts\<rparr>)" "conns ct4 = conns ct3"
      using touch_step [OF k(2,3) o(2) conn(1,3)] by blast
    have "last (to_end l' c L1 l') = c" by (simp add: to_end_def)
    moreover have "conns ct3 c = Some (conn\<lparr>conn_timestamp := ts\<rparr>)" by (simp add: t(6))
    moreover have "flows ct4 B2 (tuple packet) = Some c" using t(5) conn(2) by simp
    ultimately have "\<exists>B2 L2 conn ct3 ct4. upd_conn c (\<lambda>conn. conn\<lparr>conn_timestamp := ts\<rparr>) ct2 = Some ct3 \<and>
         conns ct3 c = Some (conn\<lparr>conn_timestamp := ts\<rparr>) \<and> nfe_conntrack_lru_update l' c ct3 = Some ct4 \<and>
         ct_inv ct4 B2 L2 \<and> ordered ct4 L2 ts \<and> conns ct4 = conns ct3 \<and> flows ct4 B2 (tuple packet) = Some c \<and> c \<in> members B2 \<and>
         last (L2 l') = c \<and>
         (if flows ct1 B1 (tuple packet) = None then policy \<noteq> NFE_ALLOC_POLICY_NONE \<and>
            conn = \<lparr>conn_tuple = nfe_tuple_copy (tuple packet) (policy = NFE_ALLOC_POLICY_INVERT), tcp_cb = tcp_zero, lockref = 1, conn_timestamp = 0\<rparr>
          else flows ct1 B1 (tuple packet) = Some c \<and> lockref conn \<noteq> 0 \<and> lockref conn \<noteq> 1)"
      using t(1-4,7) conn(1,4) by blast
    then show ?thesis using e(1,6) k(1) Some by (intro exI [of _ ct1] exI [of _ B1] exI [of _ r] exI [of _ ct2]) simp
  qed
qed

section \<open>Packets without connection state\<close>

text \<open>The lookup of a protocol without state of its own.\<close>

definition simple_lookup :: "lru_proto \<Rightarrow> conn_ptr option \<Rightarrow> nfe_packet \<Rightarrow> nfe_conntrack \<Rightarrow> (conn_ptr option \<times> nfe_packet \<times> nfe_conntrack) option" where
  "simple_lookup l new packet ct =
     (case l of LRU_PROTO_UDP \<Rightarrow> nfe_udp_lookup new packet ct | LRU_PROTO_ICMP \<Rightarrow> nfe_icmp_lookup new packet ct
      | _ \<Rightarrow> nfe_ether_lookup new packet ct)"

lemma simple_lookup_step:
  assumes inv: "ct_inv ct B L" and o: "ordered ct L now" "now \<le> timestamp packet" and w: "no_wrap ct" and rd: "lookup_ready packet new ct"
    and l: "l \<in> {LRU_PROTO_UDP, LRU_PROTO_ICMP, LRU_PROTO_ETHER}"
  shows "\<exists>r packet' ct'. simple_lookup l new packet ct = Some (r, packet', ct') \<and> ct_ok ct' (timestamp packet) \<and>
    (r = None \<longrightarrow> new = None) \<and>
    (\<forall>c. r = Some c \<longrightarrow> (\<exists>B' L' conn. ct_inv ct' B' L' \<and> ordered ct' L' (timestamp packet) \<and> flows ct' B' (tuple packet) = Some c \<and>
       last (L' l) = c \<and> conns ct' c = Some conn \<and> conn_timestamp conn = timestamp packet))"
proof -
  obtain ct1 r ct2 where e: "nfe_conntrack_lru_expire l (timestamp packet) ct = Some ct1"
    "nfe_conntrack_lookup new packet NFE_ALLOC_POLICY_CREATE ct1 = Some (r, ct2)"
    "case r of
       None \<Rightarrow> ct_ok ct2 (timestamp packet) \<and> new = None
     | Some c \<Rightarrow> \<exists>B2 L2 conn ct3 ct4. upd_conn c (\<lambda>conn. conn\<lparr>conn_timestamp := timestamp packet\<rparr>) ct2 = Some ct3 \<and>
         conns ct3 c = Some (conn\<lparr>conn_timestamp := timestamp packet\<rparr>) \<and> nfe_conntrack_lru_update l c ct3 = Some ct4 \<and>
         ct_inv ct4 B2 L2 \<and> ordered ct4 L2 (timestamp packet) \<and> conns ct4 = conns ct3 \<and> flows ct4 B2 (tuple packet) = Some c \<and>
         last (L2 l) = c"
    using enter_step [OF inv o w rd, of l NFE_ALLOC_POLICY_CREATE l] by (fastforce split: option.splits)
  show ?thesis
  proof (cases r)
    case None
    then show ?thesis using e l by (auto simp: simple_lookup_def nfe_udp_lookup_def nfe_icmp_lookup_def nfe_ether_lookup_def Let_def)
  next
    case (Some c)
    then obtain B2 L2 conn ct3 ct4 where t: "upd_conn c (\<lambda>conn. conn\<lparr>conn_timestamp := timestamp packet\<rparr>) ct2 = Some ct3"
         "conns ct3 c = Some (conn\<lparr>conn_timestamp := timestamp packet\<rparr>)" "nfe_conntrack_lru_update l c ct3 = Some ct4"
         "ct_inv ct4 B2 L2" "ordered ct4 L2 (timestamp packet)" "conns ct4 = conns ct3" "flows ct4 B2 (tuple packet) = Some c"
         "last (L2 l) = c" using e(3) by auto
    have "\<exists>packet'. simple_lookup l new packet ct = Some (Some c, packet', ct4)"
      using e(1,2) Some t(1-3) l by (auto simp: simple_lookup_def nfe_udp_lookup_def nfe_icmp_lookup_def nfe_ether_lookup_def Let_def)
    then show ?thesis using t unfolding ct_ok_def by fastforce
  qed
qed

section \<open>TCP packets\<close>

lemma without_filter: "distinct (L l) \<Longrightarrow> without c L l = filter (\<lambda>d. d \<noteq> c) (L l)"
  by (simp add: without_def distinct_remove1_removeAll removeAll_filter_not_eq eq_commute)

lemma release_step_ok:
  assumes inv: "ct_inv ct B L" and o: "ordered ct L now" and r: "nfe_conn_release (Some c) ct = Some ct'"
  shows "\<exists>B' L'. ct_inv ct' B' L' \<and> ordered ct' L' now \<and>
    (\<forall>conn. conns ct c = Some conn \<longrightarrow> lockref conn \<noteq> 1 \<longrightarrow> conns ct' c = Some (conn\<lparr>lockref := lockref conn - 1\<rparr>)) \<and>
    (\<forall>conn. conns ct c = Some conn \<longrightarrow> lockref conn = 1 \<longrightarrow> conns ct' c = None) \<and> dom (conns ct') \<subseteq> dom (conns ct)"
proof -
  obtain conn where conn: "conns ct c = Some conn" "lockref conn \<noteq> 0"
    using r by (auto simp: nfe_conn_release_def split: bind_splits if_splits)
  show ?thesis
  proof (cases "lockref conn = 1")
    case True
    have f: "ct_inv ct' (without c B) (without c L)" "ct' = ct\<lparr>link := link ct', conns := (conns ct)(c := None)\<rparr>"
      using release_free [OF inv conn(1) True] r by auto
    have conns: "conns ct' = (conns ct)(c := None)" by (subst f(2)) simp
    have "ordered ct' (without c L) now"
      by (rule ordered_filter [OF o, of "\<lambda>d. d \<noteq> c"]) (use ct_inv_distinct(2) [OF inv] in \<open>simp_all add: stamp_def conns without_filter\<close>)
    then show ?thesis using f(1) conns conn True by auto
  next
    case False
    have f: "ct_inv ct' B L" "ct' = ct\<lparr>conns := (conns ct)(c \<mapsto> conn\<lparr>lockref := lockref conn - 1\<rparr>)\<rparr>"
      using release_keep [OF inv conn False] r by auto
    have "ordered ct' L now" by (rule ordered_conns [OF o]) (use conn in \<open>simp add: stamp_def f(2)\<close>)
    then show ?thesis using f conn False by auto
  qed
qed

lemma upd_tcp_ok:
  assumes inv: "ct_inv ct B L" and o: "ordered ct L now" and c: "conns ct c = Some conn" "lockref conn \<noteq> 0"
  shows "\<exists>ct'. upd_conn c (\<lambda>conn. conn\<lparr>tcp_cb := tcp\<rparr>) ct = Some ct' \<and> ct_inv ct' B L \<and> ordered ct' L now \<and>
    conns ct' = (conns ct)(c \<mapsto> conn\<lparr>tcp_cb := tcp\<rparr>)"
proof -
  let ?ct = "ct\<lparr>conns := (conns ct)(c \<mapsto> conn\<lparr>tcp_cb := tcp\<rparr>)\<rparr>"
  have "ct_inv ?ct B L" using ct_inv_upd(1) [OF inv c(1), of "conn\<lparr>tcp_cb := tcp\<rparr>"] c(2) by simp
  moreover have "ordered ?ct L now" by (rule ordered_conns [OF o]) (use c in \<open>simp add: stamp_def\<close>)
  ultimately show ?thesis using c(1) by (simp add: upd_conn_def)
qed

text \<open>A first segment with SYN does not close its connection.\<close>

lemma syn_state:
  assumes "th_flags th AND TH_SYN \<noteq> 0" "track th ts dir n t = Some (m, t')" "state t = TCP_CONNECTING"
  shows "state t' = TCP_CONNECTING"
proof -
  have c: "unat (drop_bit 1 (th_flags th AND 7)) = unat (th_flags th AND 6) div 2"
    "unat (th_flags th AND 6) \<in> {0, 2, 4, 6}" using fsm_column by blast+
  have s: "th_flags th AND TH_SYN = (th_flags th AND 6) AND 2" "th_flags th AND TH_SYN = (th_flags th AND 7) AND 2"
    by (simp_all add: TH_SYN_def and.assoc)
  have u: "th_flags th AND 6 = word_of_nat (unat (th_flags th AND 6))" by simp
  consider "th_flags th AND 6 = 0" | "th_flags th AND 6 = 2" | "th_flags th AND 6 = 4" | "th_flags th AND 6 = 6"
    using c(2) u by fastforce
  then have "th_flags th AND 6 = 2 \<or> th_flags th AND 6 = 6" using assms(1) unfolding s(1) by cases simp_all
  then have "th_flags th AND 6 = 2" using assms(2) track_None [of th ts dir n t] by auto
  moreover have "th_flags th AND 7 \<noteq> 0" using assms(1) s(2) by auto
  ultimately show ?thesis
    using assms(2,3) unfolding track_def Let_def c(1)
    by (auto simp: nfe_tcpfsm_def Let_def tcp_rcv_syn_def split: option.splits if_splits)
qed

lemma syn_not_released:
  assumes "th_flags th AND TH_SYN \<noteq> 0" "tcp_input th ts dir n tcp_zero = Some (off, tcp, released)"
  shows "\<not> released"
proof -
  obtain m t where t: "track th ts dir n (count_packet th dir tcp_zero) = Some (m, t)"
    using assms(2) by (auto simp: tcp_input_def split: option.splits)
  have "state t = TCP_CONNECTING"
    by (rule syn_state [OF assms(1) t]) (simp add: count_packet_forward(1) tcp_zero_def)
  then show ?thesis
    using assms by (auto simp: tcp_input_def t Let_def transition_def split: if_splits)
qed

text \<open>The packet of a lookup when the connection is found or made.\<close>

definition tcp_rest :: "tcphdr \<Rightarrow> u64 \<Rightarrow> bool \<Rightarrow> u64 \<Rightarrow> conn_ptr \<Rightarrow> nfe_tcp \<Rightarrow> nfe_packet \<Rightarrow> nfe_conntrack \<Rightarrow>
    (int \<times> conn_ptr option \<times> nfe_packet \<times> nfe_conntrack) option" where
  "tcp_rest th ts dir n c tcp packet ct = do {
     (off, tcp', released) \<leftarrow> tcp_input th ts dir n tcp;
     ct \<leftarrow> upd_conn c (\<lambda>conn. conn\<lparr>tcp_cb := tcp'\<rparr>) ct;
     ct \<leftarrow> nfe_conn_release (if released then Some c else None) ct;
     if conns ct c = None \<and> \<not> closed_at_transition th ts dir n tcp then None
     else Some (off, Some c, packet, ct) }"

lemma tcp_enter:
  assumes inv: "ct_inv ct B L" and o: "ordered ct L now" "now \<le> timestamp packet" and w: "no_wrap ct" and rd: "lookup_ready packet new ct"
    and th: "prot packet = Some p" "tcphdr_at buf p = Some th"
  shows "(\<exists>packet' ct'. nfe_tcpfsm_input cfg buf new packet ct = Some (- 1, None, packet', ct') \<and> ct_ok ct' (timestamp packet) \<and>
      (tcp_policy cfg th = NFE_ALLOC_POLICY_NONE \<or> new = None)) \<or>
    (\<exists>c conn ct4 B4 L4 dir packet'. ct_inv ct4 B4 L4 \<and> ordered ct4 L4 (timestamp packet) \<and> conns ct4 c = Some conn \<and> lockref conn \<noteq> 0 \<and>
      (lockref conn = 1 \<longrightarrow> tcp_cb conn = tcp_zero \<and> tcp_policy cfg th \<noteq> NFE_ALLOC_POLICY_NONE) \<and>
      (flows ct B (tuple packet) = None \<longrightarrow> lockref conn = 1) \<and>
      nfe_tcpfsm_input cfg buf new packet ct =
        tcp_rest th (timestamp packet) dir (word_of_int (tail packet - data packet)) c (tcp_cb conn) packet' ct4)"
proof -
  let ?l = "if th_flags th AND TH_SYN \<noteq> 0 then LRU_PROTO_TCP_SYN else LRU_PROTO_TCP_EST"
  let ?l' = "if th_flags th AND TH_SYN \<noteq> 0 \<and> th_flags th AND TH_ACK = 0 then LRU_PROTO_TCP_SYN else LRU_PROTO_TCP_EST"
  let ?policy = "tcp_policy cfg th"
  let ?packet = "packet\<lparr>direction := of_bool (?policy = NFE_ALLOC_POLICY_INVERT)\<rparr>"
  have rd': "lookup_ready ?packet new ct" using rd by (simp add: lookup_ready_def)
  obtain ct1 B1 r ct2 where e: "nfe_conntrack_lru_expire ?l (timestamp packet) ct = Some ct1" "flows ct1 B1 = live_flows (conns ct1) (flows ct B)"
    "nfe_conntrack_lookup new ?packet ?policy ct1 = Some (r, ct2)"
    "case r of
       None \<Rightarrow> ct_ok ct2 (timestamp packet) \<and> (?policy = NFE_ALLOC_POLICY_NONE \<or> new = None) \<and> flows ct1 B1 (tuple ?packet) = None
     | Some c \<Rightarrow> \<exists>B2 L2 conn ct3 ct4. upd_conn c (\<lambda>conn. conn\<lparr>conn_timestamp := timestamp packet\<rparr>) ct2 = Some ct3 \<and>
         conns ct3 c = Some (conn\<lparr>conn_timestamp := timestamp packet\<rparr>) \<and> nfe_conntrack_lru_update ?l' c ct3 = Some ct4 \<and>
         ct_inv ct4 B2 L2 \<and> ordered ct4 L2 (timestamp packet) \<and> conns ct4 = conns ct3 \<and> flows ct4 B2 (tuple ?packet) = Some c \<and> c \<in> members B2 \<and>
         last (L2 ?l') = c \<and>
         (if flows ct1 B1 (tuple ?packet) = None then ?policy \<noteq> NFE_ALLOC_POLICY_NONE \<and>
            conn = \<lparr>conn_tuple = nfe_tuple_copy (tuple ?packet) (?policy = NFE_ALLOC_POLICY_INVERT), tcp_cb = tcp_zero, lockref = 1, conn_timestamp = 0\<rparr>
          else flows ct1 B1 (tuple ?packet) = Some c \<and> lockref conn \<noteq> 0 \<and> lockref conn \<noteq> 1)"
    using enter_step [OF inv o w rd', of ?l ?policy ?l'] by blast
  have tp: "tuple ?packet = tuple packet" by simp
  show ?thesis
  proof (cases r)
    case None
    then show ?thesis using e th by (intro disjI1) (simp add: nfe_tcpfsm_input_def Let_def)
  next
    case (Some c)
    obtain B2 L2 conn ct3 ct4 where t: "upd_conn c (\<lambda>conn. conn\<lparr>conn_timestamp := timestamp packet\<rparr>) ct2 = Some ct3"
         "conns ct3 c = Some (conn\<lparr>conn_timestamp := timestamp packet\<rparr>)" "nfe_conntrack_lru_update ?l' c ct3 = Some ct4"
         "ct_inv ct4 B2 L2" "ordered ct4 L2 (timestamp packet)" "conns ct4 = conns ct3"
         "if flows ct1 B1 (tuple packet) = None then ?policy \<noteq> NFE_ALLOC_POLICY_NONE \<and>
            conn = \<lparr>conn_tuple = nfe_tuple_copy (tuple packet) (?policy = NFE_ALLOC_POLICY_INVERT), tcp_cb = tcp_zero, lockref = 1, conn_timestamp = 0\<rparr>
          else flows ct1 B1 (tuple packet) = Some c \<and> lockref conn \<noteq> 0 \<and> lockref conn \<noteq> 1"
      using e(4) [unfolded Some option.case tp] by blast
    let ?conn = "conn\<lparr>conn_timestamp := timestamp packet\<rparr>"
    let ?dir = "conn_direction (conn_tuple conn) (tuple packet) (domain (conn_tuple conn))"
    have "flows ct B (tuple packet) = None \<longrightarrow> flows ct1 B1 (tuple packet) = None" by (simp add: e(2) live_flows_def)
    then have "lockref ?conn \<noteq> 0 \<and> (lockref ?conn = 1 \<longrightarrow> tcp_cb ?conn = tcp_zero \<and> ?policy \<noteq> NFE_ALLOC_POLICY_NONE) \<and>
      (flows ct B (tuple packet) = None \<longrightarrow> lockref ?conn = 1)" using t(7) by (auto split: if_splits)
    moreover have "nfe_tcpfsm_input cfg buf new packet ct =
        tcp_rest th (timestamp packet) ?dir (word_of_int (tail packet - data packet)) c (tcp_cb ?conn) (packet\<lparr>direction := of_bool ?dir\<rparr>) ct4"
      using e(1,3) Some th t(1-3) by (simp add: nfe_tcpfsm_input_def tcp_rest_def Let_def)
    moreover have "conns ct4 c = Some ?conn" by (simp add: t(2,6))
    ultimately have "ct_inv ct4 B2 L2 \<and> ordered ct4 L2 (timestamp packet) \<and> conns ct4 c = Some ?conn \<and> lockref ?conn \<noteq> 0 \<and>
      (lockref ?conn = 1 \<longrightarrow> tcp_cb ?conn = tcp_zero \<and> ?policy \<noteq> NFE_ALLOC_POLICY_NONE) \<and>
      (flows ct B (tuple packet) = None \<longrightarrow> lockref ?conn = 1) \<and>
      nfe_tcpfsm_input cfg buf new packet ct =
        tcp_rest th (timestamp packet) ?dir (word_of_int (tail packet - data packet)) c (tcp_cb ?conn) (packet\<lparr>direction := of_bool ?dir\<rparr>) ct4"
      using t(4,5) by blast
    then show ?thesis by (intro disjI2 exI)
  qed
qed

text \<open>The part after the lookup, when the connection survives.\<close>

lemma tcp_finish:
  assumes inv: "ct_inv ct4 B4 L4" and o: "ordered ct4 L4 now" and c: "conns ct4 c = Some conn" "lockref conn \<noteq> 0"
    and i: "tcp_input th ts dir n (tcp_cb conn) = Some (off, tcp, released)" and k: "released \<longrightarrow> lockref conn \<noteq> 1"
  shows "\<exists>ct5 ct6. upd_conn c (\<lambda>conn. conn\<lparr>tcp_cb := tcp\<rparr>) ct4 = Some ct5 \<and>
    nfe_conn_release (if released then Some c else None) ct5 = Some ct6 \<and>
    (\<exists>B' L'. ct_inv ct6 B' L' \<and> ordered ct6 L' now) \<and> (\<exists>conn'. conns ct6 c = Some conn' \<and> lockref conn' \<noteq> 0)"
proof -
  obtain ct5 where ct5: "upd_conn c (\<lambda>conn. conn\<lparr>tcp_cb := tcp\<rparr>) ct4 = Some ct5" "ct_inv ct5 B4 L4" "ordered ct5 L4 now"
    "conns ct5 = (conns ct4)(c \<mapsto> conn\<lparr>tcp_cb := tcp\<rparr>)" using upd_tcp_ok [OF inv o c] by blast
  show ?thesis
  proof (cases released)
    case False
    then show ?thesis using ct5 c(2) by (auto simp: nfe_conn_release_def)
  next
    case True
    then have l: "lockref conn \<noteq> 1" using k by blast
    have c5: "conns ct5 c = Some (conn\<lparr>tcp_cb := tcp\<rparr>)" by (simp add: ct5(4))
    obtain ct6 where ct6: "nfe_conn_release (Some c) ct5 = Some ct6"
      using release_keep [OF ct5(2) c5] c(2) l by auto
    obtain B' L' where "ct_inv ct6 B' L'" "ordered ct6 L' now" "conns ct6 c = Some (conn\<lparr>tcp_cb := tcp, lockref := lockref conn - 1\<rparr>)"
      using release_step_ok [OF ct5(2,3) ct6] c5 l by auto
    then show ?thesis using ct5(1) ct6 True l by auto
  qed
qed

lemma clear_flags_ok:
  assumes "ct_inv ct B L" "ordered ct L now" "conns ct c = Some conn" "lockref conn \<noteq> 0"
  shows "\<exists>packet' ct'. (let tcp = tcp_cb conn in
       if tcp_flags tcp AND (F_TCP_OUTOFORDER OR F_TCP_RETRANSMIT) \<noteq> 0 then do {
         let tcp = tcp\<lparr>tcp_flags := tcp_flags tcp AND NOT (F_TCP_OUTOFORDER OR F_TCP_RETRANSMIT)\<rparr>;
         ct \<leftarrow> upd_conn c (\<lambda>conn. conn\<lparr>tcp_cb := tcp\<rparr>) ct;
         Some (Some c, packet\<lparr>data := tail packet\<rparr>, ct) }
       else Some (Some c, packet, ct)) = Some (Some c, packet', ct') \<and> ct_ok ct' now \<and> c \<in> dom (conns ct')"
  using upd_tcp_ok [OF assms, of "(tcp_cb conn)\<lparr>tcp_flags := tcp_flags (tcp_cb conn) AND NOT (F_TCP_OUTOFORDER OR F_TCP_RETRANSMIT)\<rparr>"] assms
  unfolding ct_ok_def by (fastforce simp: Let_def)

lemma tcp_input_None:
  "tcp_input th ts dir n tcp = None \<longleftrightarrow>
     th_flags th AND 6 = 6 \<or>
     (th_flags th AND 6 = 2 \<and> (state tcp = TCP_CONNECTING \<or> state tcp = TCP_ESTABLISHED) \<and> tcp_mss th = None)"
proof -
  have "tcp_input th ts dir n tcp = None \<longleftrightarrow> track th ts dir n (count_packet th dir tcp) = None"
    by (auto simp: tcp_input_def Let_def split: option.splits prod.splits if_splits)
  then show ?thesis by (simp add: track_None count_packet_forward(1))
qed

lemma rst_closes:
  assumes "tcp_input th ts dir n tcp_zero = Some (off, tcp, released)" "th_flags th AND 7 = 4"
  shows "closed_at_transition th ts dir n tcp_zero \<and> off = 0 \<and> released"
proof -
  let ?t = "count_packet th dir tcp_zero"
  have s: "state ?t = TCP_CONNECTING" "tcp_flags ?t = 0"
    by (simp_all add: count_packet_def upd_half_def tcp_zero_def)
  have "\<exists>t. track th ts dir n ?t = Some (n, t) \<and> state t = TCP_CLOSED \<and> tcp_flags t = 0"
    by (simp add: track_def assms(2) s nfe_tcpfsm_def tcp_rcv_rst_def)
  then obtain t where t: "track th ts dir n ?t = Some (n, t)" "state t = TCP_CLOSED" "tcp_flags t = 0" by blast
  show ?thesis using assms(1) by (simp add: tcp_input_def closed_at_transition_def t transition_def)
qed

text \<open>Without midflow tracking, a packet whose handling does not fault leaves a connection that is alive.\<close>

lemma tcp_lookup_ok:
  assumes "ct_inv ct B L" "ordered ct L now" "now \<le> timestamp packet" "no_wrap ct" "lookup_ready packet new ct"
    and "prot packet = Some p" "tcphdr_at buf p = Some th" and m: "\<not> nfe_conntrack_tcp_midflow cfg"
    and safe: "nfe_tcp_lookup cfg buf new packet ct \<noteq> None \<or> tcp_mss th \<noteq> None \<and> th_flags th AND 6 \<noteq> 6"
  shows "\<exists>r packet' ct'. nfe_tcp_lookup cfg buf new packet ct = Some (r, packet', ct') \<and> ct_ok ct' (timestamp packet) \<and>
    (\<forall>c. r = Some c \<longrightarrow> c \<in> dom (conns ct'))"
proof -
  let ?n = "word_of_int (tail packet - data packet)" and ?ts = "timestamp packet"
  from tcp_enter [OF assms(1-7), of cfg] show ?thesis
  proof (rule disjE, goal_cases)
    case 1
    then obtain packet' ct' where "nfe_tcpfsm_input cfg buf new packet ct = Some (- 1, None, packet', ct')" "ct_ok ct' ?ts"
      by (elim exE conjE)
    then show ?thesis by (simp add: nfe_tcp_lookup_def Let_def)
  next
    case 2
    then obtain c conn ct4 B4 L4 dir packet' where conn: "ct_inv ct4 B4 L4" "ordered ct4 L4 ?ts" "conns ct4 c = Some conn" "lockref conn \<noteq> 0"
      "lockref conn = 1 \<longrightarrow> tcp_cb conn = tcp_zero \<and> tcp_policy cfg th \<noteq> NFE_ALLOC_POLICY_NONE"
      "nfe_tcpfsm_input cfg buf new packet ct = tcp_rest th ?ts dir ?n c (tcp_cb conn) packet' ct4" by (elim exE conjE)
    have "tcp_input th ?ts dir ?n (tcp_cb conn) = None \<Longrightarrow> nfe_tcp_lookup cfg buf new packet ct = None"
      by (simp add: nfe_tcp_lookup_def conn(6) tcp_rest_def)
    then have "tcp_input th ?ts dir ?n (tcp_cb conn) \<noteq> None" using safe tcp_input_None [of th ?ts dir ?n "tcp_cb conn"] by auto
    then obtain off tcp released where i: "tcp_input th ?ts dir ?n (tcp_cb conn) = Some (off, tcp, released)" by auto
    have k: "released \<longrightarrow> lockref conn \<noteq> 1"
    proof (intro impI notI)
      assume r: released "lockref conn = 1"
      then have "th_flags th AND TH_SYN \<noteq> 0" using conn(5) m by (auto simp: tcp_policy_def split: if_splits)
      then show False using syn_not_released i r conn(5) by metis
    qed
    obtain ct5 ct6 B' L' conn' where f: "upd_conn c (\<lambda>conn. conn\<lparr>tcp_cb := tcp\<rparr>) ct4 = Some ct5"
      "nfe_conn_release (if released then Some c else None) ct5 = Some ct6" "ct_inv ct6 B' L'" "ordered ct6 L' ?ts"
      "conns ct6 c = Some conn'" "lockref conn' \<noteq> 0" using tcp_finish [OF conn(1-4) i k] by blast
    have "nfe_tcpfsm_input cfg buf new packet ct = Some (off, Some c, packet', ct6)"
      using conn(6) i f by (simp add: tcp_rest_def)
    then show ?thesis
      using clear_flags_ok [OF f(3-6), of "packet'\<lparr>next_op := NEXT_NONE, prot := None\<rparr>"] f(3-5)
      unfolding nfe_tcp_lookup_def ct_ok_def by (fastforce simp: Let_def)
  qed
qed

lemma tcp_lookup_rst:
  assumes "ct_inv ct B L" "ordered ct L now" "now \<le> timestamp packet" "no_wrap ct" "lookup_ready packet new ct"
    and "prot packet = Some p" "tcphdr_at buf p = Some th" and safe: "tcp_mss th \<noteq> None" "th_flags th AND 6 \<noteq> 6"
    and m: "nfe_conntrack_tcp_midflow cfg" "th_flags th AND 7 = 4" "flows ct B (tuple packet) = None" "new \<noteq> None"
  shows "nfe_tcp_lookup cfg buf new packet ct = None"
proof -
  let ?n = "word_of_int (tail packet - data packet)" and ?ts = "timestamp packet"
  from tcp_enter [OF assms(1-7), of cfg] show ?thesis
  proof (rule disjE, goal_cases)
    case 1
    then show ?thesis using m(1,4) by (auto simp: tcp_policy_def split: if_splits)
  next
    case 2
    then obtain c conn ct4 B4 L4 dir packet' where conn: "ct_inv ct4 B4 L4" "ordered ct4 L4 ?ts" "conns ct4 c = Some conn" "lockref conn \<noteq> 0"
      "lockref conn = 1 \<longrightarrow> tcp_cb conn = tcp_zero \<and> tcp_policy cfg th \<noteq> NFE_ALLOC_POLICY_NONE"
      "flows ct B (tuple packet) = None \<longrightarrow> lockref conn = 1"
      "nfe_tcpfsm_input cfg buf new packet ct = tcp_rest th ?ts dir ?n c (tcp_cb conn) packet' ct4" by (elim exE conjE)
    have z: "lockref conn = 1" "tcp_cb conn = tcp_zero" using conn(5,6) m(3) by simp_all
    have "tcp_input th ?ts dir ?n (tcp_cb conn) \<noteq> None" using safe tcp_input_None [of th ?ts dir ?n "tcp_cb conn"] by simp
    then obtain off tcp released where i: "tcp_input th ?ts dir ?n (tcp_cb conn) = Some (off, tcp, released)" by auto
    have r: "closed_at_transition th ?ts dir ?n tcp_zero" "off = 0" released
      using rst_closes [OF i [unfolded z(2)] m(2)] by blast+
    obtain ct5 where ct5: "upd_conn c (\<lambda>conn. conn\<lparr>tcp_cb := tcp\<rparr>) ct4 = Some ct5" "ct_inv ct5 B4 L4"
      "conns ct5 = (conns ct4)(c \<mapsto> conn\<lparr>tcp_cb := tcp\<rparr>)" using upd_tcp_ok [OF conn(1-4)] by blast
    have c5: "conns ct5 c = Some (conn\<lparr>tcp_cb := tcp\<rparr>)" "lockref (conn\<lparr>tcp_cb := tcp\<rparr>) = 1" by (simp_all add: ct5(3) z(1))
    obtain ct6 where ct6: "nfe_conn_release (Some c) ct5 = Some ct6" "ct6 = ct5\<lparr>link := link ct6, conns := (conns ct5)(c := None)\<rparr>"
      using release_free [OF ct5(2) c5] by blast
    have "conns ct6 c = None" by (subst ct6(2)) simp
    with ct6(1) show ?thesis using conn(7) i ct5(1) r z by (simp add: nfe_tcp_lookup_def tcp_rest_def Let_def)
  qed
qed


text \<open>A header of 20 bytes with the given flags.\<close>

definition plain_segment :: "u8 \<Rightarrow> u8 list" where
  "plain_segment flags = replicate 12 0 @ [0x50, flags] @ replicate 6 0"

lemma plain_segment_header:
  "tcphdr_at (plain_segment flags) 0 = Some \<lparr>seq = 0, ack_seq = 0, offres = 0x50, th_flags = flags, window = 0, options = []\<rparr>"
  by (simp add: tcphdr_at_def plain_segment_def Let_def be32_def be16_def of_le32_def numeral_eq_Suc)

lemma small_table_ordered: "ordered small_table (\<lambda>_. []) now"
  by (simp add: ordered_def)


end
