(* ===== verification/Nfe_Engine.thy ===== *)
theory Nfe_Engine
  imports Nfe_Conntrack_Api
begin

text \<open>
  The engine as a whole: references of connections (\<open>nfe_conn_lookup\<close> and \<open>nfe_conn_release\<close>), the lookup by
  tuple, and the tables that are reached from \<open>nfe_conntrack_create\<close> by parsed packets, releases and
  updates of the timeouts.
\<close>

section \<open>References\<close>

lemma flows_equal:
  assumes inv: "ct_inv ct B L" and e: "nfe_tuple_equal t u"
  shows "flows ct B t = flows ct B u"
proof -
  have "nfe_tuple_equal v t \<longleftrightarrow> nfe_tuple_equal v u" for v by (meson e equal_sym equal_trans)
  then have "matching ct t = matching ct u" by (simp add: matching_def fun_eq_iff split: option.splits)
  then show ?thesis by (simp add: flows_def)
qed

lemma flows_conn:
  assumes inv: "ct_inv ct B L" and f: "flows ct B t = Some c"
  obtains conn where "conns ct c = Some conn" "lockref conn \<noteq> 0" "c \<in> members B"
proof -
  have c: "c \<in> members B" using f flows_Some [OF inv] by blast
  then obtain i where "c \<in> set (B i)" by (auto simp: members_iff)
  from ct_inv_conn [OF inv this] show thesis using that c by blast
qed

text \<open>A connection that no list holds.\<close>

lemma alloc_step:
  assumes inv: "ct_inv ct B L" and o: "ordered ct L now" and c: "c \<notin> dom (conns ct)"
  shows "\<exists>ct'. nfe_conn_alloc (Some c) packet invert ct = Some (Some c, ct') \<and> ct_inv ct' B L \<and> ordered ct' L now \<and>
    conns ct' = (conns ct)(c \<mapsto> \<lparr>conn_tuple = nfe_tuple_copy (tuple packet) invert, tcp_cb = tcp_zero, lockref = 0, conn_timestamp = 0\<rparr>)"
proof -
  let ?conn = "\<lparr>conn_tuple = nfe_tuple_copy (tuple packet) invert, tcp_cb = tcp_zero, lockref = 0, conn_timestamp = 0\<rparr>"
  obtain ct' where ct': "nfe_conn_alloc (Some c) packet invert ct = Some (Some c, ct')" "ct_rep ct' B L" "ct_size ct' = ct_size ct"
    "conns ct' = (conns ct)(c \<mapsto> ?conn)" using nfe_conn_alloc_rep [OF ct_invD(1) [OF inv] c] by blast
  have n: "c \<notin> members B" "c \<notin> members L" using c ct_invD(2,3) [OF inv] by auto
  have same: "conns ct' d = conns ct d" if "d \<in> members B" for d using that n(1) ct'(4) by auto
  have m: "matching ct' t d = matching ct t d" if "d \<in> members B" for t d using same [OF that] by (simp add: matching_def)
  have b: "bucket_of ct' = bucket_of ct" by (simp add: bucket_of_def ct'(3) fun_eq_iff)
  have "wf_tuple (conn_tuple conn) \<and> i = bucket_of ct' (conn_tuple conn) \<and> lockref conn \<noteq> 0"
    if d: "d \<in> set (B i)" "conns ct' d = Some conn" for i d conn
  proof -
    have "d \<in> members B" using d(1) by (auto simp: members_iff)
    then have "conns ct d = Some conn" using d(2) same by simp
    then show ?thesis using d(1) inv unfolding b ct_inv_def by blast
  qed
  moreover have "d = e" if d: "d \<in> members B" "e \<in> members B" "conns ct' d = Some conn" "matching ct' (conn_tuple conn) e" for d e conn
    using d inv unfolding ct_inv_def by (metis same m)
  ultimately have "ct_inv ct' B L" using ct'(2) ct_invD(2) [OF inv] unfolding ct_inv_def by blast
  moreover have "ordered ct' L now"
    by (rule ordered_conns [OF o]) (use n ct'(4) in \<open>auto simp: stamp_def members_iff\<close>)
  ultimately show ?thesis using ct'(1,4) by blast
qed

lemma release_new:
  assumes inv: "ct_inv ct B L" and p: "hash packet = nfe_tuple_hash (tuple packet)" "wf_tuple (tuple packet)" "c \<notin> dom (conns ct)"
    and f: "flows ct B (tuple packet) = None"
  shows "\<exists>ct1 ct2 B'. nfe_conntrack_lookup (Some c) packet NFE_ALLOC_POLICY_CREATE ct = Some (Some c, ct1) \<and>
    nfe_conn_release (Some c) ct1 = Some ct2 \<and> conns ct2 = conns ct \<and> ct_inv ct2 B' (without c L) \<and> flows ct2 B' = flows ct B"
proof -
  obtain ct1 B1 where ct1: "nfe_conntrack_lookup (Some c) packet NFE_ALLOC_POLICY_CREATE ct = Some (Some c, ct1)" "ct_inv ct1 B1 L"
    "flows ct1 B1 = (\<lambda>u. if nfe_tuple_equal (tuple packet) u then Some c else flows ct B u)"
    "ct1 = ct\<lparr>link := link ct1, conns := (conns ct)(c \<mapsto> \<lparr>conn_tuple = nfe_tuple_copy (tuple packet) False,
       tcp_cb = tcp_zero, lockref = 1, conn_timestamp = 0\<rparr>)\<rparr>"
    using lookup_created [OF inv p(1,2) f _ p(3), of NFE_ALLOC_POLICY_CREATE] by auto
  have c1: "conns ct1 = (conns ct)(c \<mapsto> \<lparr>conn_tuple = nfe_tuple_copy (tuple packet) False,
       tcp_cb = tcp_zero, lockref = 1, conn_timestamp = 0\<rparr>)" by (subst ct1(4)) simp
  obtain ct2 where ct2: "nfe_conn_release (Some c) ct1 = Some ct2" "ct_inv ct2 (without c B1) (without c L)"
    "flows ct2 (without c B1) = (\<lambda>t. if flows ct1 B1 t = Some c then None else flows ct1 B1 t)"
    "ct2 = ct1\<lparr>link := link ct2, conns := (conns ct1)(c := None)\<rparr>"
    using release_free [OF ct1(2), of c] c1 by auto
  have "conns ct2 = (conns ct1)(c := None)" by (subst ct2(4)) simp
  then have "conns ct2 = conns ct" using p(3) c1 by (auto simp: fun_eq_iff)
  moreover have "flows ct2 (without c B1) t = flows ct B t" for t
  proof -
    have "flows ct B t \<noteq> Some c" using flows_Some [OF inv] ct_invD(3) [OF inv] p(3) by blast
    moreover have "flows ct B t = None" if "nfe_tuple_equal (tuple packet) t"
      using f flows_equal [OF inv that] by simp
    ultimately show ?thesis by (auto simp: ct2(3) ct1(3))
  qed
  ultimately show ?thesis using ct1(1) ct2(1,2) by blast
qed

lemma release_known:
  assumes inv: "ct_inv ct B L" and p: "hash packet = nfe_tuple_hash (tuple packet)" and w: "no_wrap ct"
    and f: "flows ct B (tuple packet) = Some d"
  shows "\<exists>ct1. nfe_conntrack_lookup new packet policy ct = Some (Some d, ct1) \<and> nfe_conn_release (Some d) ct1 = Some ct"
proof -
  obtain conn where conn: "conns ct d = Some conn" "lockref conn \<noteq> 0" by (rule flows_conn [OF inv f])
  have l: "lockref conn \<noteq> - 1" using w conn(1) by (auto simp: no_wrap_def)
  let ?ct = "ct\<lparr>conns := (conns ct)(d \<mapsto> conn\<lparr>lockref := lockref conn + 1\<rparr>)\<rparr>"
  have "nfe_conntrack_lookup new packet policy ct = Some (Some d, ?ct)"
    using lookup_found [OF inv p f conn(1) l, of new policy] by auto
  moreover have "lockref conn + 1 \<noteq> 0" "lockref conn + 1 \<noteq> 1" using l conn(2) by (simp_all add: eq_neg_iff_add_eq_0)
  then have "nfe_conn_release (Some d) ?ct = Some ct"
    using conn(1) by (simp add: nfe_conn_release_def upd_conn_def fun_upd_idem)
  ultimately show ?thesis by blast
qed



section \<open>Lookup by tuple\<close>

definition tuple_lru :: "nfe_tuple \<Rightarrow> lru_proto" where
  "tuple_lru t = (if proto t = 1 then LRU_PROTO_ICMP else if proto t = 6 then LRU_PROTO_TCP_EST
     else if proto t = 17 then LRU_PROTO_UDP else LRU_PROTO_ETHER)"

lemma expire_conns_from:
  assumes "distinct cs" "expire_conns e ts cs m c = Some conn'"
  shows "\<exists>conn. m c = Some conn \<and> (conn' = conn \<or> c \<in> set cs \<and> drop_ref conn = Some conn')"
  using assms
proof (induction e ts cs m rule: expire_conns.induct)
  case (2 e ts d cs m)
  show ?case
  proof (cases "\<exists>conn. m d = Some conn \<and> expired e ts conn")
    case True
    then obtain conn where conn: "m d = Some conn" "expired e ts conn" by blast
    then have "expire_conns e ts cs (m(d := drop_ref conn)) c = Some conn'" "distinct cs" "d \<notin> set cs" using 2(2,3) by simp_all
    from 2(1) [OF conn this(2,1)] this(3) show ?thesis using conn(1) by (auto split: if_splits)
  qed (use 2(3) in \<open>auto split: option.splits if_splits\<close>)
qed simp

lemma expire_conns_fresh: "m c = Some conn \<Longrightarrow> \<not> expired e ts conn \<Longrightarrow> expire_conns e ts cs m c = Some conn"
proof (induction e ts cs m rule: expire_conns.induct)
  case (2 e ts d cs m)
  then show ?case by (cases "d = c") (auto simp: fun_upd_def split: option.splits)
qed simp

text \<open>The connections that no protocol would expire.\<close>

definition fresh :: "nfe_conntrack \<Rightarrow> u64 \<Rightarrow> conn_ptr set" where
  "fresh ct ts = {c. \<exists>conn. conns ct c = Some conn \<and> (\<forall>l. \<not> expired (expiry ct l) ts conn)}"

text \<open>Connections of the second table are connections of the first with the same time stamp.\<close>

definition kept :: "nfe_conntrack \<Rightarrow> nfe_conntrack \<Rightarrow> bool" where
  "kept ct ct' \<longleftrightarrow> (\<forall>c conn. conns ct' c = Some conn \<longrightarrow>
     (\<exists>conn0. conns ct c = Some conn0 \<and> conn_timestamp conn = conn_timestamp conn0))"

lemma kept_refl: "kept ct ct"
  by (simp add: kept_def)

lemma kept_trans: "kept a b \<Longrightarrow> kept b c \<Longrightarrow> kept a c"
  unfolding kept_def by metis

lemma kept_dom: "kept a b \<Longrightarrow> dom (conns b) \<subseteq> dom (conns a)"
  by (force simp: kept_def)

lemma expire_any:
  assumes inv: "ct_inv ct B L" and w: "no_wrap ct"
  shows "\<exists>ct' B' L'. nfe_conntrack_lru_expire l ts ct = Some ct' \<and> ct_inv ct' B' L' \<and> no_wrap ct' \<and> kept ct ct' \<and>
    fresh ct ts \<subseteq> fresh ct' ts \<and> flows ct' B' = live_flows (conns ct') (flows ct B)"
proof -
  obtain ct' where ct': "nfe_conntrack_lru_expire l ts ct = Some ct'" "conns ct' = expire_conns (expiry ct l) ts (L l) (conns ct)"
    "expiry ct' = expiry ct"
    "ct_inv ct' (alive (conns ct') B) (alive (conns ct') L)" "flows ct' (alive (conns ct') B) = live_flows (conns ct') (flows ct B)"
    using lru_expire_inv [OF inv, of l ts] by blast
  have orig: "\<exists>conn0. conns ct c = Some conn0 \<and> (conn = conn0 \<or> c \<in> set (L l) \<and> drop_ref conn0 = Some conn)"
    if "conns ct' c = Some conn" for c conn
    using that ct_inv_distinct(2) [OF inv] expire_conns_from unfolding ct'(2) by blast
  have "kept ct ct'" unfolding kept_def using orig by (fastforce simp: drop_ref_def split: if_splits)
  moreover have "lockref conn \<noteq> - 1" if c: "conns ct' c = Some conn" for c conn
  proof -
    obtain conn0 where conn0: "conns ct c = Some conn0" "conn = conn0 \<or> c \<in> set (L l) \<and> drop_ref conn0 = Some conn" using orig [OF c] by blast
    have "lockref conn0 \<noteq> - 1" using w conn0(1) by (simp add: no_wrap_def)
    moreover have "lockref conn0 \<noteq> 0" if "c \<in> set (L l)" using ct_inv_listed [OF inv that] conn0(1) by force
    ultimately show ?thesis using conn0(2) by (auto simp: drop_ref_def split: if_splits)
  qed
  moreover have "fresh ct ts \<subseteq> fresh ct' ts" using expire_conns_fresh by (fastforce simp: fresh_def ct'(2,3))
  ultimately show ?thesis using ct'(1,4,5) unfolding no_wrap_def by blast
qed

lemma take_found:
  assumes inv: "ct_inv ct B L" and w: "no_wrap ct" and f: "flows ct B t = Some c"
  shows "\<exists>ct1 ct2. ct_lookup_hash ct t (nfe_tuple_hash t) = Some (Some c, ct1) \<and> nfe_conntrack_lru_update l c ct1 = Some ct2 \<and>
    ct_inv ct2 B (to_end l c L) \<and> flows ct2 B = flows ct B \<and> dom (conns ct2) = dom (conns ct) \<and> kept ct ct2 \<and> fresh ct ts \<subseteq> fresh ct2 ts"
proof -
  obtain conn where conn: "conns ct c = Some conn" "lockref conn \<noteq> 0" "c \<in> members B" by (rule flows_conn [OF inv f])
  let ?ct1 = "ct\<lparr>conns := (conns ct)(c \<mapsto> conn\<lparr>lockref := lockref conn + 1\<rparr>)\<rparr>"
  have h: "ct_lookup_hash ct t (nfe_tuple_hash t) = Some (Some c, ?ct1)"
    using find_bucket [OF inv, of t] f conn(1)
    by (simp add: ct_lookup_hash_eq [OF ct_invD(1) [OF inv]] bucket_of_def upd_conn_def)
  have "lockref conn + 1 \<noteq> 0" using conn(1) w by (auto simp: no_wrap_def eq_neg_iff_add_eq_0)
  then have ct1: "ct_inv ?ct1 B L" "flows ?ct1 B = flows ct B" using ct_inv_upd [OF inv conn(1)] by simp_all
  obtain ct2 where ct2: "nfe_conntrack_lru_update l c ?ct1 = Some ct2" "ct_inv ct2 B (to_end l c L)" "flows ct2 B = flows ?ct1 B"
    "ct2 = ?ct1\<lparr>link := link ct2\<rparr>" using lru_update_inv [OF ct1(1) conn(3)] by blast
  have c2: "conns ct2 = (conns ct)(c \<mapsto> conn\<lparr>lockref := lockref conn + 1\<rparr>)" "expiry ct2 = expiry ct" by (subst ct2(4), simp)+
  have "kept ct ct2" "dom (conns ct2) = dom (conns ct)" using conn(1) by (auto simp: kept_def c2)
  moreover have "fresh ct ts \<subseteq> fresh ct2 ts" using conn(1) by (auto simp: fresh_def c2 expired_def)
  ultimately show ?thesis using h ct2(1,2,3) ct1(2) by metis
qed



section \<open>Walks\<close>

text \<open>The walk passes every connection with an LRU list to the callback, in the order of the lists.\<close>

lemma nfe_conntrack_dump_lists:
  assumes inv: "ct_inv ct B L"
  shows "nfe_conntrack_dump ct = Some (concat (map L lru_protos))"
proof -
  have w: "(do { p \<leftarrow> get_next (link ct) (Lru l); nfe_list_for_each (link ct) (Lru l) p }) = Some (map Lru_of (L l))" for l
  proof -
    have "ring (link ct) (Lru l) (map Lru_of (L l))" using ct_invD(1) [OF inv] rep_ring_lru unfolding ct_rep_def by blast
    then have r: "ring (link ct) (Lru l) ([] @ map Lru_of (L l))" by simp
    show ?thesis using ring_next [of "link ct" "Lru l"] r nfe_list_for_each_ring [OF r] by simp
  qed
  have those: "those (map (\<lambda>x. Some (f x)) xs) = Some (map f xs)" for f :: "'a \<Rightarrow> 'b" and xs by (induction xs) simp_all
  have inverse: "those (map (\<lambda>n. case n of Lru_of c \<Rightarrow> Some c | _ \<Rightarrow> None) (map Lru_of xs)) = Some xs" for xs by (induction xs) simp_all
  have "concat (map (\<lambda>l. map Lru_of (L l)) lru_protos) = map Lru_of (concat (map L lru_protos))" by (simp add: map_concat comp_def)
  then show ?thesis unfolding nfe_conntrack_dump_def w those by (simp only: bind.bind_lunit inverse)
qed

section \<open>Packets in sequence\<close>

text \<open>What the parser leaves for the lookup.\<close>

lemma parsed_packet:
  assumes "nfe_packet_hash n ethertype frame ts = Returned 0 packet"
  shows "hash packet = nfe_tuple_hash (tuple packet)" "wf_tuple (tuple packet)"
proof -
  have i: "wf_tuple (tuple (init_packet k ts))" for k
    by (simp add: init_packet_def empty_tuple_def wf_tuple_def domain_len_def NFE_AF_NONE_def NFE_AF_INET_def NFE_AF_INET6_def)
  define et where "et = (if ethertype = 0 then read16 frame 12 else ethertype)"
  define p where "p = (if ethertype = 0 then (init_packet (length frame) ts)\<lparr>ptype := link_type (frame ! 0), data := 14\<rparr>
    else init_packet (length frame) ts)"
  have p: "tuple p = tuple (init_packet (length frame) ts)" by (simp add: p_def)
  have r: "(case nfe_input_handoff n frame et p of
       Returned err q \<Rightarrow> Returned err (if err = 0 then q\<lparr>hash := nfe_tuple_hash (tuple q)\<rparr> else q) | r \<Rightarrow> r) = Returned 0 packet"
    using assms by (simp add: nfe_packet_hash_def Let_def et_def p_def split: if_splits)
  have wf: "wf_result (nfe_input_handoff n frame et p)" using handoff_wf i [of "length frame"] p by metis
  obtain q where "nfe_input_handoff n frame et p = Returned 0 q" "packet = q\<lparr>hash := nfe_tuple_hash (tuple q)\<rparr>"
    using r by (auto split: parse_result.splits if_splits)
  then show "hash packet = nfe_tuple_hash (tuple packet)" "wf_tuple (tuple packet)" using wf by simp_all
qed

text \<open>A lookup that creates nothing, whatever the hash of the packet.\<close>

lemma lookup_only:
  assumes inv: "ct_inv ct B L" and o: "ordered ct L now" and w: "no_wrap ct"
    and l: "nfe_conntrack_lookup None packet NFE_ALLOC_POLICY_NONE ct = Some (r, ct')"
  shows "ct_inv ct' B L \<and> ordered ct' L now \<and> dom (conns ct') = dom (conns ct)"
proof (cases "find (matching ct (tuple packet)) (B (unat (hash packet AND (ct_size ct - 1))))")
  case None
  then show ?thesis using l inv o by (simp add: nfe_conntrack_lookup_def ct_lookup_hash_eq [OF ct_invD(1) [OF inv]])
next
  case (Some c)
  then have "c \<in> set (B (unat (hash packet AND (ct_size ct - 1))))" by (auto simp: find_Some_iff)
  from ct_inv_conn [OF inv this] obtain conn where conn: "conns ct c = Some conn" by blast
  then have "lockref conn + 1 \<noteq> 0" using w by (auto simp: no_wrap_def eq_neg_iff_add_eq_0)
  then have "ct_inv (ct\<lparr>conns := (conns ct)(c \<mapsto> conn\<lparr>lockref := lockref conn + 1\<rparr>)\<rparr>) B L"
    using ct_inv_upd(1) [OF inv conn] by simp
  moreover have "ct' = ct\<lparr>conns := (conns ct)(c \<mapsto> conn\<lparr>lockref := lockref conn + 1\<rparr>)\<rparr>"
    using l Some conn by (simp add: nfe_conntrack_lookup_def ct_lookup_hash_eq [OF ct_invD(1) [OF inv]] upd_conn_def)
  moreover from this have "ordered ct' L now" using conn by (intro ordered_conns [OF o]) (simp add: stamp_def)
  ultimately show ?thesis using conn by auto
qed

lemma release_ok:
  assumes "ct_ok ct now" "nfe_conn_release r ct = Some ct'"
  shows "ct_ok ct' now \<and> dom (conns ct') \<subseteq> dom (conns ct)"
proof (cases r)
  case None
  then show ?thesis using assms by (simp add: nfe_conn_release_def)
next
  case (Some c)
  obtain B L where "ct_inv ct B L" "ordered ct L now" using assms(1) by (auto simp: ct_ok_def)
  from release_step_ok [OF this assms(2) [unfolded Some]] show ?thesis unfolding ct_ok_def by blast
qed

lemma icmp_bypass_ok:
  assumes ok: "ct_ok ct now" and w: "no_wrap ct" and new: "\<forall>c. new = Some c \<longrightarrow> c \<notin> dom (conns ct)"
    and r: "nfe_icmp_bypass n buf new p ct = Some (r, ct')"
  shows "ct_ok ct' now"
proof (cases "size_lt p 8")
  case True
  then show ?thesis using r ok by (simp add: nfe_icmp_bypass_def)
next
  case False
  obtain B L where inv: "ct_inv ct B L" "ordered ct L now" using ok by (auto simp: ct_ok_def)
  obtain ct1 where a: "nfe_conn_alloc new p False ct1 = Some (r, ct')" and ct1: "ct1 = ct \<or>
    (\<exists>packet r ct2 ct3. nfe_conntrack_lookup None packet NFE_ALLOC_POLICY_NONE ct = Some (r, ct2) \<and>
       nfe_conn_release r ct2 = Some ct3 \<and> nfe_conn_release r ct3 = Some ct1)"
    using r False unfolding nfe_icmp_bypass_def by (simp add: Let_def split: if_splits bind_splits parse_result.splits prod.splits) metis+
  have "ct_ok ct1 now \<and> dom (conns ct1) \<subseteq> dom (conns ct)"
    using ct1
  proof (elim disjE exE conjE)
    fix packet r ct2 ct3
    assume l: "nfe_conntrack_lookup None packet NFE_ALLOC_POLICY_NONE ct = Some (r, ct2)" "nfe_conn_release r ct2 = Some ct3"
      "nfe_conn_release r ct3 = Some ct1"
    have c2: "ct_ok ct2 now" "dom (conns ct2) = dom (conns ct)" using lookup_only [OF inv w l(1)] unfolding ct_ok_def by blast+
    note c3 = release_ok [OF c2(1) l(2)]
    show ?thesis using release_ok [OF conjunct1 [OF c3] l(3)] c3 c2(2) by blast
  qed (use ok in simp)
  then obtain B1 L1 where i1: "ct_inv ct1 B1 L1" "ordered ct1 L1 now" "dom (conns ct1) \<subseteq> dom (conns ct)" by (auto simp: ct_ok_def)
  show ?thesis
  proof (cases new)
    case None
    then show ?thesis using a i1 by (auto simp: nfe_conn_alloc_def ct_ok_def)
  next
    case (Some c)
    then have "c \<notin> dom (conns ct1)" using new i1(3) by blast
    from alloc_step [OF i1(1,2) this, of p False] a Some show ?thesis by (auto simp: ct_ok_def)
  qed
qed

lemma ct_ok_mono: "ct_ok ct now \<Longrightarrow> now \<le> t \<Longrightarrow> ct_ok ct t"
  unfolding ct_ok_def ordered_def by (meson order_trans)

lemma timeouts_ok: "ct_ok ct now \<Longrightarrow> ct_ok (nfe_conntrack_update_timeouts cfg ct) now"
proof -
  assume "ct_ok ct now"
  then obtain B L where "ct_inv ct B L" "ordered ct L now" by (auto simp: ct_ok_def)
  moreover have "matching (ct\<lparr>expiry := e\<rparr>) = matching ct" "bucket_of (ct\<lparr>expiry := e\<rparr>) = bucket_of ct" for e
    by (simp_all add: matching_def bucket_of_def fun_eq_iff)
  ultimately have "ct_inv (nfe_conntrack_update_timeouts cfg ct) B L \<and> ordered (nfe_conntrack_update_timeouts cfg ct) L now"
    by (simp add: nfe_conntrack_update_timeouts_def ct_inv_def ct_rep_def ordered_def stamp_def [abs_def])
  then show ?thesis unfolding ct_ok_def by blast
qed

text \<open>The TCP header of the packet can be read and is not that of a SYN with RST.\<close>

definition tcp_readable :: "u8 list \<Rightarrow> nfe_packet \<Rightarrow> bool" where
  "tcp_readable frame packet \<longleftrightarrow>
     (case prot packet of None \<Rightarrow> False
      | Some p \<Rightarrow> (case tcphdr_at frame p of None \<Rightarrow> False | Some th \<Rightarrow> tcp_mss th \<noteq> None \<and> th_flags th AND 6 \<noteq> 6))"

definition tcp_packet :: "nfe_packet \<Rightarrow> bool" where
  "tcp_packet packet \<longleftrightarrow> next_op packet = NEXT_LOOKUP_TCP \<and> ptype packet \<noteq> NFE_PACKET_TYPE_BROADCAST"

definition bypass_packet :: "nfe_packet \<Rightarrow> bool" where
  "bypass_packet packet \<longleftrightarrow> next_op packet = NEXT_BYPASS_ICMP \<and> ptype packet \<noteq> NFE_PACKET_TYPE_BROADCAST"

lemma lookup_simple:
  assumes "\<not> tcp_packet packet" "\<not> bypass_packet packet"
  shows "nfe_conn_lookup n cfg buf new packet ct = Some (None, packet, ct) \<or>
    (\<exists>l \<in> {LRU_PROTO_UDP, LRU_PROTO_ICMP, LRU_PROTO_ETHER}. nfe_conn_lookup n cfg buf new packet ct = simple_lookup l new packet ct)"
  using assms by (auto simp: nfe_conn_lookup_def nfe_conn_lookup_next_def tcp_packet_def bypass_packet_def simple_lookup_def split: nfe_next.splits)

lemma tcp_unreadable:
  "prot packet = None \<or> tcphdr_at buf (the (prot packet)) = None \<Longrightarrow> nfe_tcp_lookup cfg buf new packet ct = None"
  by (cases "prot packet") (auto simp: nfe_tcp_lookup_def nfe_tcpfsm_input_def)

lemma conn_lookup_ok:
  assumes ok: "ct_ok ct now" and t: "now \<le> timestamp packet" and w: "no_wrap ct" and rd: "lookup_ready packet new ct"
    and m: "\<not> nfe_conntrack_tcp_midflow cfg" and b: "\<not> bypass_packet packet"
    and safe: "nfe_conn_lookup n cfg buf new packet ct \<noteq> None \<or> (tcp_packet packet \<longrightarrow> tcp_readable buf packet)"
  shows "\<exists>r packet' ct'. nfe_conn_lookup n cfg buf new packet ct = Some (r, packet', ct') \<and> ct_ok ct' (timestamp packet) \<and>
    (\<forall>c. r = Some c \<longrightarrow> c \<in> dom (conns ct'))"
proof -
  obtain B L where inv: "ct_inv ct B L" "ordered ct L now" using ok by (auto simp: ct_ok_def)
  show ?thesis
  proof (cases "tcp_packet packet")
    case True
    then have eq: "nfe_conn_lookup n cfg buf new packet ct = nfe_tcp_lookup cfg buf new packet ct"
      by (simp add: nfe_conn_lookup_def nfe_conn_lookup_next_def tcp_packet_def)
    have "nfe_tcp_lookup cfg buf new packet ct \<noteq> None \<or> tcp_readable buf packet" using safe True by (simp add: eq)
    then have "\<not> (prot packet = None \<or> tcphdr_at buf (the (prot packet)) = None)"
      using tcp_unreadable [of packet buf cfg new ct] by (auto simp: tcp_readable_def split: option.splits)
    then obtain p th where p: "prot packet = Some p" and th: "tcphdr_at buf p = Some th" by auto
    have "nfe_tcp_lookup cfg buf new packet ct \<noteq> None \<or> tcp_mss th \<noteq> None \<and> th_flags th AND 6 \<noteq> 6"
      using safe eq True p th by (auto simp: tcp_readable_def)
    from tcp_lookup_ok [OF inv t w rd p th m this] show ?thesis unfolding eq .
  next
    case False
    from lookup_simple [OF False b, of n cfg buf new ct] show ?thesis
    proof (elim disjE bexE)
      assume "nfe_conn_lookup n cfg buf new packet ct = Some (None, packet, ct)"
      then show ?thesis using ok t by (auto intro: ct_ok_mono)
    next
      fix l
      assume l: "l \<in> {LRU_PROTO_UDP, LRU_PROTO_ICMP, LRU_PROTO_ETHER}"
        "nfe_conn_lookup n cfg buf new packet ct = simple_lookup l new packet ct"
      show ?thesis unfolding l(2) using simple_lookup_step [OF inv t w rd l(1)] by blast
    qed
  qed
qed

text \<open>
  The tables of a run: packets in the order of their time stamps, each parsed from its frame, releases of
  connections and updates of the timeouts. \<open>now\<close> is the time of the last packet. The reference counts do not wrap,
  and an allocated connection is not in use.
\<close>

inductive ct_reach :: "nfe_config \<Rightarrow> nfe_conntrack \<Rightarrow> u64 \<Rightarrow> bool" for cfg where
  create: "nfe_conntrack_create cfg k = Some ct \<Longrightarrow> ct_reach cfg ct 0"
| packet: "ct_reach cfg ct now \<Longrightarrow> nfe_packet_hash n ethertype frame ts = Returned 0 packet \<Longrightarrow> now \<le> timestamp packet \<Longrightarrow>
    no_wrap ct \<Longrightarrow> \<forall>c. new = Some c \<longrightarrow> c \<notin> dom (conns ct) \<Longrightarrow>
    nfe_conn_lookup n cfg frame new packet ct = Some (r, packet', ct') \<Longrightarrow> ct_reach cfg ct' (timestamp packet)"
| release: "ct_reach cfg ct now \<Longrightarrow> nfe_conn_release r ct = Some ct' \<Longrightarrow> ct_reach cfg ct' now"
| timeouts: "ct_reach cfg ct now \<Longrightarrow> ct_reach cfg (nfe_conntrack_update_timeouts cfg ct) now"

lemma ct_reach_ok:
  assumes "ct_reach cfg ct now" "\<not> nfe_conntrack_tcp_midflow cfg"
  shows "ct_ok ct now"
  using assms(1)
proof (induction rule: ct_reach.induct)
  case (create k ct)
  then show ?case using create_inv [OF create] by (force simp: ct_ok_def ordered_def)
next
  case (packet ct now n ethertype frame ts packet new r packet' ct')
  have rd: "lookup_ready packet new ct" using parsed_packet [OF packet.hyps(2)] packet.hyps(5) by (simp add: lookup_ready_def)
  have "now \<le> timestamp packet" "no_wrap ct" using packet.hyps by simp_all
  show ?case
  proof (cases "bypass_packet packet")
    case True
    then have "nfe_icmp_bypass n frame new packet ct = Some (r, ct')"
      using packet.hyps(6) by (auto simp: nfe_conn_lookup_def nfe_conn_lookup_next_def bypass_packet_def split: bind_splits)
    from icmp_bypass_ok [OF packet.IH packet.hyps(4,5) this] show ?thesis by (rule ct_ok_mono) (rule packet.hyps(3))
  next
    case False
    from conn_lookup_ok [OF packet.IH packet.hyps(3,4) rd assms(2) False, of n frame] packet.hyps(6) show ?thesis by auto
  qed
next
  case (release ct now r ct')
  then show ?case using release_ok by blast
next
  case (timeouts ct now)
  show ?case by (rule timeouts_ok [OF timeouts.IH])
qed


text \<open>An ARP frame without a payload.\<close>

definition arp_frame :: "u8 list" where
  "arp_frame = [0, 0, 0, 0, 0, 0, 0, 0, 0, 0, 0, 0, 8, 6]"


end
