(* ===== verification/Spec2Isabelle.thy ===== *)
theory Spec2Isabelle
  imports Ds_Tree_Api Ds_Dlist Osw_Throttle Osw_Timer Osw_Token Osw_Op_Class Osw_Enums Osw_Passpoint Osw_Tlv Nfe_Engine
begin

text \<open>
  Verification of OpenSync.
\<close>

end
